(* ===== verification/Prelude.thy ===== *)
theory Prelude
  imports Main "HOL-Library.Char_ord" "HOL-Library.List_Lexorder" "HOL-Library.Product_Lexorder"
    "HOL-Library.Option_ord" "HOL-Library.Monad_Syntax" "HOL-Library.Multiset"
    "HOL-Library.Word"
begin

text \<open>
  Shared vocabulary of the development: the pieces of the C++ standard library that the
  optimizer uses on strings (\<open>std::transform\<close> with \<open>tolower\<close>/\<open>toupper\<close>, \<open>find\<close>, \<open>isspace\<close>,
  \<open>to_string\<close>, \<open>stoull\<close>), the faults a C++ run can end in, a sorted association list for the
  one \<open>std::set\<close> whose iteration order matters, and the lemma collections the component
  theories extend.
\<close>

section \<open>Collections\<close>

named_theorems ir_simps \<open>projections of freshly created IR operators\<close>
named_theorems heap_simps \<open>reads after allocation and update of plan cells\<close>
named_theorems arity_simps \<open>well-formedness of the column lists of an operator\<close>

section \<open>Faults\<close>

text \<open>
  How a C++ run can fail: an exception the source throws (with its message), or an access the
  language leaves undefined (an index past the end of a vector, a member of a null pointer, a
  node linked into the tree twice).
\<close>

datatype fault =
    InvalidArgument string
  | RuntimeError string
  | OutOfRange
  | NullDeref
  | SharedNode

type_synonym 'a res = "fault + 'a"

definition bindE :: "'a res \<Rightarrow> ('a \<Rightarrow> 'b res) \<Rightarrow> 'b res" where
  "bindE m f = (case m of Inl e \<Rightarrow> Inl e | Inr x \<Rightarrow> f x)"

lemma bindE_simps [simp]: "bindE (Inl e) f = Inl e" "bindE (Inr x) f = f x"
  by (simp_all add: bindE_def)

lemma bindE_Inr_iff: "bindE m f = Inr y \<longleftrightarrow> (\<exists>x. m = Inr x \<and> f x = Inr y)"
  by (cases m) auto

lemma bindE_InrE:
  assumes "bindE m f = Inr y"
  obtains x where "m = Inr x" and "f x = Inr y"
  using assms by (auto simp: bindE_Inr_iff)

lemma bindE_cong [fundef_cong]:
  "m = m' \<Longrightarrow> (\<And>x. m' = Inr x \<Longrightarrow> f x = g x) \<Longrightarrow> bindE m f = bindE m' g"
  by (cases m') auto

text \<open>A read of a vector: \<open>OutOfRange\<close> where C++ leaves the access undefined.\<close>

definition at :: "'a list \<Rightarrow> nat \<Rightarrow> 'a option" where
  "at xs i = (if i < length xs then Some (xs ! i) else None)"

lemma at_Some_iff [simp]: "at xs i = Some x \<longleftrightarrow> i < length xs \<and> xs ! i = x"
  by (auto simp: at_def)

lemma at_None_iff [simp]: "at xs i = None \<longleftrightarrow> length xs \<le> i"
  by (auto simp: at_def)

lemma at_append: "i < length xs \<Longrightarrow> at (xs @ ys) i = at xs i"
  by (simp add: at_def nth_append)

definition atE :: "'a list \<Rightarrow> nat \<Rightarrow> 'a res" where
  "atE xs i = (if i < length xs then Inr (xs ! i) else Inl OutOfRange)"

lemma atE_Inr_iff [simp]: "atE xs i = Inr x \<longleftrightarrow> i < length xs \<and> xs ! i = x"
  by (auto simp: atE_def)

section \<open>Characters and strings\<close>

definition is_space :: "char \<Rightarrow> bool" where
  "is_space c \<longleftrightarrow> (let n = (of_char c :: nat) in (9 \<le> n \<and> n \<le> 13) \<or> n = 32)"

definition lower_char :: "char \<Rightarrow> char" where
  "lower_char c = (let n = (of_char c :: nat) in if 65 \<le> n \<and> n \<le> 90 then char_of (n + 32) else c)"

definition upper_char :: "char \<Rightarrow> char" where
  "upper_char c = (let n = (of_char c :: nat) in if 97 \<le> n \<and> n \<le> 122 then char_of (n - 32) else c)"

definition to_lower :: "string \<Rightarrow> string" where
  "to_lower = map lower_char"

definition to_upper :: "string \<Rightarrow> string" where
  "to_upper = map upper_char"

text \<open>\<open>std::string::find\<close>: the first position where the pattern occurs.\<close>

fun find_sub :: "string \<Rightarrow> string \<Rightarrow> nat option" where
  "find_sub p [] = (if p = [] then Some 0 else None)"
| "find_sub p (c # s) = (if take (length p) (c # s) = p then Some 0 else map_option Suc (find_sub p s))"

definition contains_sub :: "string \<Rightarrow> string \<Rightarrow> bool" where
  "contains_sub p s \<longleftrightarrow> find_sub p s \<noteq> None"

text \<open>\<open>find_first_of(chars) != npos\<close>.\<close>

definition contains_any :: "string \<Rightarrow> string \<Rightarrow> bool" where
  "contains_any cs s \<longleftrightarrow> (\<exists>c \<in> set s. c \<in> set cs)"

lemma find_sub_Some:
  "find_sub p s = Some i \<Longrightarrow> i \<le> length s \<and> take (length p) (drop i s) = p"
proof (induction p s arbitrary: i rule: find_sub.induct)
  case (1 p)
  then show ?case by (simp split: if_splits)
next
  case (2 p c s)
  then show ?case
    by (cases "take (length p) (c # s) = p") (auto split: if_splits)
qed

lemma find_sub_bound:
  assumes "find_sub p s = Some i"
  shows "i + length p \<le> length s"
proof -
  have "length (take (length p) (drop i s)) = length p" and "i \<le> length s"
    using find_sub_Some [OF assms] by simp_all
  then show ?thesis by simp
qed

lemma find_sub_split:
  assumes "find_sub p s = Some i"
  shows "s = take i s @ p @ drop (i + length p) s"
proof -
  have p: "take (length p) (drop i s) = p"
    using find_sub_Some [OF assms] by simp
  have "drop i s = take (length p) (drop i s) @ drop (length p) (drop i s)"
    by (rule append_take_drop_id [symmetric])
  with p have d: "drop i s = p @ drop (i + length p) s"
    by (simp add: add.commute)
  have "s = take i s @ drop i s" by simp
  with d show ?thesis by simp
qed

lemma lower_upper_char: "lower_char (upper_char c) = lower_char c"
proof -
  have "of_char (char_of (n::nat)) = n" if "n < 256" for n
    using that by simp
  then show ?thesis
    by (auto simp: lower_char_def upper_char_def Let_def)
qed

lemma lower_lower_char: "lower_char (lower_char c) = lower_char c"
  by (auto simp: lower_char_def Let_def)

lemma to_lower_to_upper [simp]: "to_lower (to_upper s) = to_lower s"
  by (simp add: to_lower_def to_upper_def lower_upper_char)

lemma to_lower_to_lower [simp]: "to_lower (to_lower s) = to_lower s"
  by (simp add: to_lower_def lower_lower_char)

lemma to_lower_eq_Nil [simp]: "to_lower s = [] \<longleftrightarrow> s = []"
  by (simp add: to_lower_def)

text \<open>\<open>std::to_string\<close> of an unsigned value: its decimal digits.\<close>

definition digit_char :: "nat \<Rightarrow> char" where
  "digit_char d = char_of (48 + d)"

definition is_digit :: "char \<Rightarrow> bool" where
  "is_digit c \<longleftrightarrow> (let n = (of_char c :: nat) in 48 \<le> n \<and> n \<le> 57)"

definition digit_val :: "char \<Rightarrow> nat" where
  "digit_val c = of_char c - 48"

fun to_string :: "nat \<Rightarrow> string" where
  "to_string n = (if n < 10 then [digit_char n] else to_string (n div 10) @ [digit_char (n mod 10)])"

declare to_string.simps [simp del]

fun digits_val :: "nat \<Rightarrow> string \<Rightarrow> nat" where
  "digits_val acc [] = acc"
| "digits_val acc (c # cs) = digits_val (10 * acc + digit_val c) cs"

lemma digit_char_digit [simp]: "d < 10 \<Longrightarrow> is_digit (digit_char d)"
  by (simp add: is_digit_def digit_char_def Let_def)

lemma digit_val_digit_char [simp]: "d < 10 \<Longrightarrow> digit_val (digit_char d) = d"
  by (simp add: digit_val_def digit_char_def)

lemma digits_val_append: "digits_val acc (xs @ ys) = digits_val (digits_val acc xs) ys"
  by (induction xs arbitrary: acc) auto

lemma to_string_digits: "list_all is_digit (to_string n)"
proof (induction n rule: to_string.induct)
  case (1 n)
  then show ?case by (subst to_string.simps) auto
qed

text \<open>Reading the digits back gives the number, so two numbers never print alike.\<close>

lemma digits_val_to_string: "digits_val 0 (to_string n) = n"
proof (induction n rule: to_string.induct)
  case (1 n)
  show ?case
  proof (cases "n < 10")
    case True
    then show ?thesis by (simp add: to_string.simps [of n])
  next
    case False
    with 1 show ?thesis
      by (simp add: to_string.simps [of n] digits_val_append)
  qed
qed

lemma to_string_inject [simp]: "to_string m = to_string n \<longleftrightarrow> m = n"
  by (metis digits_val_to_string)

section \<open>Lists\<close>

text \<open>\<open>std::set\<close> of columns: a list kept in the order of the key, where an element that is
  already present is not inserted again.\<close>

fun insert_by :: "('a \<Rightarrow> 'k::linorder) \<Rightarrow> 'a \<Rightarrow> 'a list \<Rightarrow> 'a list" where
  "insert_by k x [] = [x]"
| "insert_by k x (y # ys) =
     (if k x < k y then x # y # ys else if k x = k y then y # ys else y # insert_by k x ys)"

definition insert_all_by :: "('a \<Rightarrow> 'k::linorder) \<Rightarrow> 'a list \<Rightarrow> 'a list \<Rightarrow> 'a list" where
  "insert_all_by k xs ys = fold (insert_by k) xs ys"

definition ordered_by :: "('a \<Rightarrow> 'k::linorder) \<Rightarrow> 'a list \<Rightarrow> bool" where
  "ordered_by k xs \<longleftrightarrow> sorted_wrt (\<lambda>x y. k x < k y) xs"

lemma insert_by_keys: "k ` set (insert_by k x ys) = insert (k x) (k ` set ys)"
  by (induction ys) auto

lemma insert_by_subset: "set (insert_by k x ys) \<subseteq> insert x (set ys)"
  by (induction ys) auto

lemma insert_by_mono: "set ys \<subseteq> set (insert_by k x ys)"
  by (induction ys) auto

lemma insert_by_ordered: "ordered_by k ys \<Longrightarrow> ordered_by k (insert_by k x ys)"
proof (induction ys)
  case (Cons y ys)
  have "\<forall>z \<in> set (insert_by k x ys). k y < k z" if "k y < k x"
    using that Cons.prems insert_by_subset [of k x ys] by (auto simp: ordered_by_def)
  with Cons show ?case by (fastforce simp: ordered_by_def)
qed (simp add: ordered_by_def)

lemma insert_all_by_keys: "k ` set (insert_all_by k xs ys) = k ` set xs \<union> k ` set ys"
  by (induction xs arbitrary: ys) (auto simp: insert_all_by_def insert_by_keys)

lemma insert_all_by_mono: "set ys \<subseteq> set (insert_all_by k xs ys)"
proof (induction xs arbitrary: ys)
  case (Cons x xs)
  have "set ys \<subseteq> set (insert_by k x ys)" by (rule insert_by_mono)
  also have "\<dots> \<subseteq> set (insert_all_by k xs (insert_by k x ys))" by (rule Cons)
  finally show ?case by (simp add: insert_all_by_def)
qed (simp add: insert_all_by_def)

lemma insert_all_by_subset: "set (insert_all_by k xs ys) \<subseteq> set xs \<union> set ys"
proof (induction xs arbitrary: ys)
  case (Cons x xs)
  then show ?case
    using insert_by_subset [of k x ys] by (fastforce simp: insert_all_by_def)
qed (simp add: insert_all_by_def)

lemma insert_all_by_ordered: "ordered_by k ys \<Longrightarrow> ordered_by k (insert_all_by k xs ys)"
  by (induction xs arbitrary: ys) (auto simp: insert_all_by_def insert_by_ordered)

lemma ordered_by_Nil [simp]: "ordered_by k []"
  by (simp add: ordered_by_def)

text \<open>\<open>std::swap\<close> of two elements of a vector.\<close>

definition swap01 :: "'a list \<Rightarrow> 'a list" where
  "swap01 xs = (case xs of x # y # zs \<Rightarrow> y # x # zs | _ \<Rightarrow> xs)"

lemma swap01_simps [simp]: "swap01 (x # y # zs) = y # x # zs" "swap01 [] = []" "swap01 [x] = [x]"
  by (simp_all add: swap01_def)

lemma mset_swap01 [simp]: "mset (swap01 xs) = mset xs"
  by (auto simp: swap01_def split: list.splits)

lemma length_swap01 [simp]: "length (swap01 xs) = length xs"
  by (auto simp: swap01_def split: list.splits)

lemma option_bind_eq_Some: "(m \<bind> f) = Some y \<longleftrightarrow> (\<exists>x. m = Some x \<and> f x = Some y)"
  by (cases m) auto

end
