(* ===== verification/Client_Config.thy ===== *)
theory Client_Config
  imports Prelude
begin

text \<open>
  The client's configuration (\<open>include/client/DBClient.hpp\<close>), the command line parser
  (\<open>util/ArgParser\<close>) and the program \<open>examples/DBClient_example.cpp\<close> that fills the one from the other.
  The text printed on a missing argument is not modelled. Reading a number goes through a string
  stream; \<open>parse_size\<close>, the stream's extraction of a \<open>size_t\<close>, skips white space, takes the
  longest run of digits (with a sign, which wraps) and is 0 when there is none and the largest
  value on overflow.
\<close>

section \<open>Configuration\<close>

datatype MaterializeOptTypes = FillMaterializes | PutLateMaterialization | PutLateMaterializationsHybrid

record ClientConfiguration =
  cfg_ip :: string
  cfg_port :: nat
  cfg_inputFile :: string
  cfg_standalone :: bool
  cfg_debug :: bool
  cfg_threadPoolSize :: nat
  cfg_planDot :: bool
  cfg_semiJoins :: bool
  cfg_mergeSubsetSort :: bool
  cfg_grandChildOpt :: bool
  cfg_jsonPlan :: bool
  cfg_jsonPlanFile :: string
  cfg_matType :: MaterializeOptTypes

definition setMatType :: "string \<Rightarrow> MaterializeOptTypes" where
  "setMatType t =
     (if t = ''lateMat'' then PutLateMaterialization
      else if t = ''lateMatHybrid'' then PutLateMaterializationsHybrid
      else FillMaterializes)"

section \<open>The argument parser\<close>

type_synonym args = "string list"

text \<open>\<open>std::find\<close> with the value right after it: what is there, and the list without both.\<close>

fun find_value :: "string \<Rightarrow> args \<Rightarrow> string option" where
  "find_value k [] = None"
| "find_value k [x] = None"
| "find_value k (x # y # r) = (if x = k then Some y else find_value k (y # r))"

fun remove_value :: "string \<Rightarrow> args \<Rightarrow> args" where
  "remove_value k [] = []"
| "remove_value k [x] = [x]"
| "remove_value k (x # y # r) = (if x = k then r else x # remove_value k (y # r))"

definition getArgByValue :: "string \<Rightarrow> args \<Rightarrow> string" where
  "getArgByValue k as = (case find_value k as of Some v \<Rightarrow> v | None \<Rightarrow> [])"

definition getArgByValueAndRemove :: "string \<Rightarrow> args \<Rightarrow> string \<times> args" where
  "getArgByValueAndRemove k as = (getArgByValue k as, remove_value k as)"

definition getFlagByValueAndRemove :: "string \<Rightarrow> args \<Rightarrow> bool \<times> args" where
  "getFlagByValueAndRemove k as = (k \<in> set as, remove1 k as)"

definition hasArg :: "string \<Rightarrow> args \<Rightarrow> bool" where
  "hasArg k as \<longleftrightarrow> k \<in> set as"

text \<open>\<open>takeParseArg<std::string>\<close> and \<open>takeParseArg<size_t>\<close>.\<close>

definition takeParseArg :: "string \<Rightarrow> string \<Rightarrow> string \<Rightarrow> bool \<Rightarrow> args \<Rightarrow> (string \<times> args) res" where
  "takeParseArg key warning dflt exitOnWarning as =
     (let (v, as') = getArgByValueAndRemove key as in
      if v = [] then (if exitOnWarning then Inl (RuntimeError warning) else Inr (dflt, as')) else Inr (v, as'))"

definition takeParseSize ::
    "(string \<Rightarrow> nat) \<Rightarrow> string \<Rightarrow> string \<Rightarrow> nat \<Rightarrow> bool \<Rightarrow> args \<Rightarrow> (nat \<times> args) res" where
  "takeParseSize parse_size key warning dflt exitOnWarning as =
     (let (v, as') = getArgByValueAndRemove key as in
      if v = [] then (if exitOnWarning then Inl (RuntimeError warning) else Inr (dflt, as')) else Inr (parse_size v, as'))"

definition takeParseFlag :: "string \<Rightarrow> args \<Rightarrow> bool \<times> args" where
  "takeParseFlag key as = getFlagByValueAndRemove key as"

text \<open>\<open>main\<close> up to the construction of the client: the configuration, whether help was asked for,
  and the arguments nobody took.\<close>

definition main_config :: "(string \<Rightarrow> nat) \<Rightarrow> args \<Rightarrow> (ClientConfiguration \<times> bool \<times> args) res" where
  "main_config parse_size as =
     bindE (takeParseArg ''-ip'' ''[Warning] No IP given. Pass a server IP with [-ip]'' ''127.0.0.1'' False as) (\<lambda>(ip, a1).
     bindE (takeParseSize parse_size ''-port'' ''[Warning] No Port given. Pass a port with [-port].'' 23232 False a1) (\<lambda>(port, a2).
     bindE (takeParseArg ''-file'' ''[INFO] No input file given.'' [] False a2) (\<lambda>(file, a3).
     let (standalone, a4) = takeParseFlag ''-standalone'' a3;
         (debug, a5) = takeParseFlag ''-debug'' a4;
         (dot, a6) = takeParseFlag ''-genPlanDot'' a5;
         (semi, a7) = takeParseFlag ''-semiJoins'' a6;
         (merge, a8) = takeParseFlag ''-mergeSort'' a7;
         (grand, a9) = takeParseFlag ''-gChildOpt'' a8
     in
     bindE (takeParseArg ''-jsonPlan'' [] [] False a9) (\<lambda>(json, a10).
     bindE (takeParseArg ''-matType'' [] ''std'' False a10) (\<lambda>(mat, a11).
     let (help, a12) = takeParseFlag ''-help'' a11
     in Inr (\<lparr>cfg_ip = ip, cfg_port = port, cfg_inputFile = file, cfg_standalone = standalone,
          cfg_debug = debug, cfg_threadPoolSize = 4, cfg_planDot = dot, cfg_semiJoins = semi,
          cfg_mergeSubsetSort = merge, cfg_grandChildOpt = grand, cfg_jsonPlan = (json \<noteq> []),
          cfg_jsonPlanFile = json, cfg_matType = setMatType mat\<rparr>, help, a12))))))"

section \<open>Options in any order\<close>

text \<open>A command line as a list of options: a key with its value, or a flag.\<close>

datatype opt = Val (key: string) (val: string) | Flg (key: string)

fun opt_words :: "opt \<Rightarrow> args" where
  "opt_words (Val k v) = [k, v]"
| "opt_words (Flg k) = [k]"

definition opts_line :: "opt list \<Rightarrow> args" where
  "opts_line os = concat (map opt_words os)"

definition value_keys :: "string list" where
  "value_keys = [''-ip'', ''-port'', ''-file'', ''-jsonPlan'', ''-matType'']"

definition flag_keys :: "string list" where
  "flag_keys = [''-standalone'', ''-debug'', ''-genPlanDot'', ''-semiJoins'', ''-mergeSort'', ''-gChildOpt'', ''-help'']"

fun opt_ok :: "opt \<Rightarrow> bool" where
  "opt_ok (Val k v) \<longleftrightarrow> k \<in> set value_keys \<and> v \<noteq> [] \<and> v \<notin> set value_keys \<and> v \<notin> set flag_keys"
| "opt_ok (Flg k) \<longleftrightarrow> k \<in> set flag_keys"

definition opts_ok :: "opt list \<Rightarrow> bool" where
  "opts_ok os \<longleftrightarrow> distinct (map key os) \<and> (\<forall>x \<in> set os. opt_ok x)"

fun option_value :: "string \<Rightarrow> string \<Rightarrow> opt list \<Rightarrow> string" where
  "option_value k dflt [] = dflt"
| "option_value k dflt (Val k' v # os) = (if k' = k then v else option_value k dflt os)"
| "option_value k dflt (Flg _ # os) = option_value k dflt os"

definition without :: "string \<Rightarrow> opt list \<Rightarrow> opt list" where
  "without k os = filter (\<lambda>x. key x \<noteq> k) os"

lemma keys_disjoint: "set value_keys \<inter> set flag_keys = {}"
  by code_simp

lemma opts_ok_Cons [simp]: "opts_ok (x # os) \<longleftrightarrow> opt_ok x \<and> key x \<notin> key ` set os \<and> opts_ok os"
  by (auto simp: opts_ok_def)

lemma opts_line_simps [simp]:
  "opts_line [] = []" "opts_line (Val k v # os) = k # v # opts_line os" "opts_line (Flg k # os) = k # opts_line os"
  by (simp_all add: opts_line_def)

lemma without_simps [simp]:
  "without k [] = []" "without k (x # os) = (if key x = k then without k os else x # without k os)"
  by (simp_all add: without_def)

lemma without_absent: "k \<notin> key ` set os \<Longrightarrow> without k os = os"
  by (induction os) auto

lemma find_value_skip: "x \<noteq> k \<Longrightarrow> find_value k (x # xs) = find_value k xs"
  by (cases xs) simp_all

lemma remove_value_skip: "x \<noteq> k \<Longrightarrow> remove_value k (x # xs) = x # remove_value k xs"
  by (cases xs) simp_all

lemma value_opts:
  "opts_ok os \<Longrightarrow> k \<in> set value_keys \<Longrightarrow>
   (case find_value k (opts_line os) of Some v \<Rightarrow> v \<noteq> [] \<and> option_value k dflt os = v | None \<Rightarrow> option_value k dflt os = dflt) \<and>
   remove_value k (opts_line os) = opts_line (without k os)"
proof (induction os)
  case (Cons x os)
  show ?case
  proof (cases x)
    case (Val k' v)
    then have "v \<noteq> k" using Cons.prems by auto
    then show ?thesis
      using Cons Val without_absent [of k os]
      by (auto simp: find_value_skip remove_value_skip split: option.splits)
  next
    case (Flg k')
    then have "k' \<noteq> k" using Cons.prems keys_disjoint by auto
    then show ?thesis using Cons Flg by (auto simp: find_value_skip remove_value_skip split: option.splits)
  qed
qed simp

lemma take_value:
  assumes "opts_ok os" "k \<in> set value_keys"
  shows "takeParseArg k w dflt False (opts_line os) = Inr (option_value k dflt os, opts_line (without k os))"
  using value_opts [OF assms, of dflt]
  by (auto simp: takeParseArg_def getArgByValueAndRemove_def getArgByValue_def split: option.splits)

lemma take_size:
  assumes "opts_ok os" "k \<in> set value_keys"
  shows "takeParseSize ps k w dflt False (opts_line os) =
    Inr (if option_value k [] os = [] then dflt else ps (option_value k [] os), opts_line (without k os))"
  using value_opts [OF assms, of "[]"]
  by (auto simp: takeParseSize_def getArgByValueAndRemove_def getArgByValue_def split: option.splits)

lemma take_flag:
  "opts_ok os \<Longrightarrow> k \<in> set flag_keys \<Longrightarrow>
   takeParseFlag k (opts_line os) = (Flg k \<in> set os, opts_line (without k os))"
proof (induction os)
  case (Cons x os)
  show ?case
  proof (cases x)
    case (Val k' v)
    then have "k' \<noteq> k" "v \<noteq> k" using Cons.prems keys_disjoint by auto
    then show ?thesis using Cons Val by (auto simp: takeParseFlag_def getFlagByValueAndRemove_def)
  next
    case (Flg k')
    then show ?thesis
      using Cons without_absent [of k os] by (auto simp: takeParseFlag_def getFlagByValueAndRemove_def)
  qed
qed (simp add: takeParseFlag_def getFlagByValueAndRemove_def)

lemma opts_ok_without [simp]: "opts_ok os \<Longrightarrow> opts_ok (without k os)"
  by (auto simp: opts_ok_def without_def distinct_map_filter)

lemma option_value_without [simp]: "k \<noteq> j \<Longrightarrow> option_value k dflt (without j os) = option_value k dflt os"
  by (induction k dflt os rule: option_value.induct) auto

lemma flag_without [simp]: "k \<noteq> j \<Longrightarrow> Flg k \<in> set (without j os) \<longleftrightarrow> Flg k \<in> set os"
  by (auto simp: without_def)

text \<open>Once every known key has been taken, nothing is left.\<close>

lemma opt_key: "opt_ok x \<Longrightarrow> key x \<in> set value_keys \<union> set flag_keys"
  by (cases x) auto

lemma all_taken:
  assumes "opts_ok os"
  shows "without ''-help'' (without ''-matType'' (without ''-jsonPlan'' (without ''-gChildOpt'' (without ''-mergeSort''
    (without ''-semiJoins'' (without ''-genPlanDot'' (without ''-debug'' (without ''-standalone'' (without ''-file''
    (without ''-port'' (without ''-ip'' os))))))))))) = []"
proof -
  have "\<forall>x \<in> set os. key x \<in> set value_keys \<union> set flag_keys"
    using assms opt_key by (auto simp: opts_ok_def)
  then show ?thesis
    by (simp add: without_def value_keys_def flag_keys_def filter_empty_conv) blast
qed

text \<open>The configuration depends on the options of the command line and not on their order: every
  option is found wherever it stands, the defaults stand in for the missing ones, and nothing of
  a well-formed command line is left over.\<close>

lemma main_config_options:
  assumes "opts_ok os"
  shows "main_config ps (opts_line os) =
    Inr (\<lparr>cfg_ip = option_value ''-ip'' ''127.0.0.1'' os,
          cfg_port = (let v = option_value ''-port'' [] os in if v = [] then 23232 else ps v),
          cfg_inputFile = option_value ''-file'' [] os, cfg_standalone = (Flg ''-standalone'' \<in> set os),
          cfg_debug = (Flg ''-debug'' \<in> set os), cfg_threadPoolSize = 4,
          cfg_planDot = (Flg ''-genPlanDot'' \<in> set os), cfg_semiJoins = (Flg ''-semiJoins'' \<in> set os),
          cfg_mergeSubsetSort = (Flg ''-mergeSort'' \<in> set os), cfg_grandChildOpt = (Flg ''-gChildOpt'' \<in> set os),
          cfg_jsonPlan = (option_value ''-jsonPlan'' [] os \<noteq> []),
          cfg_jsonPlanFile = option_value ''-jsonPlan'' [] os,
          cfg_matType = setMatType (option_value ''-matType'' ''std'' os)\<rparr>, Flg ''-help'' \<in> set os, [])"
proof -
  have keys: "''-ip'' \<in> set value_keys" "''-port'' \<in> set value_keys" "''-file'' \<in> set value_keys"
    "''-jsonPlan'' \<in> set value_keys" "''-matType'' \<in> set value_keys" "''-standalone'' \<in> set flag_keys"
    "''-debug'' \<in> set flag_keys" "''-genPlanDot'' \<in> set flag_keys" "''-semiJoins'' \<in> set flag_keys"
    "''-mergeSort'' \<in> set flag_keys" "''-gChildOpt'' \<in> set flag_keys" "''-help'' \<in> set flag_keys"
    by (simp_all add: value_keys_def flag_keys_def)
  show ?thesis
    using assms
    by (simp add: main_config_def Let_def take_value take_size take_flag keys all_taken)
qed

definition sample_opts :: "opt list" where
  "sample_opts = [Flg ''-standalone'', Val ''-matType'' ''lateMat'', Val ''-port'' ''99'', Flg ''-gChildOpt'']"

lemma sample_opts_ok: "opts_ok sample_opts"
  by code_simp

end
