(* ===== verification/Base_Types.thy ===== *)
theory Base_Types
  imports Prelude
begin

text \<open>
  The schema types of \<open>include/ir/base_types.hpp\<close> and the protobuf enumerations of
  \<open>proto/WorkItem.proto\<close> that the intermediate representation carries: tables, columns, order
  descriptions and join kinds, with the constructors (which turn an empty alias into none) and
  the comparison operators the containers of the optimizer are keyed by. \<open>operator<\<close> on tables
  is a total order and becomes the type's \<open>linorder\<close>; \<open>operator<\<close> on columns looks at the table
  name and the column name only, so a \<open>std::map\<close> over columns is a map over \<open>col_key\<close>.
\<close>

section \<open>Enumerations of the work item protocol\<close>

datatype ColumnType = TYPE_INTEGER | TYPE_FLOAT | TYPE_STRING | TYPE_BITMASK | TYPE_POSLIST
  | TYPE_PAIR_POSLIST

datatype CompType = COMP_LT | COMP_LE | COMP_EQ | COMP_GE | COMP_GT | COMP_NE | COMP_BETWEEN | COMP_IN

datatype OperatorType = OP_FILTER | OP_IDXSCAN | OP_NLJ | OP_HASHJOIN | OP_MERGEJOIN | OP_AGGREGATE
  | OP_SETOPERATION | OP_SORT | OP_MAP | OP_MATERIALIZE | OP_GROUPBY

datatype AggFunc = AGG_COUNT | AGG_SUM | AGG_MIN | AGG_MAX | AGG_AVG

datatype RelOp = REL_UNION | REL_INTERSECTION | REL_NEGATION

datatype ArithOp = ARITH_ADD | ARITH_SUB | ARITH_MUL | ARITH_DIV | ARITH_MOD

datatype Join = INNER_JOIN | LEFT_OUTER_JOIN | RIGHT_OUTER_JOIN | FULL_OUTER_JOIN

text \<open>
  \<open>std::variant<uint64_t, float, std::string>\<close>: a literal of a filter. A \<open>float\<close> is its
  32-bit IEEE 754 pattern.
\<close>

datatype Scalar = ScalarInt "64 word" | ScalarFloat "32 word" | ScalarString string

section \<open>Tables\<close>

datatype Table = Table (tname: string) (talias: "string option") (isVirtual: bool) (tschema: string)

text \<open>The constructor drops an alias that is present but empty.\<close>

definition drop_empty :: "string option \<Rightarrow> string option" where
  "drop_empty a = (if a = Some [] then None else a)"

definition mkTable :: "string \<Rightarrow> string option \<Rightarrow> bool \<Rightarrow> string \<Rightarrow> Table" where
  "mkTable name a virt schema = Table name (drop_empty a) virt schema"

text \<open>\<open>Table("x")\<close>: the three other arguments take their defaults.\<close>

definition table_of :: "string \<Rightarrow> Table" where
  "table_of name = mkTable name None False []"

fun set_tname :: "string \<Rightarrow> Table \<Rightarrow> Table" where
  "set_tname n (Table _ a v s) = Table n a v s"

lemma table_of_simps [simp]: "tname (table_of n) = n" "talias (table_of n) = None"
  by (simp_all add: table_of_def mkTable_def drop_empty_def)

lemma tname_set_tname [simp]: "tname (set_tname n t) = n"
  by (cases t) simp

text \<open>\<open>Table::operator==\<close> compares name and alias only.\<close>

definition table_eq :: "Table \<Rightarrow> Table \<Rightarrow> bool" where
  "table_eq a b \<longleftrightarrow> tname a = tname b \<and> talias a = talias b"

text \<open>\<open>Table::operator<\<close>: schema, name, alias, virtual flag, each deciding when the ones
  before it are equal.\<close>

definition table_less :: "Table \<Rightarrow> Table \<Rightarrow> bool" where
  "table_less a b =
     (if tschema a \<noteq> tschema b then tschema a < tschema b
      else if tname a \<noteq> tname b then tname a < tname b
      else if talias a \<noteq> talias b then talias a < talias b
      else isVirtual a < isVirtual b)"

instantiation Table :: linorder
begin

definition less_Table :: "Table \<Rightarrow> Table \<Rightarrow> bool" where
  "less_Table a b \<longleftrightarrow> table_less a b"

definition less_eq_Table :: "Table \<Rightarrow> Table \<Rightarrow> bool" where
  "less_eq_Table a b \<longleftrightarrow> table_less a b \<or> a = b"

instance
proof
  fix x y z :: Table
  show "x < y \<longleftrightarrow> x \<le> y \<and> \<not> y \<le> x"
    by (cases x; cases y) (auto simp: less_Table_def less_eq_Table_def table_less_def split: if_splits)
  show "x \<le> x" by (simp add: less_eq_Table_def)
  show "x \<le> y \<Longrightarrow> y \<le> z \<Longrightarrow> x \<le> z"
    by (cases x; cases y; cases z)
       (auto simp: less_eq_Table_def table_less_def split: if_splits)
  show "x \<le> y \<Longrightarrow> y \<le> x \<Longrightarrow> x = y"
    by (cases x; cases y) (auto simp: less_eq_Table_def table_less_def split: if_splits)
  show "x \<le> y \<or> y \<le> x"
    by (cases x; cases y) (auto simp: less_eq_Table_def table_less_def split: if_splits)
qed

end

text \<open>Tables that \<open>operator<\<close> cannot tell apart are the same table, hence also \<open>==\<close>; the
  converse fails, since \<open>==\<close> ignores the schema.\<close>

lemma table_equiv_eq: "\<not> table_less a b \<Longrightarrow> \<not> table_less b a \<Longrightarrow> a = b"
  using linorder_less_linear [of a b] by (auto simp: less_Table_def)

lemma table_eq_refl [simp]: "table_eq t t"
  by (simp add: table_eq_def)

section \<open>Columns\<close>

record TableColumn =
  ctable :: Table
  columnName :: string
  columnType :: ColumnType
  calias :: "string option"

definition mkColumn :: "Table \<Rightarrow> string \<Rightarrow> ColumnType \<Rightarrow> string option \<Rightarrow> TableColumn" where
  "mkColumn t n ty a = \<lparr>ctable = t, columnName = n, columnType = ty, calias = drop_empty a\<rparr>"

text \<open>\<open>TableColumn()\<close>: the members the default constructor leaves uninitialised are given
  fixed values here; no definition reads them before they are assigned.\<close>

definition emptyColumn :: TableColumn where
  "emptyColumn = \<lparr>ctable = Table [] None False [], columnName = [], columnType = TYPE_INTEGER,
     calias = None\<rparr>"

lemma mkColumn_simps [simp]:
  "ctable (mkColumn t n ty a) = t" "columnName (mkColumn t n ty a) = n"
  "columnType (mkColumn t n ty a) = ty"
  by (simp_all add: mkColumn_def)

definition col_less :: "TableColumn \<Rightarrow> TableColumn \<Rightarrow> bool" where
  "col_less a b =
     (if tname (ctable a) \<noteq> tname (ctable b) then tname (ctable a) < tname (ctable b)
      else if columnName a \<noteq> columnName b then columnName a < columnName b
      else False)"

definition column_eq :: "TableColumn \<Rightarrow> TableColumn \<Rightarrow> bool" where
  "column_eq a b \<longleftrightarrow> table_eq (ctable a) (ctable b) \<and> columnName a = columnName b"

type_synonym colkey = "string \<times> string"

definition col_key :: "TableColumn \<Rightarrow> colkey" where
  "col_key c = (tname (ctable c), columnName c)"

text \<open>\<open>operator<\<close> on columns is the order of their keys: a strict weak order whose
  equivalence classes are the columns with one key.\<close>

lemma col_less_key: "col_less a b \<longleftrightarrow> col_key a < col_key b"
  by (auto simp: col_less_def col_key_def less_prod_def)

lemma col_equiv_key: "\<not> col_less a b \<and> \<not> col_less b a \<longleftrightarrow> col_key a = col_key b"
  by (auto simp: col_less_key)

lemma column_eq_key: "column_eq a b \<Longrightarrow> col_key a = col_key b"
  by (auto simp: column_eq_def table_eq_def col_key_def)

lemma column_eq_refl [simp]: "column_eq c c"
  by (simp add: column_eq_def)

text \<open>\<open>std::set<TableColumn>\<close>: distinct keys, iterated in key order.\<close>

type_synonym ColumnSet = "TableColumn list"

definition columns_insert :: "TableColumn list \<Rightarrow> ColumnSet \<Rightarrow> ColumnSet" where
  "columns_insert cs S = insert_all_by col_key cs S"

definition columns_contain :: "ColumnSet \<Rightarrow> TableColumn \<Rightarrow> bool" where
  "columns_contain S c \<longleftrightarrow> col_key c \<in> col_key ` set S"

definition column_set :: "TableColumn list \<Rightarrow> ColumnSet" where
  "column_set cs = columns_insert cs []"

lemma columns_insert_keys: "col_key ` set (columns_insert cs S) = col_key ` set cs \<union> col_key ` set S"
  by (simp add: columns_insert_def insert_all_by_keys)

lemma column_set_keys: "col_key ` set (column_set cs) = col_key ` set cs"
  by (simp add: column_set_def columns_insert_keys)

lemma column_set_subset: "set (column_set cs) \<subseteq> set cs"
  using insert_all_by_subset [of col_key cs "[]"] by (simp add: column_set_def columns_insert_def)

lemma column_set_ordered: "ordered_by col_key (column_set cs)"
  by (simp add: column_set_def columns_insert_def insert_all_by_ordered)

lemma columns_contain_insert:
  "columns_contain (columns_insert cs S) c \<longleftrightarrow>
   columns_contain S c \<or> col_key c \<in> col_key ` set cs"
  by (auto simp: columns_contain_def columns_insert_keys)

section \<open>Order descriptions\<close>

record OrderDescription =
  column :: TableColumn
  orderType :: bool
  nullordering :: bool

end
