(* ===== verification/Ir_Types.thy ===== *)
theory Ir_Types
  imports Base_Types
begin

text \<open>
  \<open>include/ir/ir_types.hpp\<close> and the \<open>IrData\<close> part of \<open>include/ir/plan_node.hpp\<close>: the parameters of
  each operator, the variant \<open>OpInfo\<close> over them, and the data a plan node carries for the
  optimizer (input columns, output columns, whether it outputs a position list or materialized
  values). \<open>ir_ok\<close> is the well-formedness every constructor of \<open>ir_views.hpp\<close> establishes.
\<close>

section \<open>Operator parameters\<close>

record GroupOp =
  sortOrders :: "bool list"
  hasAgg :: bool
  storeExtends :: bool

record FetchOp =
  wasTableBaseNode :: bool

record AggOp =
  aggFunc :: AggFunc

record JoinOp =
  joinType :: Join
  joinPredicate :: CompType
  joinOutputCol :: TableColumn

record SemiJoinOp =
  semiJoinType :: Join
  semiJoinPredicate :: CompType
  semiJoinOutputCol :: TableColumn

record FilterOp =
  filterType :: CompType
  filterArgs :: "Scalar list"

record SortOp =
  columnList :: "OrderDescription list"
  existingIdx :: "TableColumn option"

text \<open>\<open>std::variant<TableColumn, uint64_t, float, std::string>\<close>: the other side of a map.\<close>

datatype Partner = PartnerCol TableColumn | PartnerVal Scalar

record MapOp =
  operatorType :: ArithOp
  partnerVal :: Partner

record SetOp =
  operation :: RelOp

record SelectOp =
  resultIdx :: "TableColumn option"
  resultHeaders :: "string list"

datatype MatOp = MatOp

datatype OpInfo =
    NoOp
  | is_OpJoin: OpJoin JoinOp
  | is_OpSemiJoin: OpSemiJoin SemiJoinOp
  | is_OpGroup: OpGroup GroupOp
  | is_OpFetch: OpFetch FetchOp
  | is_OpAgg: OpAgg AggOp
  | is_OpFilter: OpFilter FilterOp
  | is_OpSort: OpSort SortOp
  | is_OpMap: OpMap MapOp
  | is_OpSet: OpSet SetOp
  | is_OpSelect: OpSelect SelectOp
  | is_OpMat: OpMat MatOp

section \<open>Node data\<close>

record IrData =
  inputColumns :: "TableColumn list"
  outputCols :: "TableColumn list"
  outputsPosList :: bool
  outputsMatVals :: bool
  opInfo :: OpInfo

text \<open>The data of a freshly made \<open>PlanNode\<close>: \<open>make_shared\<close> value-initialises the node, so both
  flags are false and the variant holds \<open>monostate\<close>.\<close>

definition emptyIr :: IrData where
  "emptyIr = \<lparr>inputColumns = [], outputCols = [], outputsPosList = False, outputsMatVals = False,
     opInfo = NoOp\<rparr>"

text \<open>\<open>IrData::is<T>()\<close> for each operator.\<close>

definition is_join :: "IrData \<Rightarrow> bool" where
  "is_join d \<longleftrightarrow> is_OpJoin (opInfo d)"

definition is_group :: "IrData \<Rightarrow> bool" where
  "is_group d \<longleftrightarrow> is_OpGroup (opInfo d)"

definition is_fetch :: "IrData \<Rightarrow> bool" where
  "is_fetch d \<longleftrightarrow> is_OpFetch (opInfo d)"

definition is_agg :: "IrData \<Rightarrow> bool" where
  "is_agg d \<longleftrightarrow> is_OpAgg (opInfo d)"

definition is_set :: "IrData \<Rightarrow> bool" where
  "is_set d \<longleftrightarrow> is_OpSet (opInfo d)"

definition is_select :: "IrData \<Rightarrow> bool" where
  "is_select d \<longleftrightarrow> is_OpSelect (opInfo d)"

definition is_mat :: "IrData \<Rightarrow> bool" where
  "is_mat d \<longleftrightarrow> is_OpMat (opInfo d)"

definition is_sort :: "IrData \<Rightarrow> bool" where
  "is_sort d \<longleftrightarrow> is_OpSort (opInfo d)"

lemmas is_op_defs = is_join_def is_group_def is_fetch_def is_agg_def is_set_def is_select_def
  is_mat_def is_sort_def

section \<open>Well-formedness\<close>

text \<open>
  The column lists each operator promises: how many inputs and outputs, and which of the two
  output forms. An operator-less node (a \<open>LIMIT\<close> that has no translation) has neither.
\<close>

fun op_ok :: "OpInfo \<Rightarrow> TableColumn list \<Rightarrow> TableColumn list \<Rightarrow> bool" where
  "op_ok NoOp ins outs \<longleftrightarrow> ins = [] \<and> outs = []"
| "op_ok (OpJoin _) ins outs \<longleftrightarrow> length ins = 2 \<and> length outs = 2"
| "op_ok (OpSemiJoin _) ins outs \<longleftrightarrow> length ins = 2 \<and> length outs = 2"
| "op_ok (OpGroup g) ins outs \<longleftrightarrow>
     (if hasAgg g then length ins = Suc (length (sortOrders g)) \<and> length outs = 4
      else length ins = length (sortOrders g) \<and> length outs = 3)"
| "op_ok (OpFetch _) ins outs \<longleftrightarrow> length ins = 1 \<and> outs = ins"
| "op_ok (OpAgg _) ins outs \<longleftrightarrow> length ins = 1 \<and> length outs = 1"
| "op_ok (OpFilter _) ins outs \<longleftrightarrow> (length ins = 1 \<or> length ins = 2) \<and> length outs = 1"
| "op_ok (OpSort s) ins outs \<longleftrightarrow>
     length ins = length (columnList s) + (case existingIdx s of None \<Rightarrow> 0 | Some _ \<Rightarrow> 1) \<and>
     length outs = 1"
| "op_ok (OpMap _) ins outs \<longleftrightarrow> (length ins = 1 \<or> length ins = 2) \<and> length outs = 1"
| "op_ok (OpSet _) ins outs \<longleftrightarrow> length ins = 2 \<and> length outs = 1"
| "op_ok (OpSelect _) ins outs \<longleftrightarrow> outs = ins"
| "op_ok (OpMat _) ins outs \<longleftrightarrow> length ins = 2 \<and> length outs = 1"

fun op_pos :: "OpInfo \<Rightarrow> bool" where
  "op_pos (OpJoin _) = True"
| "op_pos (OpSemiJoin _) = True"
| "op_pos (OpGroup _) = True"
| "op_pos (OpFilter _) = True"
| "op_pos (OpSort _) = True"
| "op_pos (OpSet _) = True"
| "op_pos _ = False"

fun op_vals :: "OpInfo \<Rightarrow> bool" where
  "op_vals (OpGroup _) = True"
| "op_vals (OpFetch _) = True"
| "op_vals (OpAgg _) = True"
| "op_vals (OpMap _) = True"
| "op_vals (OpSelect _) = True"
| "op_vals _ = False"

text \<open>A materialize node outputs one form or the other; every other operator has a fixed one.\<close>

definition ir_ok :: "IrData \<Rightarrow> bool" where
  "ir_ok d \<longleftrightarrow>
     op_ok (opInfo d) (inputColumns d) (outputCols d) \<and>
     (if is_mat d then outputsMatVals d = (\<not> outputsPosList d)
      else outputsPosList d = op_pos (opInfo d) \<and> outputsMatVals d = op_vals (opInfo d))"

lemma ir_ok_empty [simp]: "ir_ok emptyIr"
  by (simp add: ir_ok_def emptyIr_def is_mat_def)

text \<open>A node that outputs anything names at least one output column; a join names two.\<close>

lemma ir_ok_outputs:
  "ir_ok d \<Longrightarrow> outputsPosList d \<Longrightarrow> outputCols d \<noteq> []"
  by (cases "opInfo d") (auto simp: ir_ok_def is_mat_def split: if_splits)

lemma ir_ok_join_outputs: "ir_ok d \<Longrightarrow> is_join d \<Longrightarrow> length (outputCols d) = 2"
  by (cases "opInfo d") (auto simp: ir_ok_def is_join_def is_mat_def)

lemma ir_ok_fetch: "ir_ok d \<Longrightarrow> is_fetch d \<Longrightarrow> \<exists>c. inputColumns d = [c] \<and> outputCols d = [c]"
  by (cases "opInfo d") (auto simp: ir_ok_def is_fetch_def is_mat_def length_Suc_conv)

end
