(* ===== verification/Ir_Views.thy ===== *)
theory Ir_Views
  imports Ir_Types
begin

text \<open>
  \<open>include/ir/ir_views.hpp\<close>: for each operator, the factory that builds its \<open>IrData\<close> and the
  accessors that read it. A view's accessor returns a reference into the node's column vectors;
  in the model a read is a partial \<open>at\<close> and a write is a new record. The factories establish
  \<open>ir_ok\<close>; the aggregation slot of a group can be set and removed again.
\<close>

section \<open>Factories\<close>

definition join_create :: "TableColumn \<Rightarrow> TableColumn \<Rightarrow> TableColumn \<Rightarrow> Join \<Rightarrow> CompType \<Rightarrow> IrData" where
  "join_create inner outer out jt jp =
     \<lparr>inputColumns = [inner, outer], outputCols = [inner, outer], outputsPosList = True,
      outputsMatVals = False,
      opInfo = OpJoin \<lparr>joinType = jt, joinPredicate = jp, joinOutputCol = out\<rparr>\<rparr>"

definition semijoin_create :: "TableColumn \<Rightarrow> TableColumn \<Rightarrow> TableColumn \<Rightarrow> Join \<Rightarrow> CompType \<Rightarrow> IrData" where
  "semijoin_create inner outer out jt jp =
     \<lparr>inputColumns = [inner, outer], outputCols = [inner, outer], outputsPosList = True,
      outputsMatVals = False,
      opInfo = OpSemiJoin \<lparr>semiJoinType = jt, semiJoinPredicate = jp, semiJoinOutputCol = out\<rparr>\<rparr>"

text \<open>The second \<open>SemiJoinView::create\<close>, from the data of a join. \<open>std::get<JoinOp>\<close> throws
  \<open>bad_variant_access\<close> on any other operator; the only caller has tested for a join.\<close>

definition semijoin_of_join :: "IrData \<Rightarrow> IrData option" where
  "semijoin_of_join d = (case opInfo d of
       OpJoin j \<Rightarrow> Some \<lparr>inputColumns = inputColumns d, outputCols = outputCols d,
         outputsPosList = True, outputsMatVals = False,
         opInfo = OpSemiJoin \<lparr>semiJoinType = joinType j, semiJoinPredicate = joinPredicate j,
           semiJoinOutputCol = joinOutputCol j\<rparr>\<rparr>
     | _ \<Rightarrow> None)"

definition header_of :: "TableColumn \<Rightarrow> string" where
  "header_of c = (case calias c of Some a \<Rightarrow> a | None \<Rightarrow> columnName c)"

definition select_create :: "TableColumn list \<Rightarrow> TableColumn option \<Rightarrow> string list \<Rightarrow> IrData" where
  "select_create cols idx headers =
     \<lparr>inputColumns = cols, outputCols = cols, outputsPosList = False, outputsMatVals = True,
      opInfo = OpSelect \<lparr>resultIdx = idx,
        resultHeaders = (if headers = [] then map header_of cols else headers)\<rparr>\<rparr>"

definition agg_create :: "TableColumn \<Rightarrow> TableColumn \<Rightarrow> AggFunc \<Rightarrow> IrData" where
  "agg_create inC outC f =
     \<lparr>inputColumns = [inC], outputCols = [outC], outputsPosList = False, outputsMatVals = True,
      opInfo = OpAgg \<lparr>aggFunc = f\<rparr>\<rparr>"

definition fetch_create :: "TableColumn \<Rightarrow> bool \<Rightarrow> IrData" where
  "fetch_create inC base =
     \<lparr>inputColumns = [inC], outputCols = [inC], outputsPosList = False, outputsMatVals = True,
      opInfo = OpFetch \<lparr>wasTableBaseNode = base\<rparr>\<rparr>"

definition filter_create ::
    "TableColumn \<Rightarrow> CompType \<Rightarrow> TableColumn option \<Rightarrow> Scalar list \<Rightarrow> TableColumn \<Rightarrow> IrData" where
  "filter_create col1 ft col2 args outC =
     \<lparr>inputColumns = col1 # (case col2 of Some c \<Rightarrow> [c] | None \<Rightarrow> []), outputCols = [outC],
      outputsPosList = True, outputsMatVals = False,
      opInfo = OpFilter \<lparr>filterType = ft, filterArgs = args\<rparr>\<rparr>"

definition suffix_column :: "TableColumn \<Rightarrow> string \<Rightarrow> TableColumn" where
  "suffix_column c s = c\<lparr>columnName := columnName c @ s\<rparr>"

text \<open>\<open>GroupView::create\<close>, without and with an aggregation.\<close>

definition group_create :: "TableColumn list \<Rightarrow> TableColumn \<Rightarrow> IrData" where
  "group_create cols outC =
     \<lparr>inputColumns = cols,
      outputCols = [outC, suffix_column outC ''_srt'', suffix_column outC ''_clus''],
      outputsPosList = True, outputsMatVals = True,
      opInfo = OpGroup \<lparr>sortOrders = replicate (length cols) True, hasAgg = False,
        storeExtends = True\<rparr>\<rparr>"

definition group_create_agg ::
    "TableColumn list \<Rightarrow> TableColumn \<Rightarrow> TableColumn \<Rightarrow> TableColumn \<Rightarrow> IrData" where
  "group_create_agg cols outC aggC aggR =
     \<lparr>inputColumns = cols @ [aggC],
      outputCols = [outC, suffix_column outC ''_srt'', suffix_column outC ''_clus'', aggR],
      outputsPosList = True, outputsMatVals = True,
      opInfo = OpGroup \<lparr>sortOrders = replicate (length cols) True, hasAgg = True,
        storeExtends = True\<rparr>\<rparr>"

definition sort_create :: "OrderDescription list \<Rightarrow> TableColumn \<Rightarrow> TableColumn option \<Rightarrow> IrData" where
  "sort_create orders idx exist =
     \<lparr>inputColumns = map column orders @ (case exist of Some c \<Rightarrow> [c] | None \<Rightarrow> []),
      outputCols = [idx], outputsPosList = True, outputsMatVals = False,
      opInfo = OpSort \<lparr>columnList = orders, existingIdx = exist\<rparr>\<rparr>"

definition setop_create :: "TableColumn \<Rightarrow> TableColumn \<Rightarrow> TableColumn \<Rightarrow> RelOp \<Rightarrow> IrData" where
  "setop_create inner outer out op =
     \<lparr>inputColumns = [inner, outer], outputCols = [out], outputsPosList = True,
      outputsMatVals = False, opInfo = OpSet \<lparr>operation = op\<rparr>\<rparr>"

definition mat_create :: "TableColumn \<Rightarrow> TableColumn \<Rightarrow> TableColumn \<Rightarrow> bool \<Rightarrow> IrData" where
  "mat_create idx flt out pos =
     \<lparr>inputColumns = [idx, flt], outputCols = [out], outputsPosList = pos,
      outputsMatVals = (\<not> pos), opInfo = OpMat MatOp\<rparr>"

definition map_create :: "TableColumn \<Rightarrow> ArithOp \<Rightarrow> Partner \<Rightarrow> TableColumn \<Rightarrow> IrData" where
  "map_create c op partner out =
     \<lparr>inputColumns = c # (case partner of PartnerCol p \<Rightarrow> [p] | PartnerVal _ \<Rightarrow> []),
      outputCols = [out], outputsPosList = False, outputsMatVals = True,
      opInfo = OpMap \<lparr>operatorType = op, partnerVal = partner\<rparr>\<rparr>"

lemmas create_defs = join_create_def semijoin_create_def select_create_def agg_create_def
  fetch_create_def filter_create_def group_create_def group_create_agg_def sort_create_def
  setop_create_def mat_create_def map_create_def

section \<open>Accessors\<close>

text \<open>Inner and outer columns of a join, on the input and on the output side.\<close>

definition join_inner :: "IrData \<Rightarrow> TableColumn option" where
  "join_inner d = at (inputColumns d) 0"

definition join_outer :: "IrData \<Rightarrow> TableColumn option" where
  "join_outer d = at (inputColumns d) 1"

definition filter_col2 :: "IrData \<Rightarrow> TableColumn option" where
  "filter_col2 d = (if length (inputColumns d) > 1 then Some (inputColumns d ! 1) else None)"

text \<open>\<open>GroupView\<close>: the pointers \<open>aggCol()\<close> and \<open>aggResultCol()\<close>, null without an aggregation,
  and the two updates of the aggregation slot.\<close>

definition group_aggCol :: "IrData \<Rightarrow> TableColumn option" where
  "group_aggCol d = (case opInfo d of
       OpGroup g \<Rightarrow> if hasAgg g \<and> inputColumns d \<noteq> [] then Some (last (inputColumns d)) else None
     | _ \<Rightarrow> None)"

definition group_aggResultCol :: "IrData \<Rightarrow> TableColumn option" where
  "group_aggResultCol d = (case opInfo d of
       OpGroup g \<Rightarrow> if hasAgg g \<and> outputCols d \<noteq> [] then Some (last (outputCols d)) else None
     | _ \<Rightarrow> None)"

definition group_setAgg :: "TableColumn \<Rightarrow> TableColumn \<Rightarrow> IrData \<Rightarrow> IrData" where
  "group_setAgg aggC aggR d = (case opInfo d of
       OpGroup g \<Rightarrow>
         if hasAgg g then
           d\<lparr>inputColumns := butlast (inputColumns d) @ [aggC],
             outputCols := butlast (outputCols d) @ [aggR]\<rparr>
         else
           d\<lparr>inputColumns := inputColumns d @ [aggC], outputCols := outputCols d @ [aggR],
             opInfo := OpGroup (g\<lparr>hasAgg := True\<rparr>)\<rparr>
     | _ \<Rightarrow> d)"

definition group_removeAgg :: "IrData \<Rightarrow> IrData" where
  "group_removeAgg d = (case opInfo d of
       OpGroup g \<Rightarrow>
         if hasAgg g then
           d\<lparr>inputColumns := butlast (inputColumns d), outputCols := butlast (outputCols d),
             opInfo := OpGroup (g\<lparr>hasAgg := False\<rparr>)\<rparr>
         else d
     | _ \<Rightarrow> d)"

text \<open>The generated names: table initial (or \<open>?\<close>), dot, column name, joined by underscores.
  \<open>GroupView\<close> and \<open>SortOrderView\<close> have the same generator under different table names.\<close>

definition column_tag :: "TableColumn \<Rightarrow> string" where
  "column_tag c = (case tname (ctable c) of [] \<Rightarrow> CHR ''?'' | p # _ \<Rightarrow> p) # CHR ''.'' # columnName c"

fun generateOutColString :: "TableColumn list \<Rightarrow> string" where
  "generateOutColString [] = []"
| "generateOutColString [c] = column_tag c"
| "generateOutColString (c # cs) = column_tag c @ ''_'' @ generateOutColString cs"

definition group_generateOutCol :: "TableColumn list \<Rightarrow> TableColumn" where
  "group_generateOutCol cols =
     mkColumn (table_of ''GROUP'') (generateOutColString cols) TYPE_INTEGER None"

definition sort_generateOutCol :: "TableColumn list \<Rightarrow> TableColumn" where
  "sort_generateOutCol cols =
     mkColumn (table_of ''SORT'') (generateOutColString cols) TYPE_INTEGER None"

section \<open>Factories establish well-formedness\<close>

lemma create_ok [simp, arity_simps]:
  "ir_ok (join_create i u t jt jp)" "ir_ok (semijoin_create i u t jt jp)"
  "ir_ok (select_create cs x hs)" "ir_ok (agg_create a b f)" "ir_ok (fetch_create a b')"
  "ir_ok (filter_create c ft c2 args t)" "ir_ok (group_create cs t)"
  "ir_ok (group_create_agg cs t a b)" "ir_ok (sort_create ords t ex)"
  "ir_ok (setop_create i u t ro)" "ir_ok (mat_create i u t p)" "ir_ok (map_create c ao par t)"
  by (auto simp: ir_ok_def create_defs is_mat_def split: option.splits Partner.splits)

lemma semijoin_of_join_ok:
  "ir_ok d \<Longrightarrow> semijoin_of_join d = Some s \<Longrightarrow> ir_ok s \<and> inputColumns s = inputColumns d \<and> outputCols s = outputCols d"
  by (auto simp: semijoin_of_join_def ir_ok_def is_mat_def split: OpInfo.splits)

lemma create_projections [ir_simps]:
  "inputColumns (mat_create i f t p) = [i, f]" "outputCols (mat_create i f t p) = [t]"
  "outputsPosList (mat_create i f t p) = p" "outputsMatVals (mat_create i f t p) = (\<not> p)"
  "opInfo (mat_create i f t p) = OpMat MatOp"
  "inputColumns (fetch_create c b) = [c]" "outputCols (fetch_create c b) = [c]"
  "outputsPosList (fetch_create c b) = False" "outputsMatVals (fetch_create c b) = True"
  "opInfo (fetch_create c b) = OpFetch \<lparr>wasTableBaseNode = b\<rparr>"
  by (simp_all add: create_defs)

section \<open>The aggregation slot of a group\<close>

lemma group_setAgg_ok: "ir_ok d \<Longrightarrow> ir_ok (group_setAgg a r d)"
  by (auto simp: group_setAgg_def ir_ok_def is_mat_def length_butlast split: OpInfo.splits)

lemma group_setAgg_get:
  "is_group d \<Longrightarrow> group_aggCol (group_setAgg a r d) = Some a \<and> group_aggResultCol (group_setAgg a r d) = Some r"
  by (auto simp: group_setAgg_def group_aggCol_def group_aggResultCol_def is_group_def
      split: OpInfo.splits)

lemma group_setAgg_twice:
  "is_group d \<Longrightarrow> group_setAgg a r (group_setAgg a' r' d) = group_setAgg a r d"
  by (auto simp: group_setAgg_def is_group_def split: OpInfo.splits)

text \<open>Removing the aggregation of a grouping undoes setting it, on every well-formed grouping that
  had none: the column lists and the operator's parameters are the old ones.\<close>

lemma group_removeAgg_setAgg:
  "is_group d \<Longrightarrow> group_aggCol d = None \<Longrightarrow> ir_ok d \<Longrightarrow> group_removeAgg (group_setAgg a r d) = d"
  by (cases d) (auto simp: group_setAgg_def group_removeAgg_def group_aggCol_def is_group_def ir_ok_def
      is_mat_def split: OpInfo.splits if_splits)

lemma group_setAgg_frame [simp]:
  "outputsPosList (group_setAgg a r d) = outputsPosList d"
  "outputsMatVals (group_setAgg a r d) = outputsMatVals d"
  by (simp_all add: group_setAgg_def split: OpInfo.splits)

end
