(* ===== verification/Plan_Node.thy ===== *)
theory Plan_Node
  imports Ir_Views
begin

text \<open>
  The tree part of \<open>include/ir/plan_node.hpp\<close>: a plan node is its \<open>IrData\<close> and its children.
  Between the AST and the materialization pass every node has one owner, so the plan is a tree
  here; the passes that share nodes work on the heap of \<open>Plan_Heap\<close>.
\<close>

datatype plan = Plan (irData: IrData) (children: "plan list")

definition plan_size :: "plan \<Rightarrow> nat" where
  "plan_size p = size p"

text \<open>All node data in pre-order, the invariant that every node is well formed, and the arity of
  each node's child list.\<close>

fun nodes :: "plan \<Rightarrow> IrData list" where
  "nodes (Plan d cs) = d # concat (map nodes cs)"

definition plan_ok :: "plan \<Rightarrow> bool" where
  "plan_ok p \<longleftrightarrow> (\<forall>d \<in> set (nodes p). ir_ok d)"

lemma plan_ok_node [simp]: "plan_ok (Plan d cs) \<longleftrightarrow> ir_ok d \<and> (\<forall>c \<in> set cs. plan_ok c)"
  by (auto simp: plan_ok_def)

lemma plan_induct [case_names Plan]:
  assumes "\<And>d cs. (\<And>c. c \<in> set cs \<Longrightarrow> P c) \<Longrightarrow> P (Plan d cs)"
  shows "P p"
  by (rule plan.induct) (use assms in blast)

text \<open>The base tables below a node: the tables of its fetch nodes over whole tables.\<close>

definition base_fetch :: "IrData \<Rightarrow> bool" where
  "base_fetch d \<longleftrightarrow> (case opInfo d of OpFetch f \<Rightarrow> wasTableBaseNode f | _ \<Rightarrow> False)"

definition fetched_tables :: "plan \<Rightarrow> string list" where
  "fetched_tables p = concat (map (\<lambda>d. if base_fetch d then map (tname \<circ> ctable) (inputColumns d) else []) (nodes p))"

lemma fetched_tables_node [simp]:
  "fetched_tables (Plan d cs) =
     (if base_fetch d then map (tname \<circ> ctable) (inputColumns d) else []) @ concat (map fetched_tables cs)"
  by (induction cs) (auto simp: fetched_tables_def)

end
