(* ===== verification/Catalog.thy ===== *)
theory Catalog
  imports Base_Types
begin

text \<open>
  \<open>src/util/catalog.cpp\<close>: the fixed catalog of the Star Schema Benchmark. Three pure lookups:
  the type of a column, the table a column belongs to, and whether a column is a key. All names
  are compared in lower case except in \<open>getTableName\<close>, which takes them as they are.
\<close>

definition lineorder_columns :: "string list" where
  "lineorder_columns =
     [''lo_orderkey'', ''lo_linenumber'', ''lo_custkey'', ''lo_partkey'', ''lo_suppkey'',
      ''lo_orderdate'', ''lo_orderpriority'', ''lo_shippriority'', ''lo_quantity'',
      ''lo_extendedprice'', ''lo_ordtotalprice'', ''lo_discount'', ''lo_revenue'',
      ''lo_supplycost'', ''lo_tax'', ''lo_commitdate'', ''lo_shipmode'']"

definition dates_columns :: "string list" where
  "dates_columns =
     [''d_datekey'', ''d_date'', ''d_dayofweek'', ''d_month'', ''d_year'', ''d_yearmonthnum'',
      ''d_yearmonth'', ''d_daynuminweek'', ''d_daynuminmonth'', ''d_daynuminyear'',
      ''d_monthnuminyear'', ''d_weeknuminyear'', ''d_sellingseason'', ''d_lastdayinweekfl'',
      ''d_lastdayinmonthfl'', ''d_holidayfl'', ''d_weekdayfl'']"

definition part_columns :: "string list" where
  "part_columns =
     [''p_partkey'', ''p_name'', ''p_mfgr'', ''p_category'', ''p_brand'', ''p_color'', ''p_type'',
      ''p_size'', ''p_container'']"

definition supplier_columns :: "string list" where
  "supplier_columns =
     [''s_suppkey'', ''s_name'', ''s_address'', ''s_city'', ''s_nation'', ''s_region'', ''s_phone'']"

definition customer_columns :: "string list" where
  "customer_columns =
     [''c_custkey'', ''c_name'', ''c_address'', ''c_city'', ''c_nation'', ''c_region'',
      ''c_phone'', ''c_mktsegment'']"

definition getTableName :: "string \<Rightarrow> string" where
  "getTableName colName =
     (if colName \<in> set lineorder_columns then ''lineorder''
      else if colName \<in> set dates_columns then ''dates''
      else if colName \<in> set part_columns then ''part''
      else if colName \<in> set supplier_columns then ''supplier''
      else if colName \<in> set customer_columns then ''customer''
      else ''Default'')"

text \<open>The first lines of both lookups: lower case, a missing table taken from the column, and
  \<open>dates\<close> renamed to \<open>date\<close>.\<close>

definition catalog_table :: "string \<Rightarrow> string \<Rightarrow> string" where
  "catalog_table tableName colName =
     (let t = to_lower tableName;
          t = (if t = [] then getTableName (to_lower colName) else t)
      in if t = ''dates'' then ''date'' else t)"

definition lineorder_type :: "string \<Rightarrow> ColumnType option" where
  "lineorder_type c =
     (if contains_sub ''key'' c then Some TYPE_INTEGER
      else if c = ''lo_linenumber'' then Some TYPE_INTEGER
      else if c = ''lo_quantity'' then Some TYPE_INTEGER
      else if c = ''lo_extendedprice'' then Some TYPE_INTEGER
      else if c = ''lo_ordtotalprice'' then Some TYPE_INTEGER
      else if c = ''lo_discount'' then Some TYPE_INTEGER
      else if c = ''lo_revenue'' then Some TYPE_INTEGER
      else if c = ''lo_supplycost'' then Some TYPE_INTEGER
      else if c = ''lo_tax'' then Some TYPE_INTEGER
      else if c = ''lo_orderdate'' then Some TYPE_INTEGER
      else if c = ''lo_commitdate'' then Some TYPE_INTEGER
      else if c = ''lo_orderpriority'' then Some TYPE_STRING
      else if c = ''lo_shippriority'' then Some TYPE_STRING
      else if c = ''lo_shipmode'' then Some TYPE_STRING
      else None)"

definition getSSBColumnType :: "string \<Rightarrow> string \<Rightarrow> ColumnType" where
  "getSSBColumnType tableName colName =
     (let c = to_lower colName; t = catalog_table tableName colName in
      if (t = ''lineorder'' \<or> t = ''lo'') \<and> lineorder_type c \<noteq> None then the (lineorder_type c)
      else if t = ''part'' \<or> t = ''p'' then
        (if contains_sub ''key'' c then TYPE_INTEGER
         else if c = ''p_size'' then TYPE_INTEGER
         else TYPE_STRING)
      else if t = ''supplier'' \<or> t = ''s'' then
        (if contains_sub ''key'' c then TYPE_INTEGER else TYPE_STRING)
      else if t = ''customer'' \<or> t = ''c'' then
        (if contains_sub ''key'' c then TYPE_INTEGER else TYPE_STRING)
      else if t = ''date'' \<or> t = ''ddate'' \<or> t = ''d'' then
        (if contains_sub ''key'' c then TYPE_INTEGER
         else if c = ''d_year'' then TYPE_INTEGER
         else if c = ''d_yearmonthnum'' then TYPE_INTEGER
         else if contains_sub ''daynum'' c then TYPE_INTEGER
         else if contains_sub ''monthnum'' c then TYPE_INTEGER
         else if contains_sub ''weeknum'' c then TYPE_INTEGER
         else if contains_sub ''fl'' c then TYPE_INTEGER
         else TYPE_STRING)
      else TYPE_INTEGER)"

definition isUnique :: "string \<Rightarrow> string \<Rightarrow> bool" where
  "isUnique tableName colName =
     (let c = to_lower colName; t = catalog_table tableName colName in
      if t = ''customer'' \<or> t = ''c'' then c = ''c_custkey''
      else if t = ''part'' \<or> t = ''p'' then c = ''p_partkey''
      else if t = ''supplier'' \<or> t = ''s'' then c = ''s_suppkey''
      else if t = ''date'' \<or> t = ''d'' then c = ''d_datekey''
      else False)"

section \<open>What the catalog promises\<close>

text \<open>The catalog only ever answers integer or string.\<close>

lemma if_in: "(b \<Longrightarrow> x \<in> S) \<Longrightarrow> (\<not> b \<Longrightarrow> y \<in> S) \<Longrightarrow> (if b then x else y) \<in> S"
  by simp

lemma lineorder_type_in: "lineorder_type c \<in> {Some TYPE_INTEGER, Some TYPE_STRING, None}"
  unfolding lineorder_type_def by (intro if_in) simp_all

lemma column_type_cases:
  "getSSBColumnType t c = TYPE_INTEGER \<or> getSSBColumnType t c = TYPE_STRING"
proof -
  have "getSSBColumnType t c \<in> {TYPE_INTEGER, TYPE_STRING}"
    unfolding getSSBColumnType_def Let_def
    using lineorder_type_in [of "to_lower c"] by (intro if_in) auto
  then show ?thesis by simp
qed

lemma column_type_not_float [simp]: "getSSBColumnType t c \<noteq> TYPE_FLOAT"
  using column_type_cases [of t c] by auto

text \<open>Upper or lower case makes no difference to the type or to uniqueness.\<close>

lemma catalog_table_case:
  "catalog_table (to_upper t) (to_upper c) = catalog_table t c"
  by (simp add: catalog_table_def)

lemma column_type_case: "getSSBColumnType (to_upper t) (to_upper c) = getSSBColumnType t c"
  by (simp only: getSSBColumnType_def catalog_table_case to_lower_to_upper)

lemma unique_case: "isUnique (to_upper t) (to_upper c) = isUnique t c"
  by (simp only: isUnique_def catalog_table_case to_lower_to_upper)

text \<open>A table has at most one unique column, and it is a key column of the four dimension
  tables, typed as an integer.\<close>

lemma unique_columns:
  "isUnique t c \<Longrightarrow> to_lower c \<in> {''c_custkey'', ''p_partkey'', ''s_suppkey'', ''d_datekey''}"
  by (auto simp: isUnique_def Let_def split: if_splits)

lemma unique_integer: "isUnique t c \<Longrightarrow> getSSBColumnType t c = TYPE_INTEGER"
proof -
  assume u: "isUnique t c"
  then have "contains_sub ''key'' (to_lower c)"
    using unique_columns [of t c] by (auto simp: contains_sub_def)
  moreover from u have "catalog_table t c \<in>
      {''customer'', ''c'', ''part'', ''p'', ''supplier'', ''s'', ''date'', ''d''}"
    unfolding isUnique_def Let_def by (simp only: insert_iff empty_iff split: if_splits) blast+
  ultimately show ?thesis
    by (elim insertE emptyE) (simp_all add: getSSBColumnType_def Let_def)
qed

lemma unique_one_column:
  "t \<noteq> [] \<Longrightarrow> isUnique t c \<Longrightarrow> isUnique t c' \<Longrightarrow> to_lower c = to_lower c'"
  by (auto simp: isUnique_def Let_def catalog_table_def split: if_splits)

text \<open>The fact table has no unique column: a join never treats one of its columns as a key.\<close>

lemma lineorder_not_unique: "to_lower t = ''lineorder'' \<Longrightarrow> \<not> isUnique t c"
  by (simp add: isUnique_def catalog_table_def)

text \<open>Column names belong to one table only.\<close>

lemma table_columns_disjoint:
  "distinct (lineorder_columns @ dates_columns @ part_columns @ supplier_columns @ customer_columns)"
  by code_simp

lemma table_name_known:
  "getTableName c \<noteq> ''Default'' \<longleftrightarrow>
   c \<in> set (lineorder_columns @ dates_columns @ part_columns @ supplier_columns @ customer_columns)"
  by (auto simp: getTableName_def)

end
