(* ===== verification/Transform_Helpers.thy ===== *)
theory Transform_Helpers
  imports Catalog
begin

text \<open>
  \<open>src/ir/transform_helpers.cpp\<close>: the string helpers of both plan front ends. Keyword tables
  (comparison, join, set, aggregate and arithmetic operators), literals by column type,
  whitespace trimming, and the two small expression parsers for join conditions and arithmetic
  mappings, whose exceptions are values of \<open>res\<close>. The conversion \<open>std::stof\<close> is an argument
  \<open>stof\<close> of the definitions that use it; the catalog never types a column as a float, so no
  result depends on it (\<open>parseValue_catalog\<close>).
\<close>

section \<open>Keyword tables\<close>

definition mapStringToCompType :: "string \<Rightarrow> CompType" where
  "mapStringToCompType op =
     (if op = ''EQUAL'' \<or> op = ''='' then COMP_EQ
      else if op = ''LESSTHEN'' \<or> op = ''<'' then COMP_LT
      else if op = ''LESSTHENEQ'' \<or> op = ''<='' then COMP_LE
      else if op = ''GREATERTHEN'' \<or> op = ''>'' then COMP_GT
      else if op = ''GREATERTHENEQ'' \<or> op = ''>='' then COMP_GE
      else if op = ''NOTEQUAL'' \<or> op = ''!='' \<or> op = ''<>'' then COMP_NE
      else if op = ''BETWEEN'' then COMP_BETWEEN
      else if op = ''IN'' then COMP_IN
      else COMP_EQ)"

definition mapStringToJoinType :: "string \<Rightarrow> Join" where
  "mapStringToJoinType type =
     (let t = to_upper type in
      if contains_sub ''LEFT'' t then LEFT_OUTER_JOIN
      else if contains_sub ''RIGHT'' t then RIGHT_OUTER_JOIN
      else if contains_sub ''FULL'' t then FULL_OUTER_JOIN
      else if contains_sub ''INNER'' t then INNER_JOIN
      else INNER_JOIN)"

definition mapStringToRelOp :: "string \<Rightarrow> RelOp" where
  "mapStringToRelOp op =
     (let t = to_upper op in
      if t = ''INTERSECT'' then REL_INTERSECTION
      else if t = ''EXCEPT'' then REL_NEGATION
      else REL_UNION)"

definition mapStringToAggFunc :: "string \<Rightarrow> AggFunc option" where
  "mapStringToAggFunc func =
     (if func = [] then None
      else let t = to_upper func in
        if t = ''SUM'' then Some AGG_SUM
        else if t = ''COUNT'' then Some AGG_COUNT
        else if t = ''MIN'' then Some AGG_MIN
        else if t = ''MAX'' then Some AGG_MAX
        else if t = ''AVG'' then Some AGG_AVG
        else None)"

definition mapStringToArithOp :: "string \<Rightarrow> ArithOp" where
  "mapStringToArithOp op =
     (if op = ''+'' then ARITH_ADD
      else if op = ''-'' then ARITH_SUB
      else if op = ''*'' then ARITH_MUL
      else if op = ''/'' then ARITH_DIV
      else if op = ''%'' then ARITH_MOD
      else ARITH_ADD)"

section \<open>Literals\<close>

text \<open>\<open>std::stoull\<close>: leading whitespace, an optional sign (a minus sign negates modulo
  \<open>2 ^ 64\<close>), then the longest run of digits; \<open>None\<close> where it throws, because there is no digit
  or the digits do not fit 64 bits.\<close>

definition split_sign :: "string \<Rightarrow> bool \<times> string" where
  "split_sign s = (case s of
       [] \<Rightarrow> (False, [])
     | c # r \<Rightarrow> if c = CHR ''-'' then (True, r) else if c = CHR ''+'' then (False, r) else (False, c # r))"

definition stoull :: "string \<Rightarrow> 64 word option" where
  "stoull s =
     (let (neg, r) = split_sign (dropWhile is_space s);
          ds = takeWhile is_digit r;
          n = digits_val 0 ds
      in if ds = [] \<or> n \<ge> 2 ^ 64 then None
         else Some (if neg then - of_nat n else of_nat n))"

definition parseValueByType :: "(string \<Rightarrow> 32 word option) \<Rightarrow> string \<Rightarrow> ColumnType \<Rightarrow> Scalar" where
  "parseValueByType stof val type =
     (if type = TYPE_INTEGER then
        ScalarInt (case stoull val of Some n \<Rightarrow> n | None \<Rightarrow> 0)
      else if type = TYPE_FLOAT then
        ScalarFloat (case stof val of Some f \<Rightarrow> f | None \<Rightarrow> 0)
      else ScalarString val)"

section \<open>Whitespace\<close>

definition rtrim :: "string \<Rightarrow> string" where
  "rtrim s = rev (dropWhile is_space (rev s))"

definition trim :: "string \<Rightarrow> string" where
  "trim s = rtrim (dropWhile is_space s)"

definition toUpper :: "string \<Rightarrow> string" where
  "toUpper s = to_upper s"

definition removeAllWhitespace :: "string \<Rightarrow> string" where
  "removeAllWhitespace s = filter (\<lambda>c. \<not> is_space c) s"

section \<open>Expressions\<close>

text \<open>A join condition is cut at \<open>BETWEEN\<close>, at \<open>IN\<close>, or at the first symbol of the operator
  list that occurs in it; the result is left operand, right operand, operator.\<close>

definition condition_ops :: "string list" where
  "condition_ops = [''<='', ''>='', ''!='', ''='', ''<'', ''>'']"

fun cut_at_op :: "string list \<Rightarrow> string \<Rightarrow> (string \<times> string \<times> string) res" where
  "cut_at_op [] expr = Inl (InvalidArgument ''Unsupported condition'')"
| "cut_at_op (op # ops) expr = (case find_sub op expr of
       Some pos \<Rightarrow> Inr (trim (take pos expr), trim (drop (pos + length op) expr), op)
     | None \<Rightarrow> cut_at_op ops expr)"

definition parseJoinCondition :: "string \<Rightarrow> (string \<times> string \<times> string) res" where
  "parseJoinCondition input =
     (let expr = trim input; upper = toUpper expr in
      case find_sub '' BETWEEN '' upper of
        Some pos \<Rightarrow> Inr (trim (take pos expr), trim (drop (pos + 9) expr), ''BETWEEN'')
      | None \<Rightarrow> (case find_sub '' IN '' upper of
          Some pos \<Rightarrow> Inr (trim (take pos expr), trim (drop (pos + 4) expr), ''IN'')
        | None \<Rightarrow> cut_at_op condition_ops expr))"

definition arith_chars :: string where
  "arith_chars = ''+-*/%''"

definition containsArithMapOp :: "string \<Rightarrow> bool" where
  "containsArithMapOp str = contains_any arith_chars str"

definition parseMapping :: "string \<Rightarrow> (string \<times> char \<times> string) res" where
  "parseMapping input =
     (let s = dropWhile is_space input;
          lhs = takeWhile (\<lambda>c. c \<notin> set arith_chars) s
      in case dropWhile (\<lambda>c. c \<notin> set arith_chars) s of
           [] \<Rightarrow> Inl (InvalidArgument ''No operator found'')
         | op # rest \<Rightarrow>
             (let lhs = rtrim lhs; rhs = rtrim (dropWhile is_space rest) in
              if lhs = [] \<or> rhs = [] then Inl (InvalidArgument ''Invalid expression format'')
              else Inr (lhs, op, rhs)))"

definition isAggColumn :: "string \<Rightarrow> bool" where
  "isAggColumn name \<longleftrightarrow>
     take 5 name = ''COUNT'' \<or>
     take 3 name \<in> {''SUM'', ''MIN'', ''MAX'', ''AVG''}"

text \<open>The helpers of namespace \<open>ConditionParser\<close>. Its own \<open>_trim\<close> strips four characters.\<close>

definition blank_chars :: string where
  "blank_chars = [CHR '' '', CHR 0x09, CHR 0x0A, CHR 0x0D]"

definition cond_trim :: "string \<Rightarrow> string" where
  "cond_trim s = rev (dropWhile (\<lambda>c. c \<in> set blank_chars)
                   (rev (dropWhile (\<lambda>c. c \<in> set blank_chars) s)))"

definition getFirstTokenString :: "string \<Rightarrow> string" where
  "getFirstTokenString input = takeWhile (\<lambda>c. \<not> is_space c) (dropWhile is_space input)"

record ColWithAlias =
  cwaName :: string
  cwaAlias :: "string option"

definition extractAlias :: "string \<Rightarrow> ColWithAlias" where
  "extractAlias input =
     (let s = cond_trim input in
      case find_sub '' AS '' (to_upper s) of
        None \<Rightarrow> \<lparr>cwaName = input, cwaAlias = None\<rparr>
      | Some pos \<Rightarrow> \<lparr>cwaName = take pos s, cwaAlias = Some (drop (pos + 4) s)\<rparr>)"

section \<open>Properties of the helpers\<close>

subsection \<open>Trimming\<close>

text \<open>A trimmed string neither starts nor ends with whitespace.\<close>

definition trimmed :: "string \<Rightarrow> bool" where
  "trimmed s \<longleftrightarrow> s = [] \<or> (\<not> is_space (hd s) \<and> \<not> is_space (last s))"

lemma dropWhile_hd: "dropWhile P s \<noteq> [] \<Longrightarrow> \<not> P (hd (dropWhile P s))"
  by (induction s) auto

lemma rtrim_last: "rtrim s \<noteq> [] \<Longrightarrow> \<not> is_space (last (rtrim s))"
  using dropWhile_hd [of is_space "rev s"] by (simp add: rtrim_def last_rev)

lemma rtrim_hd: "rtrim s \<noteq> [] \<Longrightarrow> hd (rtrim s) = hd s"
proof -
  assume ne: "rtrim s \<noteq> []"
  have "rev s = takeWhile is_space (rev s) @ rev (rtrim s)"
    by (simp add: rtrim_def)
  then have "s = rtrim s @ rev (takeWhile is_space (rev s))"
    by (metis rev_append rev_rev_ident)
  with ne show ?thesis by (metis hd_append2)
qed

lemma rtrim_Nil_if: "rtrim [] = []"
  by (simp add: rtrim_def)

lemma trim_trimmed: "trimmed (trim s)"
proof (cases "trim s = []")
  case False
  then have "dropWhile is_space s \<noteq> []"
    by (metis rtrim_Nil_if trim_def)
  moreover have "hd (trim s) = hd (dropWhile is_space s)"
    using rtrim_hd [of "dropWhile is_space s"] False by (simp add: trim_def)
  moreover have "\<not> is_space (last (trim s))"
    using rtrim_last [of "dropWhile is_space s"] False by (simp add: trim_def)
  ultimately show ?thesis
    using dropWhile_hd [of is_space s] by (simp add: trimmed_def)
qed (simp add: trimmed_def)

lemma dropWhile_trimmed: "trimmed s \<Longrightarrow> dropWhile is_space s = s"
  by (cases s) (auto simp: trimmed_def)

lemma rtrim_trimmed: "trimmed s \<Longrightarrow> rtrim s = s"
proof (cases s rule: rev_cases)
  case (snoc xs x)
  assume "trimmed s"
  with snoc show ?thesis by (simp add: trimmed_def rtrim_def)
qed (simp add: rtrim_def)

lemma trim_of_trimmed: "trimmed s \<Longrightarrow> trim s = s"
  by (simp add: trim_def dropWhile_trimmed rtrim_trimmed)

text \<open>Whitespace around a string does not change what trimming gives.\<close>

lemma rtrim_append_space: "list_all is_space w \<Longrightarrow> rtrim (s @ w) = rtrim s"
  unfolding rtrim_def rev_append by (subst dropWhile_append2) (auto simp: list_all_iff)

lemma dropWhile_space_append: "list_all is_space w \<Longrightarrow> dropWhile is_space (w @ s) = dropWhile is_space s"
  by (simp add: dropWhile_append2 list_all_iff)

subsection \<open>Substring search\<close>

lemma find_sub_absent: "c \<in> set p \<Longrightarrow> c \<notin> set s \<Longrightarrow> find_sub p s = None"
proof (induction p s rule: find_sub.induct)
  case (2 p d s)
  have "take (length p) (d # s) \<noteq> p"
    using 2 by (metis in_set_takeD)
  with 2 show ?case by simp
qed auto

lemma find_sub_skip:
  "c \<notin> set l \<Longrightarrow> find_sub (c # p) (l @ s) = map_option (\<lambda>n. length l + n) (find_sub (c # p) s)"
proof (induction l)
  case Nil
  then show ?case by (cases "find_sub (c # p) s") simp_all
next
  case (Cons a l)
  then show ?case by (cases "find_sub (c # p) s") auto
qed

lemma find_sub_here: "find_sub (c # p) (c # p @ s) = Some 0"
  by simp

subsection \<open>Join conditions\<close>

text \<open>An operand: free of the symbols the operators are made of, and of the two keywords.\<close>

definition op_chars :: string where
  "op_chars = ''<>=!''"

definition operand :: "string \<Rightarrow> bool" where
  "operand s \<longleftrightarrow> trimmed s \<and> s \<noteq> [] \<and> (\<forall>c \<in> set s. c \<notin> set op_chars)"

lemma cut_at_op_finds:
  assumes "\<forall>c \<in> set l \<union> set r. c \<notin> set op_chars" and "op \<in> set condition_ops"
  shows "cut_at_op condition_ops (l @ op @ r) = Inr (trim l, trim r, op)"
proof -
  have absent: "CHR ''<'' \<notin> set l" "CHR ''>'' \<notin> set l" "CHR ''='' \<notin> set l" "CHR ''!'' \<notin> set l"
    "CHR ''<'' \<notin> set r" "CHR ''>'' \<notin> set r" "CHR ''='' \<notin> set r" "CHR ''!'' \<notin> set r"
    using assms(1) by (auto simp: op_chars_def)
  have none: "find_sub ''<='' r = None" "find_sub ''>='' r = None" "find_sub ''!='' r = None"
    "find_sub ''='' r = None" "find_sub ''<'' r = None" "find_sub ''>'' r = None"
    using absent by (auto intro: find_sub_absent)
  have no_eq: "take (Suc 0) r \<noteq> ''=''"
    using absent by (cases r) auto
  consider "op = ''<=''" | "op = ''>=''" | "op = ''!=''" | "op = ''=''" | "op = ''<''" | "op = ''>''"
    using assms(2) by (auto simp: condition_ops_def)
  then show ?thesis
    by cases (simp_all add: condition_ops_def find_sub_skip absent none no_eq)
qed

lemma trimmed_join:
  assumes "trimmed l" "l \<noteq> []" "trimmed r" "r \<noteq> []"
  shows "trimmed (l @ m @ r)"
  using assms by (auto simp: trimmed_def)

text \<open>Round trip of a join condition: two operands written around one of the six comparison symbols,
  with any white space between them, are read back with their symbol, unless one of the keywords
  occurs in the text.\<close>

lemma parseJoinCondition_roundtrip:
  assumes "operand l" and "operand r" and "op \<in> set condition_ops"
    and "list_all is_space w1" and "list_all is_space w2"
    and "\<not> contains_sub '' BETWEEN '' (to_upper (l @ w1 @ op @ w2 @ r))"
    and "\<not> contains_sub '' IN '' (to_upper (l @ w1 @ op @ w2 @ r))"
  shows "parseJoinCondition (l @ w1 @ op @ w2 @ r) = Inr (l, r, op)"
proof -
  have ops: "c \<notin> set op_chars" if "is_space c" for c
    using that by (auto simp: op_chars_def is_space_def Let_def)
  have "trimmed (l @ (w1 @ op @ w2) @ r)"
    using assms(1,2) by (intro trimmed_join) (auto simp: operand_def)
  then have e: "trim (l @ w1 @ op @ w2 @ r) = l @ w1 @ op @ w2 @ r"
    by (intro trim_of_trimmed) simp
  have "cut_at_op condition_ops ((l @ w1) @ op @ (w2 @ r)) = Inr (trim (l @ w1), trim (w2 @ r), op)"
    using assms(1-5) ops by (intro cut_at_op_finds) (auto simp: operand_def list_all_iff)
  moreover have "trim (w2 @ r) = r" and "trim (l @ w1) = l"
  proof -
    show "trim (w2 @ r) = r"
      using assms(2,5) by (simp add: trim_def dropWhile_space_append operand_def
          dropWhile_trimmed rtrim_trimmed)
    have "dropWhile is_space (l @ w1) = l @ w1"
      using assms(1) by (cases l) (auto simp: operand_def trimmed_def)
    then show "trim (l @ w1) = l"
      using assms(1,4) by (simp add: trim_def rtrim_append_space operand_def rtrim_trimmed)
  qed
  ultimately show ?thesis
    using assms(6,7) e by (simp add: parseJoinCondition_def contains_sub_def toUpper_def Let_def)
qed

subsection \<open>Arithmetic mappings\<close>

text \<open>An operand of a mapping: trimmed, not empty, and, on the left, free of operators.\<close>

lemma takeWhile_none: "(\<forall>c \<in> set xs. P c) \<Longrightarrow> \<not> P y \<Longrightarrow> takeWhile P (xs @ y # ys) = xs"
  by (induction xs) auto

lemma dropWhile_none: "(\<forall>c \<in> set xs. P c) \<Longrightarrow> \<not> P y \<Longrightarrow> dropWhile P (xs @ y # ys) = y # ys"
  by (induction xs) auto

text \<open>Round trip of an arithmetic mapping: two operands written around an operator, with any white
  space around all of them, are read back with the operator.\<close>

lemma parseMapping_roundtrip:
  assumes l: "trimmed l" "l \<noteq> []" "\<not> containsArithMapOp l"
    and r: "trimmed r" "r \<noteq> []" and op: "op \<in> set arith_chars"
    and ws: "list_all is_space (w0 @ w1 @ w2 @ w3)"
  shows "parseMapping (w0 @ l @ w1 @ [op] @ w2 @ r @ w3) = Inr (l, op, r)"
proof -
  let ?rest = "op # w2 @ r @ w3"
  have sp: "list_all is_space w0" "list_all is_space w1" "list_all is_space w2" "list_all is_space w3"
    using ws by auto
  have nop: "c \<notin> set arith_chars" if "is_space c" for c
    using that by (auto simp: arith_chars_def is_space_def Let_def)
  have "dropWhile is_space (w0 @ l @ w1 @ ?rest) = l @ w1 @ ?rest"
    using l sp(1) by (cases l) (auto simp: dropWhile_space_append trimmed_def)
  moreover have pre: "\<forall>c \<in> set (l @ w1). c \<notin> set arith_chars"
    using l(3) sp(2) nop by (auto simp: containsArithMapOp_def contains_any_def list_all_iff)
  then have "takeWhile (\<lambda>c. c \<notin> set arith_chars) (l @ w1 @ ?rest) = l @ w1"
    and "dropWhile (\<lambda>c. c \<notin> set arith_chars) (l @ w1 @ ?rest) = ?rest"
    using op takeWhile_none [of "l @ w1" "\<lambda>c. c \<notin> set arith_chars" op]
      dropWhile_none [of "l @ w1" "\<lambda>c. c \<notin> set arith_chars" op] by simp_all
  moreover have "rtrim (l @ w1) = l"
    using l sp(2) by (simp add: rtrim_append_space rtrim_trimmed)
  moreover have "dropWhile is_space (w2 @ r @ w3) = r @ w3"
    using r sp(3) by (cases r) (auto simp: dropWhile_space_append trimmed_def)
  moreover have "rtrim (r @ w3) = r"
    using r sp(4) by (simp add: rtrim_append_space rtrim_trimmed)
  ultimately show ?thesis
    using l(2) r(2) by (simp add: parseMapping_def Let_def)
qed

text \<open>The parser fails exactly on text without an operator or with an empty side; a mapping it
  accepts contains an arithmetic operator.\<close>

lemma parseMapping_operator:
  "parseMapping s = Inr (l, op, r) \<Longrightarrow> containsArithMapOp s \<and> op \<in> set arith_chars \<and> l \<noteq> [] \<and> r \<noteq> []"
proof -
  let ?t = "dropWhile is_space s" and ?P = "\<lambda>c. c \<notin> set arith_chars"
  assume p: "parseMapping s = Inr (l, op, r)"
  then obtain rest where rest: "dropWhile ?P ?t = op # rest" and ne: "l \<noteq> []" "r \<noteq> []"
    by (auto simp: parseMapping_def Let_def split: list.splits if_splits)
  then have "op \<in> set arith_chars"
    using dropWhile_hd [of ?P ?t] by simp
  moreover have "op \<in> set s"
    using rest by (metis list.set_intros(1) set_dropWhileD)
  ultimately show ?thesis
    using ne by (auto simp: containsArithMapOp_def contains_any_def)
qed

subsection \<open>Literals\<close>

lemma takeWhile_digits: "list_all is_digit s \<Longrightarrow> takeWhile is_digit s = s"
  by (simp add: list_all_iff takeWhile_eq_all_conv)

lemma digit_not_space: "is_digit c \<Longrightarrow> \<not> is_space c"
  by (auto simp: is_digit_def is_space_def Let_def)

lemma digit_not_sign: "is_digit c \<Longrightarrow> c \<noteq> CHR ''-'' \<and> c \<noteq> CHR ''+''"
  by (auto simp: is_digit_def Let_def)

lemma to_string_nonempty [simp]: "to_string n \<noteq> []"
  by (subst to_string.simps) simp

lemma stoull_to_string: "stoull (to_string n) = (if n < 2 ^ 64 then Some (of_nat n) else None)"
proof -
  obtain c cs where s: "to_string n = c # cs" by (cases "to_string n") auto
  have d: "list_all is_digit (c # cs)" using to_string_digits [of n] s by simp
  then have "dropWhile is_space (c # cs) = c # cs" and "split_sign (c # cs) = (False, c # cs)"
    using digit_not_space digit_not_sign by (auto simp: split_sign_def)
  with d show ?thesis
    using digits_val_to_string [of n] s
    by (simp add: stoull_def Let_def takeWhile_digits del: digits_val.simps)
qed

text \<open>An integer literal that fits 64 bits survives printing and parsing; one that does not is
  silently read as zero.\<close>

lemma parseValue_integer:
  "parseValueByType stof (to_string n) TYPE_INTEGER = ScalarInt (if n < 2 ^ 64 then of_nat n else 0)"
  by (simp add: parseValueByType_def stoull_to_string)

lemma parseValue_catalog:
  "parseValueByType stof v (getSSBColumnType t c) = parseValueByType stof' v (getSSBColumnType t c)"
  using column_type_cases [of t c] by (auto simp: parseValueByType_def)

end
