(* ===== verification/Ast_Types.thy ===== *)
theory Ast_Types
  imports Prelude
begin

text \<open>
  \<open>include/parser/generate_AST.hpp\<close>: the abstract syntax tree between the SQL parser and the
  plan. An \<open>ASTNode\<close> is a variant over the clause nodes and two owned child pointers; here a
  null pointer is \<open>Null\<close> and a node is \<open>ANode v l r\<close>. The record fields carry a prefix per
  class, because the classes share the names \<open>table\<close> and \<open>column\<close>.
\<close>

section \<open>Clause nodes\<close>

record TableJoinNode =
  j_joinType :: string
  onLeftTable :: string
  onLeftTableColumn :: string
  onRightTable :: string
  onRightTableColumn :: string

record TableBaseNode =
  tableName :: string
  tableAlias :: string

record WhereClauseNode =
  w_table :: string
  w_column :: string
  w_operatorType :: string
  w_table2 :: string
  w_column2 :: string
  w_value :: string
  w_value2 :: string

record SelectClauseDescription =
  sd_table :: string
  sd_column :: string
  sd_alias :: string

record MapClause =
  m_table1 :: string
  m_column1 :: string
  m_table2 :: string
  m_column2 :: string
  m_operatorType :: string
  m_value :: string

record AggregateClauseNode =
  aggregateFunction :: string
  a_alias :: string
  a_table :: string
  a_column :: string

record GroupByDescription =
  gd_table :: string
  gd_column :: string

record OrderByDescription =
  od_table :: string
  od_column :: string
  ordertype :: string
  od_nullordering :: string

record LimitClauseNode =
  limit :: string
  offset :: string

record SetOperationNode =
  setOperation :: string

text \<open>The variant \<open>ASTNode::val\<close>; \<open>VEmpty\<close> is \<open>std::monostate\<close>.\<close>

datatype ast_val =
    VEmpty
  | VSetOp SetOperationNode
  | VJoin TableJoinNode
  | VBase TableBaseNode
  | VWhere WhereClauseNode
  | VSelect "SelectClauseDescription list"
  | VGroup "GroupByDescription list"
  | VOrder "OrderByDescription list"
  | VLimit LimitClauseNode
  | VMap MapClause
  | VAgg AggregateClauseNode

datatype ast = Null | ANode ast_val ast ast

definition base_node :: "string \<Rightarrow> string \<Rightarrow> ast" where
  "base_node n a = ANode (VBase \<lparr>tableName = n, tableAlias = a\<rparr>) Null Null"

section \<open>What a tree contains\<close>

text \<open>The base tables, the conditions and the joins of a tree, in pre-order.\<close>

fun bases :: "ast \<Rightarrow> TableBaseNode list" where
  "bases Null = []"
| "bases (ANode v l r) = (case v of VBase b \<Rightarrow> [b] | _ \<Rightarrow> []) @ bases l @ bases r"

definition base_tables :: "ast \<Rightarrow> string list" where
  "base_tables a = map tableName (bases a)"

fun wheres :: "ast \<Rightarrow> WhereClauseNode list" where
  "wheres Null = []"
| "wheres (ANode v l r) = (case v of VWhere w \<Rightarrow> [w] | _ \<Rightarrow> []) @ wheres l @ wheres r"

fun joins :: "ast \<Rightarrow> TableJoinNode list" where
  "joins Null = []"
| "joins (ANode v l r) = (case v of VJoin j \<Rightarrow> [j] | _ \<Rightarrow> []) @ joins l @ joins r"

lemma base_tables_simps [simp]:
  "base_tables Null = []"
  "base_tables (ANode v l r) = (case v of VBase b \<Rightarrow> [tableName b] | _ \<Rightarrow> []) @ base_tables l @ base_tables r"
  by (simp_all add: base_tables_def split: ast_val.splits)

lemma base_node_simps [simp]:
  "base_tables (base_node n a) = [n]" "wheres (base_node n a) = []" "joins (base_node n a) = []"
  "bases (base_node n a) = [\<lparr>tableName = n, tableAlias = a\<rparr>]"
  by (simp_all add: base_node_def)

section \<open>The shape of a parsed query\<close>

text \<open>
  \<open>parseQueryExpression\<close> hangs every clause as the left child of the previous one: a spine of
  operators, ending in the conditions of the \<open>WHERE\<close> clause and then the \<open>FROM\<close> subtree.
\<close>

fun spine :: "ast_val list \<Rightarrow> ast \<Rightarrow> ast" where
  "spine [] a = a"
| "spine (v # vs) a = ANode v (spine vs a) Null"

text \<open>\<open>exploreCrossProduct\<close> builds a left-deep chain of \<open>CROSSPRODUCT\<close> nodes from the back of
  the list of table names. With fewer than two tables \<open>size() - 2\<close> wraps around and the loop
  pops an empty vector: no value.\<close>

definition cross_node :: "ast \<Rightarrow> ast \<Rightarrow> ast" where
  "cross_node l r = ANode (VJoin \<lparr>j_joinType = ''CROSSPRODUCT'', onLeftTable = [],
     onLeftTableColumn = [], onRightTable = [], onRightTableColumn = []\<rparr>) l r"

fun cross_chain :: "string list \<Rightarrow> ast option" where
  "cross_chain (x # y # z # rest) =
     map_option (\<lambda>l. cross_node l (base_node x [])) (cross_chain (y # z # rest))"
| "cross_chain [x, y] = Some (cross_node (base_node y []) (base_node x []))"
| "cross_chain _ = None"

definition exploreCrossProduct :: "string list \<Rightarrow> ast option" where
  "exploreCrossProduct tablenames = cross_chain (rev tablenames)"

lemma spine_append: "spine (us @ vs) a = spine us (spine vs a)"
  by (induction us) auto

end
