(* ===== verification/Optimizer_One.thy ===== *)
theory Optimizer_One
  imports Ast_Types
begin

text \<open>
  \<open>src/parser/optimizer_one.cpp\<close>: predicate pushdown on the AST. The conditions of the \<open>WHERE\<close>
  clause are taken out of the tree, the equality conditions between columns become a left-deep
  join tree that replaces the first join or cross product of the left spine, and every other
  condition is put back directly above the base table it filters.

  \<open>placePredicate\<close> links one node into the tree; where two base tables match, the code links
  the same node twice and the tree becomes a graph with a doubly owned node. The model counts
  the places: more than one is the fault \<open>SharedNode\<close>. \<open>std::get_if(&p->val)\<close> on a null child
  is read as "no match": \<open>val\<close> is the first member, so the address is null.
\<close>

section \<open>The pass\<close>

fun isTableInAST :: "ast \<Rightarrow> string \<Rightarrow> bool" where
  "isTableInAST Null t = False"
| "isTableInAST (ANode v l r) t = (case v of
     VBase b \<Rightarrow> tableName b = t
   | VJoin _ \<Rightarrow> isTableInAST l t \<or> isTableInAST r t
   | _ \<Rightarrow> False)"

definition is_join_cond :: "WhereClauseNode \<Rightarrow> bool" where
  "is_join_cond w \<longleftrightarrow> w_operatorType w = ''EQUAL'' \<and> w_table2 w \<noteq> []"

text \<open>The new tree, the predicates and the join conditions, in the order they are pushed. The
  right subtree of a condition is searched but no longer linked.\<close>

fun extractPredicate :: "ast \<Rightarrow> ast \<times> WhereClauseNode list \<times> WhereClauseNode list" where
  "extractPredicate Null = (Null, [], [])"
| "extractPredicate (ANode v l r) =
     (let (l', pl, jl) = extractPredicate l; (r', pr, jr) = extractPredicate r
      in case v of
           VWhere e \<Rightarrow>
             if is_join_cond e then (l', pl @ pr, e # jl @ jr) else (l', e # pl @ pr, jl @ jr)
         | _ \<Rightarrow> (ANode v l' r', pl @ pr, jl @ jr))"

definition inner_join :: "string \<Rightarrow> string \<Rightarrow> string \<Rightarrow> string \<Rightarrow> ast_val" where
  "inner_join t1 c1 t2 c2 = VJoin \<lparr>j_joinType = ''JOININNER'', onLeftTable = t1,
     onLeftTableColumn = c1, onRightTable = t2, onRightTableColumn = c2\<rparr>"

definition first_join :: "WhereClauseNode \<Rightarrow> ast" where
  "first_join e = ANode (inner_join (w_table e) (w_column e) (w_table2 e) (w_column2 e))
     (base_node (w_table e) []) (base_node (w_table2 e) [])"

definition next_join :: "ast \<Rightarrow> WhereClauseNode \<Rightarrow> ast" where
  "next_join cur e =
     (if isTableInAST cur (w_table2 e)
      then ANode (inner_join (w_table2 e) (w_column2 e) (w_table e) (w_column e)) cur
             (base_node (w_table e) [])
      else ANode (inner_join (w_table e) (w_column e) (w_table2 e) (w_column2 e)) cur
             (base_node (w_table2 e) []))"

fun buildJoin :: "WhereClauseNode list \<Rightarrow> ast" where
  "buildJoin [] = Null"
| "buildJoin (e # es) = foldl next_join (first_join e) es"

fun optimizeCrossProduct :: "ast \<Rightarrow> ast \<Rightarrow> ast" where
  "optimizeCrossProduct Null joinroot = Null"
| "optimizeCrossProduct (ANode v l r) joinroot = (case v of
     VJoin _ \<Rightarrow> joinroot
   | _ \<Rightarrow> ANode v (optimizeCrossProduct l joinroot) r)"

definition base_matches :: "ast \<Rightarrow> WhereClauseNode \<Rightarrow> bool" where
  "base_matches a p = (case a of
     ANode (VBase t) _ _ \<Rightarrow> w_table p = tableName t \<or> w_table p = tableAlias t
   | _ \<Rightarrow> False)"

fun placePredicate :: "ast \<Rightarrow> WhereClauseNode \<Rightarrow> nat \<times> ast" where
  "placePredicate Null p = (0, Null)"
| "placePredicate (ANode v l r) p =
     (if base_matches l p then (1, ANode v (ANode (VWhere p) l Null) r)
      else if base_matches r p then (1, ANode v l (ANode (VWhere p) Null r))
      else let (m, l') = placePredicate l p; (n, r') = placePredicate r p
           in (m + n, ANode v l' r'))"

fun place_all :: "ast \<Rightarrow> WhereClauseNode list \<Rightarrow> ast res" where
  "place_all a [] = Inr a"
| "place_all a (p # ps) =
     (let (n, a') = placePredicate a p in if 1 < n then Inl SharedNode else place_all a' ps)"

definition optimizerOne :: "ast \<Rightarrow> ast res" where
  "optimizerOne root =
     (let (root', predicate, joinCond) = extractPredicate root
      in place_all (optimizeCrossProduct root' (buildJoin joinCond)) predicate)"

section \<open>Extraction\<close>

text \<open>Every condition of the tree is extracted, in pre-order, and sorted into the two lists.\<close>

lemma extract_lists:
  "extractPredicate a = (a', ps, js) \<Longrightarrow>
   ps = filter (\<lambda>w. \<not> is_join_cond w) (wheres a) \<and> js = filter is_join_cond (wheres a)"
proof (induction a arbitrary: a' ps js)
  case (ANode v l r)
  obtain l' pl jl r' pr jr
    where "extractPredicate l = (l', pl, jl)" "extractPredicate r = (r', pr, jr)"
    by (metis prod_cases3)
  with ANode.IH [of l' pl jl] ANode.IH(2) [of r' pr jr] ANode.prems show ?case
    by (auto split: ast_val.splits if_splits)
qed simp

lemma extract_no_wheres: "wheres (fst (extractPredicate a)) = []"
  by (induction a) (auto simp: Let_def split: ast_val.splits prod.splits)

text \<open>On the spine of a parsed query extraction drops exactly the condition nodes.\<close>

lemma extract_no_where:
  "wheres a = [] \<Longrightarrow> extractPredicate a = (a, [], [])"
  by (induction a) (auto split: ast_val.splits)

definition is_clause :: "ast_val \<Rightarrow> bool" where
  "is_clause v = (case v of VJoin _ \<Rightarrow> False | VBase _ \<Rightarrow> False | VWhere _ \<Rightarrow> False | _ \<Rightarrow> True)"

lemma extract_wheres_spine:
  "wheres c = [] \<Longrightarrow> extractPredicate (spine (map VWhere ws) c) =
     (c, filter (\<lambda>w. \<not> is_join_cond w) ws, filter is_join_cond ws)"
  by (induction ws) (auto simp: extract_no_where)

lemma extract_spine:
  assumes "list_all is_clause ops" and "wheres c = []"
  shows "extractPredicate (spine (ops @ map VWhere ws) c) =
     (spine ops c, filter (\<lambda>w. \<not> is_join_cond w) ws, filter is_join_cond ws)"
  using assms(1)
proof (induction ops)
  case Nil
  then show ?case using extract_wheres_spine [OF assms(2)] by simp
next
  case (Cons v ops)
  then show ?case by (cases v) (auto simp: is_clause_def)
qed

lemma cross_chain_contents:
  "cross_chain ts = Some c \<Longrightarrow> wheres c = [] \<and> base_tables c = rev ts \<and>
     (\<exists>l r. c = cross_node l r) \<and> (\<forall>j \<in> set (joins c). j_joinType j = ''CROSSPRODUCT'')"
  by (induction ts arbitrary: c rule: cross_chain.induct) (auto simp: cross_node_def)

lemma replace_on_spine:
  "list_all is_clause ops \<Longrightarrow>
   optimizeCrossProduct (spine ops (cross_node l r)) j = spine ops j"
proof (induction ops)
  case (Cons v ops)
  then show ?case by (cases v) (auto simp: is_clause_def)
qed (simp add: cross_node_def)


section \<open>The join tree\<close>

text \<open>Trees of joins over base tables: \<open>isTableInAST\<close> looks for a name among the base tables.\<close>

fun join_tree :: "ast \<Rightarrow> bool" where
  "join_tree Null = False"
| "join_tree (ANode v l r) = (case v of
     VBase b \<Rightarrow> l = Null \<and> r = Null
   | VJoin _ \<Rightarrow> join_tree l \<and> join_tree r
   | _ \<Rightarrow> False)"

lemma join_tree_base [simp]: "join_tree (base_node n a)"
  by (simp add: base_node_def)

lemma isTableInAST_iff: "join_tree a \<Longrightarrow> isTableInAST a t \<longleftrightarrow> t \<in> set (base_tables a)"
  by (induction a) (auto split: ast_val.splits)

lemma join_tree_no_wheres: "join_tree a \<Longrightarrow> wheres a = []"
  by (induction a) (auto split: ast_val.splits)

text \<open>\<open>grows seen ws\<close>: each condition joins one new table to those already seen.\<close>

fun grows :: "string list \<Rightarrow> WhereClauseNode list \<Rightarrow> bool" where
  "grows seen [] = True"
| "grows seen (w # ws) =
     (if w_table2 w \<in> set seen then w_table w \<notin> set seen \<and> grows (seen @ [w_table w]) ws
      else w_table w \<in> set seen \<and> grows (seen @ [w_table2 w]) ws)"

fun spans :: "WhereClauseNode list \<Rightarrow> bool" where
  "spans [] = False"
| "spans (w # ws) \<longleftrightarrow> w_table w \<noteq> w_table2 w \<and> grows [w_table w, w_table2 w] ws"

definition cond_tables :: "WhereClauseNode list \<Rightarrow> string set" where
  "cond_tables ws = (\<Union>w \<in> set ws. {w_table w, w_table2 w})"

text \<open>A join node tests a condition when it carries its two columns in either order.\<close>

definition tests :: "TableJoinNode \<Rightarrow> WhereClauseNode \<Rightarrow> bool" where
  "tests j w \<longleftrightarrow> j_joinType j = ''JOININNER'' \<and>
     (((onLeftTable j, onLeftTableColumn j) = (w_table w, w_column w) \<and>
       (onRightTable j, onRightTableColumn j) = (w_table2 w, w_column2 w)) \<or>
      ((onLeftTable j, onLeftTableColumn j) = (w_table2 w, w_column2 w) \<and>
       (onRightTable j, onRightTableColumn j) = (w_table w, w_column w)))"

text \<open>A left-deep tree whose joins find their left column below on the left and their right
  column in the base table on the right.\<close>

fun well_joined :: "ast \<Rightarrow> bool" where
  "well_joined (ANode (VJoin j) l r) \<longleftrightarrow>
     well_joined l \<and> onLeftTable j \<in> set (base_tables l) \<and> r = base_node (onRightTable j) []"
| "well_joined a \<longleftrightarrow> (\<exists>t \<in> set (base_tables a). a = base_node t [])"

lemma well_joined_base [simp]: "well_joined (base_node t [])"
  by (simp add: base_node_def)

lemma well_joined_tree: "well_joined a \<Longrightarrow> join_tree a"
  by (induction a rule: well_joined.induct) (auto simp: base_node_def)

lemma base_record_eq [simp]:
  "b = \<lparr>tableName = n, tableAlias = a\<rparr> \<longleftrightarrow> tableName b = n \<and> tableAlias b = a" for b :: TableBaseNode
  by (cases b) auto

lemma well_joined_bases: "well_joined a \<Longrightarrow> \<forall>b \<in> set (bases a). tableAlias b = []"
  by (induction a rule: well_joined.induct) (auto simp: base_node_def)

lemma next_join_step:
  assumes "well_joined c" "distinct (base_tables c)" "grows (base_tables c) (w # ws)"
  shows "well_joined (next_join c w)" "distinct (base_tables (next_join c w))"
    "grows (base_tables (next_join c w)) ws"
    "set (base_tables (next_join c w)) = set (base_tables c) \<union> {w_table w, w_table2 w}"
    "\<exists>j. joins (next_join c w) = j # joins c \<and> tests j w"
  using assms isTableInAST_iff [OF well_joined_tree [OF assms(1)]]
  by (auto simp: next_join_def inner_join_def tests_def split: if_splits)

lemma build_from:
  assumes "well_joined c" "distinct (base_tables c)" "grows (base_tables c) ws"
  shows "well_joined (foldl next_join c ws) \<and> distinct (base_tables (foldl next_join c ws)) \<and>
     set (base_tables (foldl next_join c ws)) = set (base_tables c) \<union> cond_tables ws \<and>
     (\<exists>js. joins (foldl next_join c ws) = js @ joins c \<and> list_all2 tests (rev js) ws)"
  using assms
proof (induction ws arbitrary: c)
  case Nil
  then show ?case by (simp add: cond_tables_def)
next
  case (Cons w ws)
  note step = next_join_step [OF Cons.prems]
  obtain j where j: "joins (next_join c w) = j # joins c" "tests j w"
    using step(5) by blast
  from Cons.IH [OF step(1,2,3)] obtain js
    where "joins (foldl next_join (next_join c w) ws) = js @ joins (next_join c w)"
      "list_all2 tests (rev js) ws"
    by blast
  with j have "joins (foldl next_join c (w # ws)) = (js @ [j]) @ joins c \<and>
      list_all2 tests (rev (js @ [j])) (w # ws)"
    by simp
  moreover have "cond_tables (w # ws) = {w_table w, w_table2 w} \<union> cond_tables ws"
    by (simp add: cond_tables_def)
  ultimately show ?case
    using Cons.IH [OF step(1,2,3)] step(4) by (auto simp: Un_assoc)
qed

lemma buildJoin_spec:
  assumes "spans ws"
  shows "well_joined (buildJoin ws) \<and> distinct (base_tables (buildJoin ws)) \<and>
     set (base_tables (buildJoin ws)) = cond_tables ws \<and>
     list_all2 tests (rev (joins (buildJoin ws))) ws"
proof (cases ws)
  case (Cons w rest)
  have first: "well_joined (first_join w)" "base_tables (first_join w) = [w_table w, w_table2 w]"
    "\<exists>j. joins (first_join w) = [j] \<and> tests j w"
    by (auto simp: first_join_def inner_join_def tests_def)
  then show ?thesis
    using assms Cons build_from [of "first_join w" rest] by (auto simp: cond_tables_def)
qed (use assms in simp)


section \<open>Placement\<close>

text \<open>Every base table is a leaf, has no alias of its own, and no table name occurs twice.\<close>

fun leafy :: "ast \<Rightarrow> bool" where
  "leafy Null = True"
| "leafy (ANode v l r) \<longleftrightarrow>
     (case v of VBase b \<Rightarrow> tableAlias b \<in> {[], tableName b} \<and> l = Null \<and> r = Null | _ \<Rightarrow> leafy l \<and> leafy r)"

definition is_base :: "ast \<Rightarrow> bool" where
  "is_base a = (case a of ANode (VBase _) _ _ \<Rightarrow> True | _ \<Rightarrow> False)"

text \<open>The tables a condition reads.\<close>

fun reads :: "ast_val \<Rightarrow> string set" where
  "reads (VWhere w) = (if is_join_cond w then {w_table w, w_table2 w} else {w_table w})"
| "reads (VJoin j) = (if j_joinType j = ''CROSSPRODUCT'' then {} else {onLeftTable j, onRightTable j})"
| "reads _ = {}"

text \<open>Every condition reads tables below it.\<close>

fun scoped :: "ast \<Rightarrow> bool" where
  "scoped Null = True"
| "scoped (ANode v l r) \<longleftrightarrow> leafy (ANode v l r) \<and> scoped l \<and> scoped r \<and>
     reads v \<subseteq> set (base_tables l) \<union> set (base_tables r)"

text \<open>In a pushed tree a condition sits directly above the base table it filters, or above
  other conditions of that table.\<close>

fun pushed :: "ast \<Rightarrow> bool" where
  "pushed Null = True"
| "pushed (ANode v l r) \<longleftrightarrow>
     (case v of VWhere w \<Rightarrow> base_tables l @ base_tables r = [w_table w] | _ \<Rightarrow> True) \<and>
     pushed l \<and> pushed r"

lemma base_matches_Null: "\<not> base_matches Null p"
  by (simp add: base_matches_def)

lemma base_matches_leaf:
  "leafy a \<Longrightarrow> w_table p \<noteq> [] \<Longrightarrow>
   base_matches a p \<longleftrightarrow> (\<exists>al \<in> {[], w_table p}. a = base_node (w_table p) al)"
  by (auto simp: base_matches_def base_node_def split: ast.splits ast_val.splits)

lemma place_absent:
  "leafy a \<Longrightarrow> w_table p \<noteq> [] \<Longrightarrow> w_table p \<notin> set (base_tables a) \<Longrightarrow> placePredicate a p = (0, a)"
proof (induction a)
  case (ANode v l r)
  then show ?case
    by (cases v) (auto simp: base_matches_leaf base_matches_Null)
qed simp

lemma place_present:
  assumes "leafy a" "\<not> is_base a" "distinct (base_tables a)" "w_table p \<noteq> []"
    "w_table p \<in> set (base_tables a)"
  obtains a' where "placePredicate a p = (1, a')" "leafy a'" "\<not> is_base a'"
    "base_tables a' = base_tables a" "joins a' = joins a" "mset (wheres a') = add_mset p (mset (wheres a))"
    "pushed a \<Longrightarrow> pushed a'" "\<not> is_join_cond p \<Longrightarrow> scoped a \<Longrightarrow> scoped a'"
proof -
  have "\<exists>a'. placePredicate a p = (1, a') \<and> leafy a' \<and> \<not> is_base a' \<and>
    base_tables a' = base_tables a \<and> joins a' = joins a \<and>
    mset (wheres a') = add_mset p (mset (wheres a)) \<and> (pushed a \<longrightarrow> pushed a') \<and>
    (\<not> is_join_cond p \<longrightarrow> scoped a \<longrightarrow> scoped a')"
    using assms
  proof (induction a)
    case (ANode v l r)
    have nb: "\<not> (\<exists>b. v = VBase b)" using ANode.prems(2) by (auto simp: is_base_def)
    then have lf: "leafy l" "leafy r" and bt: "base_tables (ANode v l r) = base_tables l @ base_tables r"
      using ANode.prems(1) by (auto split: ast_val.splits)
    note ml = base_matches_leaf [OF lf(1) assms(4)] and mr = base_matches_leaf [OF lf(2) assms(4)]
    have ib: "is_base x \<Longrightarrow> leafy x \<Longrightarrow> w_table p \<in> set (base_tables x) \<Longrightarrow> \<exists>al \<in> {[], w_table p}. x = base_node (w_table p) al" for x
      by (auto simp: is_base_def base_node_def split: ast.splits ast_val.splits)
    show ?case
    proof (cases "w_table p \<in> set (base_tables l)")
      case True
      then have "w_table p \<notin> set (base_tables r)" using ANode.prems(3) bt by auto
      then have r: "\<not> base_matches r p" "placePredicate r p = (0, r)"
        using mr place_absent [OF lf(2) assms(4)] by auto
      show ?thesis
      proof (cases "is_base l")
        case T: True
        with ib [OF T lf(1) True] ml nb show ?thesis
          using ANode.prems(1) by (auto simp: is_base_def base_node_def split: ast_val.splits)
      next
        case False
        then have "\<not> base_matches l p" by (auto simp: base_matches_def is_base_def split: ast.splits ast_val.splits)
        moreover have "distinct (base_tables l)" using ANode.prems(3) bt by simp
        ultimately show ?thesis
          using ANode.IH(1) [OF lf(1) False _ assms(4) True] r nb lf
          by (auto simp: is_base_def split: ast_val.splits)
      qed
    next
      case False
      then have R: "w_table p \<in> set (base_tables r)" using ANode.prems(5) False nb by auto
      have l: "\<not> base_matches l p" "placePredicate l p = (0, l)"
        using ml False place_absent [OF lf(1) assms(4)] by auto
      show ?thesis
      proof (cases "is_base r")
        case T: True
        with ib [OF T lf(2) R] mr nb l show ?thesis
          using ANode.prems(1) by (auto simp: is_base_def base_node_def split: ast_val.splits)
      next
        case F: False
        then have "\<not> base_matches r p" by (auto simp: base_matches_def is_base_def split: ast.splits ast_val.splits)
        moreover have "distinct (base_tables r)" using ANode.prems(3) bt by simp
        ultimately show ?thesis
          using ANode.IH(2) [OF lf(2) F _ assms(4) R] l nb lf
          by (auto simp: is_base_def split: ast_val.splits)
      qed
    qed
  qed simp
  then show thesis using that by blast
qed

lemma place_all_present:
  assumes "leafy a" "\<not> is_base a" "distinct (base_tables a)"
    "\<forall>p \<in> set ps. w_table p \<noteq> [] \<and> w_table p \<in> set (base_tables a) \<and> \<not> is_join_cond p"
    "scoped a"
  shows "\<exists>a'. place_all a ps = Inr a' \<and> base_tables a' = base_tables a \<and> joins a' = joins a \<and>
    mset (wheres a') = mset ps + mset (wheres a) \<and> leafy a' \<and> (pushed a \<longrightarrow> pushed a') \<and> scoped a'"
  using assms
proof (induction ps arbitrary: a)
  case (Cons p ps)
  then obtain a1 where a1: "placePredicate a p = (1, a1)" "leafy a1" "\<not> is_base a1"
    "base_tables a1 = base_tables a" "joins a1 = joins a"
    "mset (wheres a1) = add_mset p (mset (wheres a))" "pushed a \<Longrightarrow> pushed a1"
    "\<not> is_join_cond p \<Longrightarrow> scoped a \<Longrightarrow> scoped a1"
    by (metis place_present list.set_intros(1))
  with Cons.IH [of a1] Cons.prems show ?case by auto
qed simp


section \<open>What a tree computes\<close>

text \<open>
  The relational reading of an AST. A row maps column names to values, an environment maps the
  tables joined so far to a row each. A base table contributes its rows, a node combines the
  environments of its children and keeps those that satisfy its condition; the clauses above
  the \<open>WHERE\<close> part see the environments of their child. The meaning \<open>flt\<close> of a filter on the
  row of its table is a parameter.
\<close>

type_synonym 'v row = "string \<Rightarrow> 'v"
type_synonym 'v env = "string \<Rightarrow> 'v row option"

definition fetch :: "'v env \<Rightarrow> string \<Rightarrow> string \<Rightarrow> 'v option" where
  "fetch \<rho> t c = map_option (\<lambda>r. r c) (\<rho> t)"

fun cond_holds :: "(WhereClauseNode \<Rightarrow> 'v row option \<Rightarrow> bool) \<Rightarrow> ast_val \<Rightarrow> 'v env \<Rightarrow> bool" where
  "cond_holds flt (VWhere w) \<rho> \<longleftrightarrow>
     (if is_join_cond w then fetch \<rho> (w_table w) (w_column w) = fetch \<rho> (w_table2 w) (w_column2 w)
      else flt w (\<rho> (w_table w)))"
| "cond_holds flt (VJoin j) \<rho> \<longleftrightarrow>
     j_joinType j = ''CROSSPRODUCT'' \<or>
     fetch \<rho> (onLeftTable j) (onLeftTableColumn j) = fetch \<rho> (onRightTable j) (onRightTableColumn j)"
| "cond_holds flt _ \<rho> \<longleftrightarrow> True"

definition combine :: "'v env set \<Rightarrow> 'v env set \<Rightarrow> 'v env set" where
  "combine A B = {a ++ b |a b. a \<in> A \<and> b \<in> B}"

fun sem :: "(WhereClauseNode \<Rightarrow> 'v row option \<Rightarrow> bool) \<Rightarrow> (string \<Rightarrow> 'v row set) \<Rightarrow> ast \<Rightarrow> 'v env set" where
  "sem flt db Null = {Map.empty}"
| "sem flt db (ANode v l r) = (case v of
     VBase b \<Rightarrow> {[tableName b \<mapsto> x] |x. x \<in> db (tableName b)}
   | _ \<Rightarrow> {\<rho> \<in> combine (sem flt db l) (sem flt db r). cond_holds flt v \<rho>})"

definition all_rows :: "(string \<Rightarrow> 'v row set) \<Rightarrow> string set \<Rightarrow> 'v env set" where
  "all_rows db T = {\<rho>. dom \<rho> = T \<and> (\<forall>t x. \<rho> t = Some x \<longrightarrow> x \<in> db t)}"

lemma cond_holds_cong:
  assumes "\<forall>t \<in> reads v. \<rho> t = \<sigma> t"
  shows "cond_holds flt v \<rho> = cond_holds flt v \<sigma>"
proof (cases v)
  case (VJoin j)
  then show ?thesis using assms by (cases "j_joinType j = ''CROSSPRODUCT''") (simp_all add: fetch_def)
next
  case (VWhere w)
  then show ?thesis using assms by (cases "is_join_cond w") (simp_all add: fetch_def)
qed simp_all

lemma restrict_Some: "(m |` A) t = Some x \<longleftrightarrow> m t = Some x \<and> t \<in> A"
  by (auto simp: restrict_map_def)

lemma all_rows_restrict: "\<rho> \<in> all_rows db T \<Longrightarrow> A \<subseteq> T \<Longrightarrow> \<rho> |` A \<in> all_rows db A"
  by (auto simp: all_rows_def restrict_Some)

lemma all_rows_split:
  assumes "\<rho> \<in> all_rows db (A \<union> B)"
  shows "\<rho> = (\<rho> |` A) ++ (\<rho> |` B)"
proof
  fix t
  show "\<rho> t = ((\<rho> |` A) ++ (\<rho> |` B)) t"
    using assms by (cases "\<rho> t") (auto simp: all_rows_def map_add_def restrict_map_def split: option.splits)
qed

lemma all_rows_join:
  assumes "a \<in> all_rows db A" "b \<in> all_rows db B" "A \<inter> B = {}"
  shows "a ++ b \<in> all_rows db (A \<union> B)" "(a ++ b) |` A = a" "(a ++ b) |` B = b"
proof -
  have d: "dom a = A" "dom b = B" using assms by (auto simp: all_rows_def)
  show "a ++ b \<in> all_rows db (A \<union> B)"
    using assms by (auto simp: all_rows_def map_add_Some_iff)
  show "(a ++ b) |` A = a"
    using d assms(3) by (auto simp: fun_eq_iff restrict_map_def map_add_def domIff split: option.splits)
  show "(a ++ b) |` B = b"
    using d assms(3) by (auto simp: fun_eq_iff restrict_map_def map_add_def domIff split: option.splits)
qed

text \<open>The conditions of a tree, all at once.\<close>

definition all_hold :: "(WhereClauseNode \<Rightarrow> 'v row option \<Rightarrow> bool) \<Rightarrow> ast \<Rightarrow> 'v env \<Rightarrow> bool" where
  "all_hold flt a \<rho> \<longleftrightarrow> (\<forall>w \<in> set (wheres a). cond_holds flt (VWhere w) \<rho>) \<and>
     (\<forall>j \<in> set (joins a). cond_holds flt (VJoin j) \<rho>)"

lemma all_hold_node:
  "all_hold flt (ANode v l r) \<rho> \<longleftrightarrow> cond_holds flt v \<rho> \<and> all_hold flt l \<rho> \<and> all_hold flt r \<rho>"
  by (cases v) (auto simp: all_hold_def)

lemma all_hold_restrict:
  "scoped a \<Longrightarrow> set (base_tables a) \<subseteq> A \<Longrightarrow> all_hold flt a (\<rho> |` A) = all_hold flt a \<rho>"
proof (induction a)
  case (ANode v l r)
  have "cond_holds flt v (\<rho> |` A) = cond_holds flt v \<rho>"
    using ANode.prems by (intro cond_holds_cong) (auto simp: restrict_map_def split: ast_val.splits)
  then show ?case
    using ANode by (auto simp: all_hold_node)
qed (simp add: all_hold_def)

text \<open>A scoped tree over distinct tables computes all combinations of rows that satisfy all its
  conditions: neither the shape of the tree nor the place of a condition matters.\<close>

lemma sem_flat:
  assumes "scoped a" "distinct (base_tables a)"
  shows "sem flt db a = {\<rho> \<in> all_rows db (set (base_tables a)). all_hold flt a \<rho>}"
  using assms
proof (induction a)
  case Null
  then show ?case by (auto simp: all_rows_def all_hold_def)
next
  case (ANode v l r)
  show ?case
  proof (cases "\<exists>b. v = VBase b")
    case True
    then show ?thesis using ANode.prems
      by (auto simp: all_hold_def all_rows_def dom_eq_singleton_conv split: if_splits)
  next
    case False
    let ?L = "set (base_tables l)" and ?R = "set (base_tables r)"
    have bt: "base_tables (ANode v l r) = base_tables l @ base_tables r"
      using False by (auto split: ast_val.splits)
    then have LR: "?L \<inter> ?R = {}" and d: "distinct (base_tables l)" "distinct (base_tables r)"
      using ANode.prems(2) by auto
    have sc: "scoped l" "scoped r" using ANode.prems(1) by auto
    have s: "sem flt db (ANode v l r) = {\<rho> \<in> combine (sem flt db l) (sem flt db r). cond_holds flt v \<rho>}"
      using False by (auto split: ast_val.splits)
    have "combine (sem flt db l) (sem flt db r) =
        {\<rho> \<in> all_rows db (?L \<union> ?R). all_hold flt l \<rho> \<and> all_hold flt r \<rho>}"
    proof (intro equalityI subsetI)
      fix \<rho> assume "\<rho> \<in> combine (sem flt db l) (sem flt db r)"
      then obtain x y where xy: "\<rho> = x ++ y" "x \<in> all_rows db ?L" "y \<in> all_rows db ?R"
        "all_hold flt l x" "all_hold flt r y"
        using ANode.IH sc d by (auto simp: combine_def)
      then show "\<rho> \<in> {\<rho> \<in> all_rows db (?L \<union> ?R). all_hold flt l \<rho> \<and> all_hold flt r \<rho>}"
        using all_rows_join [OF xy(2,3) LR] all_hold_restrict [OF sc(1) order.refl]
          all_hold_restrict [OF sc(2) order.refl] by (metis (mono_tags, lifting) mem_Collect_eq)
    next
      fix \<rho> assume r: "\<rho> \<in> {\<rho> \<in> all_rows db (?L \<union> ?R). all_hold flt l \<rho> \<and> all_hold flt r \<rho>}"
      then have "\<rho> |` ?L \<in> sem flt db l" "\<rho> |` ?R \<in> sem flt db r"
        using ANode.IH sc d all_hold_restrict [OF sc(1) order.refl, of flt \<rho>]
          all_hold_restrict [OF sc(2) order.refl, of flt \<rho>]
        by (auto intro: all_rows_restrict)
      then show "\<rho> \<in> combine (sem flt db l) (sem flt db r)"
        unfolding combine_def mem_Collect_eq using all_rows_split r by blast
    qed
    then show ?thesis using s bt by (auto simp: all_hold_node)
  qed
qed


lemma equal_sem:
  assumes "scoped a" "distinct (base_tables a)" "scoped b" "distinct (base_tables b)"
    and "set (base_tables a) = set (base_tables b)"
    and "\<And>\<rho>. all_hold flt a \<rho> \<longleftrightarrow> all_hold flt b \<rho>"
  shows "sem flt db a = sem flt db b"
  using sem_flat [OF assms(1,2), of flt db] sem_flat [OF assms(3,4), of flt db] assms(5,6) by simp

section \<open>Pushdown keeps the meaning of a query\<close>

lemma tests_holds: "tests j w \<Longrightarrow> is_join_cond w \<Longrightarrow> cond_holds flt (VJoin j) \<rho> \<longleftrightarrow> cond_holds flt (VWhere w) \<rho>"
  by (auto simp: tests_def)

lemma tests_all:
  "list_all2 tests js ws \<Longrightarrow> \<forall>w \<in> set ws. is_join_cond w \<Longrightarrow>
   (\<forall>j \<in> set js. cond_holds flt (VJoin j) \<rho>) \<longleftrightarrow> (\<forall>w \<in> set ws. cond_holds flt (VWhere w) \<rho>)"
  by (induction rule: list_all2_induct) (simp_all add: tests_holds del: cond_holds.simps)

lemma scoped_leafy: "scoped a \<Longrightarrow> leafy a"
  by (cases a) auto

lemma clause_simps:
  assumes "is_clause v"
  shows "base_tables (ANode v l r) = base_tables l @ base_tables r" "wheres (ANode v l r) = wheres l @ wheres r"
    "joins (ANode v l r) = joins l @ joins r" "scoped (ANode v l r) = (scoped l \<and> scoped r)"
    "pushed (ANode v l r) = (pushed l \<and> pushed r)" "is_base (ANode v l r) = False"
  using assms scoped_leafy [of l] scoped_leafy [of r]
  by (cases v; auto simp: is_clause_def is_base_def)+

lemma spine_clauses:
  assumes "list_all is_clause ops"
  shows "base_tables (spine ops a) = base_tables a \<and> wheres (spine ops a) = wheres a \<and>
    joins (spine ops a) = joins a \<and> pushed (spine ops a) = pushed a \<and>
    scoped (spine ops a) = scoped a \<and> (\<not> is_base a \<longrightarrow> \<not> is_base (spine ops a))"
  using assms
  by (induction ops) (simp_all add: clause_simps del: base_tables_simps(2) wheres.simps(2)
    joins.simps(2) scoped.simps(2) pushed.simps(2))

lemma well_joined_scoped:
  "well_joined a \<Longrightarrow> scoped a \<and> pushed a"
  by (induction a rule: well_joined.induct) (auto simp: base_node_def intro: scoped_leafy)


lemma next_join_not_base: "\<not> is_base (next_join c w)"
  by (simp add: next_join_def inner_join_def is_base_def)

lemma first_join_not_base: "\<not> is_base (first_join w)"
  by (simp add: first_join_def inner_join_def is_base_def)

lemma build_not_base: "\<not> is_base c \<Longrightarrow> \<not> is_base (foldl next_join c es)"
  by (induction es arbitrary: c) (simp_all add: next_join_not_base)

lemma buildJoin_not_base: "\<not> is_base (buildJoin js)"
  by (cases js) (simp_all add: build_not_base first_join_not_base, simp add: is_base_def)

lemma scoped_wheres_spine:
  assumes "scoped c" "\<forall>w \<in> set ws. reads (VWhere w) \<subseteq> set (base_tables c)"
  shows "scoped (spine (map VWhere ws) c) \<and> base_tables (spine (map VWhere ws) c) = base_tables c \<and>
     wheres (spine (map VWhere ws) c) = ws @ wheres c \<and> joins (spine (map VWhere ws) c) = joins c"
  using assms by (induction ws) (auto intro: scoped_leafy)

lemma cross_chain_scoped: "cross_chain ts = Some c \<Longrightarrow> scoped c"
  by (induction ts arbitrary: c rule: cross_chain.induct)
     (auto simp: cross_node_def base_node_def intro: scoped_leafy)

text \<open>The pushed tree of a query over a list of tables whose join conditions span the list.\<close>

lemma optimizerOne_cross:
  assumes ops: "list_all is_clause ops" and c: "exploreCrossProduct ts = Some c"
    and span: "spans (filter is_join_cond ws)" "cond_tables (filter is_join_cond ws) = set ts"
    and flt: "\<forall>w \<in> set ws. \<not> is_join_cond w \<longrightarrow> w_table w \<in> set ts" and ne: "[] \<notin> set ts"
  obtains a where "optimizerOne (spine (ops @ map VWhere ws) c) = Inr a"
    "distinct (base_tables a)" "set (base_tables a) = set ts" "pushed a" "scoped a"
    "list_all2 tests (rev (joins a)) (filter is_join_cond ws)"
    "mset (wheres a) = mset (filter (\<lambda>w. \<not> is_join_cond w) ws)"
proof -
  let ?js = "filter is_join_cond ws" and ?ps = "filter (\<lambda>w. \<not> is_join_cond w) ws"
  obtain l r where "c = cross_node l r" "wheres c = []"
    using cross_chain_contents c by (metis exploreCrossProduct_def)
  then have run: "optimizerOne (spine (ops @ map VWhere ws) c) = place_all (spine ops (buildJoin ?js)) ?ps"
    using extract_spine [OF ops] replace_on_spine [OF ops] by (simp add: optimizerOne_def)
  note J = buildJoin_spec [OF span(1)] and S = spine_clauses [OF ops, of "buildJoin ?js"]
  have wj: "scoped (buildJoin ?js) \<and> pushed (buildJoin ?js)" "wheres (buildJoin ?js) = []"
    using well_joined_scoped J join_tree_no_wheres well_joined_tree by blast+
  have "\<exists>a'. place_all (spine ops (buildJoin ?js)) ?ps = Inr a' \<and>
      base_tables a' = base_tables (spine ops (buildJoin ?js)) \<and>
      joins a' = joins (spine ops (buildJoin ?js)) \<and>
      mset (wheres a') = mset ?ps + mset (wheres (spine ops (buildJoin ?js))) \<and>
      leafy a' \<and> (pushed (spine ops (buildJoin ?js)) \<longrightarrow> pushed a') \<and> scoped a'"
    using S J wj buildJoin_not_base [of ?js] span(2) flt ne
    by (intro place_all_present) (auto intro: scoped_leafy)
  then show thesis
    using run that S J wj span(2) by auto
qed


text \<open>Tables and conditions of a parsed query.\<close>

lemma query_contents:
  assumes "list_all is_clause ops" "exploreCrossProduct ts = Some c"
    and "cond_tables (filter is_join_cond ws) = set ts" "\<forall>w \<in> set ws. \<not> is_join_cond w \<longrightarrow> w_table w \<in> set ts"
  shows "base_tables (spine (ops @ map VWhere ws) c) = ts" "wheres (spine (ops @ map VWhere ws) c) = ws"
    "scoped (spine (ops @ map VWhere ws) c)" "joins (spine (ops @ map VWhere ws) c) = joins c"
    "\<forall>j \<in> set (joins c). j_joinType j = ''CROSSPRODUCT''"
proof -
  have c: "wheres c = []" "base_tables c = ts" "\<forall>j \<in> set (joins c). j_joinType j = ''CROSSPRODUCT''" "scoped c"
    using cross_chain_contents cross_chain_scoped assms(2) by (fastforce simp: exploreCrossProduct_def)+
  have rd: "\<forall>w \<in> set ws. reads (VWhere w) \<subseteq> set (base_tables c)"
    using assms(3,4) c(2) by (auto simp: cond_tables_def)
  show "base_tables (spine (ops @ map VWhere ws) c) = ts" "wheres (spine (ops @ map VWhere ws) c) = ws"
    "scoped (spine (ops @ map VWhere ws) c)" "joins (spine (ops @ map VWhere ws) c) = joins c"
    using scoped_wheres_spine [OF c(4) rd] spine_clauses [OF assms(1), of "spine (map VWhere ws) c"] c
    by (simp_all add: spine_append)
  show "\<forall>j \<in> set (joins c). j_joinType j = ''CROSSPRODUCT''" by (rule c(3))
qed

lemma pushdown_rows:
  assumes "list_all is_clause ops" "exploreCrossProduct ts = Some c" "distinct ts" "[] \<notin> set ts"
    and "spans (filter is_join_cond ws)" "cond_tables (filter is_join_cond ws) = set ts"
    and "\<forall>w \<in> set ws. \<not> is_join_cond w \<longrightarrow> w_table w \<in> set ts"
  shows "\<exists>a. optimizerOne (spine (ops @ map VWhere ws) c) = Inr a \<and>
    (\<forall>flt db. sem flt db a = sem flt db (spine (ops @ map VWhere ws) c))"
proof -
  obtain a where a: "optimizerOne (spine (ops @ map VWhere ws) c) = Inr a" "distinct (base_tables a)"
    "set (base_tables a) = set ts" "scoped a" "list_all2 tests (rev (joins a)) (filter is_join_cond ws)"
    "mset (wheres a) = mset (filter (\<lambda>w. \<not> is_join_cond w) ws)"
    using optimizerOne_cross [OF assms(1,2,5,6,7,4)] by metis
  let ?q = "spine (ops @ map VWhere ws) c"
  note q = query_contents [OF assms(1,2,6,7)]
  have "all_hold flt a \<rho> \<longleftrightarrow> all_hold flt ?q \<rho>" for flt :: "WhereClauseNode \<Rightarrow> 'a row option \<Rightarrow> bool" and \<rho>
    using tests_all [OF a(5), of flt \<rho>] mset_eq_setD [OF a(6)] q
    by (auto simp: all_hold_def simp del: cond_holds.simps(1))
  then show ?thesis
    using a q assms(3) equal_sem by metis
qed



text \<open>C3 The other side of the pass: a query that joins explicitly in its \<open>FROM\<close> clause and has
  no equality condition between columns loses its whole \<open>FROM\<close> subtree and every filter.\<close>

theorem explicit_join_lost:
  assumes "list_all is_clause ops" "wheres l = []" "wheres r = []" "\<forall>w \<in> set ws. \<not> is_join_cond w"
  shows "optimizerOne (spine (ops @ map VWhere ws) (ANode (VJoin j) l r)) = Inr (spine ops Null)"
proof -
  have rep: "optimizeCrossProduct (spine ops (ANode (VJoin j) l r)) Null = spine ops Null"
    using assms(1)
  proof (induction ops)
    case (Cons v ops)
    then show ?case by (cases v) (auto simp: is_clause_def)
  qed simp
  have none: "placePredicate (spine ops Null) p = (0, spine ops Null)" for p
    using assms(1)
  proof (induction ops)
    case (Cons v ops)
    then have "\<not> base_matches (spine ops Null) p"
      by (cases ops) (auto simp: base_matches_def is_clause_def split: ast_val.splits)
    with Cons show ?case by (simp add: base_matches_Null)
  qed simp
  have all: "place_all (spine ops Null) ps = Inr (spine ops Null)" for ps
    by (induction ps) (simp_all add: none)
  have ex: "extractPredicate (spine (ops @ map VWhere ws) (ANode (VJoin j) l r)) =
      (spine ops (ANode (VJoin j) l r), ws, [])"
    using extract_spine [OF assms(1), of "ANode (VJoin j) l r" ws] assms(2,3,4)
    by (simp add: filter_id_conv filter_empty_conv)
  show ?thesis
    by (simp add: optimizerOne_def ex rep all)
qed

section \<open>Witnesses\<close>

definition where_eq :: "string \<Rightarrow> string \<Rightarrow> string \<Rightarrow> string \<Rightarrow> WhereClauseNode" where
  "where_eq t c t2 c2 = \<lparr>w_table = t, w_column = c, w_operatorType = ''EQUAL'', w_table2 = t2,
     w_column2 = c2, w_value = [], w_value2 = []\<rparr>"

definition where_val :: "string \<Rightarrow> string \<Rightarrow> string \<Rightarrow> WhereClauseNode" where
  "where_val t c v = \<lparr>w_table = t, w_column = c, w_operatorType = ''EQUAL'', w_table2 = [],
     w_column2 = [], w_value = v, w_value2 = []\<rparr>"

definition star_wheres :: "WhereClauseNode list" where
  "star_wheres = [where_eq ''lineorder'' ''lo_suppkey'' ''supplier'' ''s_suppkey'',
     where_val ''supplier'' ''s_region'' ''ASIA'',
     where_eq ''lineorder'' ''lo_custkey'' ''customer'' ''c_custkey'',
     where_val ''customer'' ''c_nation'' ''CHINA'']"

definition star_from :: ast where
  "star_from = cross_node (cross_node (base_node ''lineorder'' []) (base_node ''supplier'' []))
     (base_node ''customer'' [])"

lemmas star_defs = star_wheres_def where_eq_def where_val_def is_join_cond_def cond_tables_def



theorem explicit_join_lost_witness:
  "optimizerOne (spine ([VSelect []] @ map VWhere [where_val ''supplier'' ''s_region'' ''ASIA''])
     (ANode (inner_join ''lineorder'' ''lo_suppkey'' ''supplier'' ''s_suppkey'')
       (base_node ''lineorder'' []) (base_node ''supplier'' []))) = Inr (spine [VSelect []] Null)"
  unfolding inner_join_def
  by (rule explicit_join_lost) (auto simp: star_defs is_clause_def)

end
