(* ===== verification/Ast_To_Ir.thy ===== *)
theory Ast_To_Ir
  imports Plan_Node Transform_Helpers Optimizer_One
begin

text \<open>
  \<open>src/ir/ast_to_ir.cpp\<close>: the translation of the AST into the plan, one definition per clause,
  and \<open>astToIr\<close> itself. A clause the code has no branch for (\<open>LIMIT\<close>, an empty node, an
  aggregate with an unknown function) leaves the operator empty. The arithmetic clause throws on
  strings; a set operation with fewer than two translated children reads past a vector.
\<close>

section \<open>The clauses\<close>

definition select_ir :: "SelectClauseDescription list \<Rightarrow> IrData" where
  "select_ir descs = select_create
     (map (\<lambda>d. mkColumn (table_of (sd_table d)) (sd_column d)
        (getSSBColumnType (sd_table d) (sd_column d)) (Some (sd_alias d))) descs) None []"

definition order_ir :: "OrderByDescription list \<Rightarrow> IrData" where
  "order_ir descs =
     (let sortCol = (\<lambda>d. mkColumn (table_of (od_table d)) (od_column d)
            (getSSBColumnType (od_table d) (od_column d)) None);
          orders = map (\<lambda>d. \<lparr>column = sortCol d, orderType = (ordertype d \<noteq> ''DESC''),
            nullordering = (od_nullordering d = ''FIRST'')\<rparr>) descs
      in sort_create orders (sort_generateOutCol (map sortCol descs)) None)"

definition group_ir :: "GroupByDescription list \<Rightarrow> IrData" where
  "group_ir descs =
     (let groups = map (\<lambda>d. mkColumn (table_of (gd_table d)) (gd_column d)
            (getSSBColumnType (gd_table d) (gd_column d)) None) descs
      in group_create groups (group_generateOutCol groups))"

definition agg_out_type :: "AggFunc \<Rightarrow> ColumnType \<Rightarrow> ColumnType" where
  "agg_out_type f inType = (case f of
       AGG_COUNT \<Rightarrow> TYPE_INTEGER
     | AGG_AVG \<Rightarrow> TYPE_FLOAT
     | AGG_MIN \<Rightarrow> inType | AGG_MAX \<Rightarrow> inType | AGG_SUM \<Rightarrow> inType)"

definition agg_ir :: "AggregateClauseNode \<Rightarrow> IrData" where
  "agg_ir e = (case mapStringToAggFunc (aggregateFunction e) of
       None \<Rightarrow> emptyIr
     | Some f \<Rightarrow>
         let inType = getSSBColumnType (a_table e) (a_column e) in
         agg_create (mkColumn (table_of (a_table e)) (a_column e) inType (Some (a_alias e)))
           (mkColumn (table_of ''AGG'') (aggregateFunction e @ ''('' @ a_column e @ '')'')
             (agg_out_type f inType) (Some (a_alias e))) f)"

definition map_ir :: "MapClause \<Rightarrow> IrData res" where
  "map_ir e =
     (let t1 = getSSBColumnType (m_table1 e) (m_column1 e);
          t2 = getSSBColumnType (m_table2 e) (m_column2 e);
          op = mapStringToArithOp (m_operatorType e)
      in if t1 = TYPE_STRING \<or> t2 = TYPE_STRING \<or>
            (op = ARITH_MOD \<and> \<not> (t1 = TYPE_INTEGER \<and> t2 = TYPE_INTEGER))
         then Inl (RuntimeError ''Invalid types for arithmetic operation'')
         else Inr (map_create (mkColumn (table_of (m_table1 e)) (m_column1 e) t1 None) op
           (PartnerCol (mkColumn (table_of (m_table2 e)) (m_column2 e) t2 None))
           (mkColumn (table_of ''MAP'') (m_column1 e @ m_operatorType e @ m_column2 e) TYPE_INTEGER None)))"

text \<open>A condition: a list of literals for \<open>OR\<close> and \<open>BETWEEN\<close>, a second column, or one literal.\<close>

definition where_ir :: "(string \<Rightarrow> 32 word option) \<Rightarrow> WhereClauseNode \<Rightarrow> IrData" where
  "where_ir stof e =
     (let colType = getSSBColumnType (w_table e) (w_column e);
          inputCol = mkColumn (table_of (w_table e)) (w_column e) colType None;
          lit = (\<lambda>v. parseValueByType stof v colType);
          opType = mapStringToCompType (w_operatorType e)
      in if w_operatorType e = ''OR'' then
           filter_create inputCol COMP_IN None
             (lit (w_value e) # (if w_value2 e \<noteq> [] then [lit (w_value2 e)] else [])) inputCol
         else if w_operatorType e = ''BETWEEN'' then
           filter_create inputCol COMP_BETWEEN None [lit (w_value e), lit (w_value2 e)] inputCol
         else if w_column e \<noteq> [] \<and> w_column2 e \<noteq> [] then
           (let table2 = (if w_table2 e \<noteq> [] then w_table2 e else w_table e) in
            filter_create inputCol opType
              (Some (mkColumn (table_of table2) (w_column2 e) (getSSBColumnType table2 (w_column2 e)) None))
              [] inputCol)
         else filter_create inputCol opType None [lit (w_value e)] inputCol)"

definition join_ir :: "TableJoinNode \<Rightarrow> IrData" where
  "join_ir e = join_create
     (mkColumn (table_of (onLeftTable e)) (onLeftTableColumn e)
       (getSSBColumnType (onLeftTable e) (onLeftTableColumn e)) None)
     (mkColumn (table_of (onRightTable e)) (onRightTableColumn e)
       (getSSBColumnType (onRightTable e) (onRightTableColumn e)) None)
     (mkColumn (table_of ''JOIN'') (onLeftTableColumn e @ ''='' @ onRightTableColumn e) TYPE_INTEGER None)
     (mapStringToJoinType (j_joinType e)) COMP_EQ"

definition set_ir :: "SetOperationNode \<Rightarrow> IrData" where
  "set_ir e = setop_create emptyColumn emptyColumn
     (mkColumn (table_of []) (setOperation e) TYPE_INTEGER None) (mapStringToRelOp (setOperation e))"

definition base_ir :: "TableBaseNode \<Rightarrow> IrData" where
  "base_ir e = fetch_create
     (mkColumn (mkTable (tableName e) (Some (tableAlias e)) False []) [] TYPE_INTEGER None) True"

fun clause_ir :: "(string \<Rightarrow> 32 word option) \<Rightarrow> ast_val \<Rightarrow> IrData res" where
  "clause_ir stof (VSelect ds) = Inr (select_ir ds)"
| "clause_ir stof (VOrder ds) = Inr (order_ir ds)"
| "clause_ir stof (VGroup ds) = Inr (group_ir ds)"
| "clause_ir stof (VAgg e) = Inr (agg_ir e)"
| "clause_ir stof (VMap e) = map_ir e"
| "clause_ir stof (VWhere e) = Inr (where_ir stof e)"
| "clause_ir stof (VJoin e) = Inr (join_ir e)"
| "clause_ir stof (VSetOp e) = Inr (set_ir e)"
| "clause_ir stof (VBase e) = Inr (base_ir e)"
| "clause_ir stof (VLimit _) = Inr emptyIr"
| "clause_ir stof VEmpty = Inr emptyIr"

section \<open>The translation\<close>

text \<open>The last step of a set operation: its inputs are the first outputs of its children.\<close>

definition set_inputs :: "plan list \<Rightarrow> IrData \<Rightarrow> IrData res" where
  "set_inputs cs d =
     (if is_set d then
        bindE (atE cs 0) (\<lambda>c0. bindE (atE (outputCols (irData c0)) 0) (\<lambda>i0.
        bindE (atE cs 1) (\<lambda>c1. bindE (atE (outputCols (irData c1)) 0) (\<lambda>i1.
        bindE (atE (outputCols d) 0) (\<lambda>out.
          Inr (d\<lparr>inputColumns := [i0, i1],
            outputCols := (outputCols d)[0 := out\<lparr>columnType := columnType i0\<rparr>]\<rparr>))))))
      else Inr d)"

text \<open>\<open>children.push_back\<close> of a child that is present.\<close>

fun opt_list :: "'a option \<Rightarrow> 'a list" where
  "opt_list None = []"
| "opt_list (Some x) = [x]"

text \<open>\<open>None\<close> is the null pointer that \<open>astToIr\<close> returns for a null AST.\<close>

fun astToIr :: "(string \<Rightarrow> 32 word option) \<Rightarrow> ast \<Rightarrow> plan option res" where
  "astToIr stof Null = Inr None"
| "astToIr stof (ANode v l r) =
     bindE (clause_ir stof v) (\<lambda>d.
     bindE (astToIr stof l) (\<lambda>pl.
     bindE (astToIr stof r) (\<lambda>pr.
       let cs = opt_list pl @ opt_list pr
       in bindE (set_inputs cs d) (\<lambda>d'. Inr (Some (Plan d' cs))))))"


section \<open>What the translation guarantees\<close>

lemma clause_ok: "clause_ir stof v = Inr d \<Longrightarrow> ir_ok d"
  by (cases v)
     (auto simp: select_ir_def order_ir_def group_ir_def agg_ir_def map_ir_def where_ir_def join_ir_def
       set_ir_def base_ir_def Let_def split: option.splits if_splits)

lemma set_inputs_ok: "ir_ok d \<Longrightarrow> set_inputs cs d = Inr d' \<Longrightarrow> ir_ok d'"
  by (cases "opInfo d")
     (auto simp: set_inputs_def is_set_def ir_ok_def is_mat_def bindE_Inr_iff split: if_splits)


text \<open>The float conversion never decides anything: the catalog types no column as a float.\<close>

lemma clause_stof: "clause_ir stof v = clause_ir stof' v"
proof (cases v)
  case (VWhere w)
  have "parseValueByType stof x (getSSBColumnType t c) = parseValueByType stof' x (getSSBColumnType t c)" for x t c
    by (rule parseValue_catalog)
  with VWhere show ?thesis by (simp add: where_ir_def Let_def)
qed simp_all

text \<open>The plan of a query does not depend on how the library converts strings to floats.\<close>

lemma astToIr_stof: "astToIr stof a = astToIr stof' a"
proof (induction a)
  case (ANode v l r)
  then show ?case using clause_stof [of stof v stof'] by simp
qed simp

text \<open>All clauses of a tree in pre-order.\<close>

fun vals :: "ast \<Rightarrow> ast_val list" where
  "vals Null = []"
| "vals (ANode v l r) = v # vals l @ vals r"

text \<open>The arithmetic clause throws exactly when one of its columns is a string.\<close>

lemma map_ir_error:
  "(\<exists>d. map_ir e = Inr d) \<longleftrightarrow>
   getSSBColumnType (m_table1 e) (m_column1 e) \<noteq> TYPE_STRING \<and>
   getSSBColumnType (m_table2 e) (m_column2 e) \<noteq> TYPE_STRING"
  using column_type_cases [of "m_table1 e" "m_column1 e"] column_type_cases [of "m_table2 e" "m_column2 e"]
  by (auto simp: map_ir_def Let_def)

definition translatable :: "ast_val \<Rightarrow> bool" where
  "translatable v = (case v of
     VSetOp _ \<Rightarrow> False
   | VMap e \<Rightarrow> getSSBColumnType (m_table1 e) (m_column1 e) \<noteq> TYPE_STRING \<and>
       getSSBColumnType (m_table2 e) (m_column2 e) \<noteq> TYPE_STRING
   | _ \<Rightarrow> True)"

lemma translatable_clause: "translatable v \<Longrightarrow> \<exists>d. clause_ir stof v = Inr d"
  using map_ir_error by (cases v) (auto simp: translatable_def)

lemma clause_not_set: "translatable v \<Longrightarrow> clause_ir stof v = Inr d \<Longrightarrow> \<not> is_set d"
  by (cases v)
     (auto simp: translatable_def select_ir_def order_ir_def group_ir_def agg_ir_def map_ir_def
       where_ir_def join_ir_def base_ir_def Let_def is_set_def create_defs emptyIr_def
       split: option.splits if_splits)

lemma clause_base:
  "clause_ir stof v = Inr d \<Longrightarrow> (if base_fetch d then map (tname \<circ> ctable) (inputColumns d) else []) =
     (case v of VBase b \<Rightarrow> [tableName b] | _ \<Rightarrow> [])"
  by (cases v)
     (auto simp: select_ir_def order_ir_def group_ir_def agg_ir_def map_ir_def
       where_ir_def join_ir_def base_ir_def set_ir_def Let_def base_fetch_def create_defs emptyIr_def
       mkTable_def split: option.splits if_splits)

definition translated :: "(string \<Rightarrow> 32 word option) \<Rightarrow> ast \<Rightarrow> plan option \<Rightarrow> bool" where
  "translated stof a po \<longleftrightarrow> astToIr stof a = Inr po \<and>
     concat (map fetched_tables (opt_list po)) = base_tables a \<and>
     list_all2 (\<lambda>v d. clause_ir stof v = Inr d) (vals a) (concat (map nodes (opt_list po)))"

lemma translated_null: "translated stof Null None"
  by (simp add: translated_def)

lemma translated_node:
  assumes d: "clause_ir stof v = Inr d" "\<not> is_set d" and l: "translated stof l pl" and r: "translated stof r pr"
  shows "translated stof (ANode v l r) (Some (Plan d (opt_list pl @ opt_list pr)))"
proof -
  have "astToIr stof (ANode v l r) = Inr (Some (Plan d (opt_list pl @ opt_list pr)))"
    using d l r by (simp add: set_inputs_def translated_def)
  moreover have "fetched_tables (Plan d (opt_list pl @ opt_list pr)) = base_tables (ANode v l r)"
    using clause_base [OF d(1)] l r by (simp add: translated_def)
  moreover have "list_all2 (\<lambda>v d. clause_ir stof v = Inr d) (vals (ANode v l r))
      (nodes (Plan d (opt_list pl @ opt_list pr)))"
    using d l r by (simp add: translated_def list_all2_appendI)
  ultimately show ?thesis by (simp add: translated_def)
qed

lemma translated_plan:
  assumes "translated stof a (Some p)"
  shows "\<exists>p. astToIr stof a = Inr (Some p) \<and> fetched_tables p = base_tables a \<and>
    list_all2 (\<lambda>v d. clause_ir stof v = Inr d) (vals a) (nodes p)"
  using assms by (intro exI [of _ p]) (simp add: translated_def)

text \<open>C6 A query without set operations, whose arithmetic is over numeric columns, always
  translates: the plan has one node per clause, in the same order, each the translation of its
  clause, and fetches exactly the base tables of the query.\<close>

theorem astToIr_total:
  assumes "\<forall>v \<in> set (vals a). translatable v" and "a \<noteq> Null"
  shows "\<exists>p. astToIr stof a = Inr (Some p) \<and> fetched_tables p = base_tables a \<and>
    list_all2 (\<lambda>v d. clause_ir stof v = Inr d) (vals a) (nodes p)"
  using assms
proof (induction a)
  case (ANode v l r)
  obtain d where d: "clause_ir stof v = Inr d"
    using translatable_clause ANode.prems by fastforce
  then have ns: "\<not> is_set d" using clause_not_set ANode.prems by fastforce
  have sub: "\<forall>v \<in> set (vals l). translatable v" "\<forall>v \<in> set (vals r). translatable v"
    using ANode.prems(1) by simp_all
  obtain pl where l: "translated stof l pl"
    using translated_null ANode.IH(1) [OF sub(1)] by (cases "l = Null") (auto simp: translated_def)
  obtain pr where r: "translated stof r pr"
    using translated_null ANode.IH(2) [OF sub(2)] by (cases "r = Null") (auto simp: translated_def)
  show ?case
    by (rule translated_plan [OF translated_node [OF d ns l r]])
qed simp

text \<open>A query over one table, with a sum of a product of two of its columns.\<close>

definition sum_query :: ast where
  "sum_query = ANode (VAgg \<lparr>aggregateFunction = ''SUM'', a_alias = ''revenue'', a_table = ''MAP'',
       a_column = ''lo_extendedprice*lo_discount''\<rparr>)
     (ANode (VMap \<lparr>m_table1 = ''lineorder'', m_column1 = ''lo_extendedprice'', m_table2 = ''lineorder'',
       m_column2 = ''lo_discount'', m_operatorType = ''*'', m_value = []\<rparr>)
     (base_node ''lineorder'' ''lineorder'') Null) Null"

lemma sum_query_types:
  "getSSBColumnType ''lineorder'' ''lo_extendedprice'' = TYPE_INTEGER"
  "getSSBColumnType ''lineorder'' ''lo_discount'' = TYPE_INTEGER"
  by code_simp+

theorem astToIr_total_witness:
  "\<exists>p. astToIr (\<lambda>_. None) sum_query = Inr (Some p) \<and> fetched_tables p = base_tables sum_query \<and>
    list_all2 (\<lambda>v d. clause_ir (\<lambda>_. None) v = Inr d) (vals sum_query) (nodes p)"
  by (rule astToIr_total)
     (simp_all add: sum_query_def base_node_def translatable_def sum_query_types)


end
