(* ===== verification/Column_Setup.thy ===== *)
theory Column_Setup
  imports Plan_Node Transform_Helpers
begin

text \<open>
  \<open>ensureCorrectColumnSetup\<close> of \<open>src/ir/ir_post_processing.cpp\<close>: column names that are aliases
  of the enclosing \<open>SELECT\<close> are replaced by the column they stand for, known columns get their
  alias, and columns without a table get the pseudo table of an aggregate or a computed column.
  Only the input and output columns are rewritten: the order descriptions of a sort and the
  partner of a map keep their own copies.
\<close>

section \<open>The pass\<close>

type_synonym names = "string \<rightharpoonup> string"

text \<open>\<open>aliasToName\<close> and \<open>nameToAlias\<close>, extended by the result columns of a select.\<close>

fun collect_aliases :: "TableColumn list \<Rightarrow> names \<times> names \<Rightarrow> names \<times> names" where
  "collect_aliases [] m = m"
| "collect_aliases (c # cs) (a2n, n2a) = (case calias c of
     Some al \<Rightarrow> if al \<noteq> [] then collect_aliases cs (a2n(al \<mapsto> columnName c), n2a(columnName c \<mapsto> al))
                else collect_aliases cs (a2n, n2a)
   | None \<Rightarrow> collect_aliases cs (a2n, n2a))"

definition node_aliases :: "IrData \<Rightarrow> names \<times> names \<Rightarrow> names \<times> names" where
  "node_aliases d m = (if is_select d then collect_aliases (inputColumns d) m else m)"

definition resolve_alias :: "names \<Rightarrow> TableColumn \<Rightarrow> TableColumn" where
  "resolve_alias a2n c = (case a2n (columnName c) of
     Some n \<Rightarrow> c\<lparr>calias := Some (columnName c), columnName := n\<rparr>
   | None \<Rightarrow> c)"

definition set_known_alias :: "names \<Rightarrow> TableColumn \<Rightarrow> TableColumn" where
  "set_known_alias n2a c = (case n2a (columnName c) of
     Some a \<Rightarrow> c\<lparr>calias := Some a\<rparr>
   | None \<Rightarrow> c)"

definition set_pseudo_table :: "TableColumn \<Rightarrow> TableColumn" where
  "set_pseudo_table c =
     (if tname (ctable c) = [] \<or> tname (ctable c) = ''Default'' then
        if mapStringToAggFunc (columnName c) \<noteq> None then c\<lparr>ctable := set_tname ''AGG'' (ctable c)\<rparr>
        else if contains_any arith_chars (columnName c) then c\<lparr>ctable := set_tname ''MAP'' (ctable c)\<rparr>
        else c
      else c)"

definition applyAlias :: "names \<times> names \<Rightarrow> TableColumn \<Rightarrow> TableColumn" where
  "applyAlias m c = set_pseudo_table (set_known_alias (snd m) (resolve_alias (fst m) c))"

definition apply_aliases :: "names \<times> names \<Rightarrow> IrData \<Rightarrow> IrData" where
  "apply_aliases m d =
     d\<lparr>inputColumns := map (applyAlias m) (inputColumns d), outputCols := map (applyAlias m) (outputCols d)\<rparr>"

text \<open>A select below opens a scope of its own.\<close>

fun ensureCorrectColumnSetup :: "plan \<Rightarrow> names \<times> names \<Rightarrow> plan" where
  "ensureCorrectColumnSetup (Plan d cs) m =
     (let m' = node_aliases d m in
      Plan (apply_aliases m' d)
        (map (\<lambda>c. if is_select (irData c) then ensureCorrectColumnSetup c (Map.empty, Map.empty)
                  else ensureCorrectColumnSetup c m') cs))"

section \<open>The operators stay\<close>

lemma apply_aliases_simps [simp]:
  "opInfo (apply_aliases m d) = opInfo d" "outputsPosList (apply_aliases m d) = outputsPosList d"
  "outputsMatVals (apply_aliases m d) = outputsMatVals d"
  by (simp_all add: apply_aliases_def)

lemma apply_aliases_ok: "ir_ok d \<Longrightarrow> ir_ok (apply_aliases m d)"
  by (cases "opInfo d") (auto simp: ir_ok_def is_mat_def apply_aliases_def)

lemma apply_aliases_is [simp]:
  "is_select (apply_aliases m d) = is_select d" "is_join (apply_aliases m d) = is_join d"
  "is_group (apply_aliases m d) = is_group d" "is_agg (apply_aliases m d) = is_agg d"
  by (simp_all add: is_op_defs)

lemma ensure_irData: "irData (ensureCorrectColumnSetup p m) = apply_aliases (node_aliases (irData p) m) (irData p)"
  by (cases p) (simp add: Let_def)

lemma ensure_ok: "plan_ok p \<Longrightarrow> plan_ok (ensureCorrectColumnSetup p m)"
proof (induction p m rule: ensureCorrectColumnSetup.induct)
  case (1 d cs m)
  then show ?case
    using "1.IH"(1) [OF refl] "1.IH"(2) [OF refl] by (auto simp: Let_def apply_aliases_ok)
qed

lemma ensure_ops: "map opInfo (nodes (ensureCorrectColumnSetup p m)) = map opInfo (nodes p)"
proof (induction p m rule: ensureCorrectColumnSetup.induct)
  case (1 d cs m)
  have "map opInfo (nodes (if is_select (irData c) then ensureCorrectColumnSetup c (Map.empty, Map.empty)
      else ensureCorrectColumnSetup c (node_aliases d m))) = map opInfo (nodes c)" if "c \<in> set cs" for c
    using "1.IH"(1) [OF refl that] "1.IH"(2) [OF refl that] by simp
  then show ?case by (simp add: Let_def map_concat comp_def cong: map_cong)
qed

section \<open>Aliases are resolved\<close>

text \<open>The nodes of one scope: down to, and excluding, the next select.\<close>

fun scope_nodes :: "plan \<Rightarrow> IrData list" where
  "scope_nodes (Plan d cs) = d # concat (map (\<lambda>c. if is_select (irData c) then [] else scope_nodes c) cs)"

lemma applyAlias_name:
  "columnName (applyAlias m c) = (case fst m (columnName c) of Some n \<Rightarrow> n | None \<Rightarrow> columnName c)"
  by (auto simp: applyAlias_def set_pseudo_table_def set_known_alias_def resolve_alias_def split: option.splits)

lemma applyAlias_resolved:
  assumes "\<forall>a n. fst m a = Some n \<longrightarrow> fst m n = None"
  shows "fst m (columnName (applyAlias m c)) = None"
  using assms by (auto simp: applyAlias_name split: option.splits)

lemma apply_aliases_resolved:
  assumes "\<forall>a n. fst m a = Some n \<longrightarrow> fst m n = None"
    and "c \<in> set (inputColumns (apply_aliases m d)) \<union> set (outputCols (apply_aliases m d))"
  shows "fst m (columnName c) = None"
  using assms applyAlias_resolved [OF assms(1)] by (auto simp: apply_aliases_def)

lemma scope_nodes_children:
  "set (scope_nodes (Plan d cs)) = insert d (\<Union>c \<in> {c \<in> set cs. \<not> is_select (irData c)}. set (scope_nodes c))"
  by auto

lemma ensure_scope_aux:
  assumes "\<forall>a n. fst m a = Some n \<longrightarrow> fst m n = None" "\<not> is_select (irData p)"
    and "d \<in> set (scope_nodes (ensureCorrectColumnSetup p m))"
    and "c \<in> set (inputColumns d) \<union> set (outputCols d)"
  shows "fst m (columnName c) = None"
  using assms
proof (induction p m arbitrary: d rule: ensureCorrectColumnSetup.induct)
  case (1 e cs m)
  then have m: "node_aliases e m = m" by (simp add: node_aliases_def)
  then consider "d = apply_aliases m e" |
      q where "q \<in> set cs" "\<not> is_select (irData q)" "d \<in> set (scope_nodes (ensureCorrectColumnSetup q m))"
    using "1.prems"(3) by (auto simp: Let_def ensure_irData node_aliases_def split: if_splits)
  then show ?case
  proof cases
    case 1
    then show ?thesis using apply_aliases_resolved "1.prems"(1,4) by blast
  next
    case 2
    then show ?thesis using "1.IH"(2) [OF refl 2(1,2)] "1.prems"(1,4) m by auto
  qed
qed


text \<open>A select over a sort that names the alias of the sum.\<close>

definition rev_col :: TableColumn where
  "rev_col = mkColumn (table_of ''AGG'') ''SUM(lo_revenue)'' TYPE_INTEGER (Some ''revenue'')"

definition rev_sort :: IrData where
  "rev_sort = sort_create [\<lparr>column = mkColumn (table_of ''Default'') ''revenue'' TYPE_INTEGER None,
     orderType = False, nullordering = False\<rparr>] (mkColumn (table_of ''SORT'') ''D.revenue'' TYPE_INTEGER None) None"


end
