(* ===== verification/Tree_Optimizations.thy ===== *)
theory Tree_Optimizations
  imports Plan_Node Catalog
begin

text \<open>
  The passes of \<open>src/ir_optimizations/ir_optimizations.cpp\<close> that run while the plan is a tree:
  \<open>placeSemiJoins\<close> turns a join whose one side is only a key filter into a semi join,
  \<open>mergeSortIntoGroupIfSubset\<close> lets a grouping do the sorting above it, and
  \<open>moveAggIntoGroup\<close> lets a grouping compute the only sum below it.
\<close>

section \<open>Semi joins\<close>

definition node_tables :: "IrData \<Rightarrow> Table set" where
  "node_tables d = set (map ctable (inputColumns d))"

text \<open>The data of a join after the pass: the semi join when one side is not needed later and its
  column is unique, with the two sides swapped when the inner one is needed. A join with fewer
  than two columns, which no constructor builds, is left alone here.\<close>

definition semi_data :: "IrData \<Rightarrow> Table set \<Rightarrow> IrData" where
  "semi_data d needed = (case (semijoin_of_join d, inputColumns d) of
     (Some s, inner # outer # _) \<Rightarrow>
       let innerNeeded = ctable inner \<in> needed; outerNeeded = ctable outer \<in> needed in
       if \<not> (innerNeeded \<and> outerNeeded) then
         let discard = (if innerNeeded then outer else inner) in
         if isUnique (tname (ctable discard)) (columnName discard) then
           if innerNeeded \<and> \<not> outerNeeded then
             s\<lparr>inputColumns := swap01 (inputColumns s), outputCols := swap01 (outputCols s)\<rparr>
           else s
         else d
       else d
   | _ \<Rightarrow> d)"

fun placeSemiJoins :: "plan \<Rightarrow> Table set \<Rightarrow> plan" where
  "placeSemiJoins (Plan d cs) needed =
     Plan (semi_data d needed) (map (\<lambda>c. placeSemiJoins c (needed \<union> node_tables d)) cs)"

definition is_semijoin :: "IrData \<Rightarrow> bool" where
  "is_semijoin d \<longleftrightarrow> is_OpSemiJoin (opInfo d)"

lemma semi_data_other: "\<not> is_join d \<Longrightarrow> semi_data d needed = d"
  by (cases "opInfo d") (simp_all add: semi_data_def semijoin_of_join_def is_join_def)

lemma semi_data_tables: "node_tables (semi_data d needed) = node_tables d"
  by (auto simp: semi_data_def semijoin_of_join_def node_tables_def Let_def swap01_def
      split: option.splits list.splits OpInfo.splits if_splits)

lemma semi_data_ok: "ir_ok d \<Longrightarrow> ir_ok (semi_data d needed)"
  by (auto simp: semi_data_def semijoin_of_join_def ir_ok_def is_mat_def Let_def
      split: option.splits list.splits OpInfo.splits if_splits)

lemma placeSemiJoins_ok: "plan_ok p \<Longrightarrow> plan_ok (placeSemiJoins p needed)"
  by (induction p needed rule: placeSemiJoins.induct) (auto simp: semi_data_ok)

lemma placeSemiJoins_data: "irData (placeSemiJoins p needed) = semi_data (irData p) needed"
  by (cases p) simp

text \<open>The joins and semi joins of a plan, judged against the tables needed above them: a semi
  join discards its inner side, which is a unique key of a table nothing above reads; a join that
  is left reads both tables later or would discard a column that is not unique.\<close>

definition join_side_free :: "TableColumn \<Rightarrow> Table set \<Rightarrow> bool" where
  "join_side_free c needed \<longleftrightarrow>
     ctable c \<notin> needed \<and> isUnique (tname (ctable c)) (columnName c)"

definition semi_sound :: "IrData \<Rightarrow> Table set \<Rightarrow> bool" where
  "semi_sound d needed \<longleftrightarrow>
     (is_semijoin d \<longrightarrow> (\<exists>i u. inputColumns d = [i, u] \<and> outputCols d = [i, u] \<and> join_side_free i needed)) \<and>
     (is_join d \<longrightarrow> (\<exists>i u. inputColumns d = [i, u] \<and> \<not> join_side_free i needed \<and>
        (join_side_free u needed \<longrightarrow> ctable i \<notin> needed)))"

fun semis_sound :: "plan \<Rightarrow> Table set \<Rightarrow> bool" where
  "semis_sound (Plan d cs) needed \<longleftrightarrow>
     semi_sound d needed \<and> (\<forall>c \<in> set cs. semis_sound c (needed \<union> node_tables d))"

text \<open>The columns of a join before the pass: two, passed through.\<close>

definition join_columns :: "IrData \<Rightarrow> bool" where
  "join_columns d \<longleftrightarrow> (is_join d \<longrightarrow> length (inputColumns d) = 2 \<and> outputCols d = inputColumns d)"

lemma semi_data_sound:
  assumes "join_columns d" "\<not> is_semijoin d"
  shows "semi_sound (semi_data d needed) needed"
proof (cases "is_join d")
  case True
  then obtain j where j: "opInfo d = OpJoin j" by (auto simp: is_join_def is_OpJoin_def)
  from True assms obtain i u where c: "inputColumns d = [i, u]" "outputCols d = [i, u]"
    by (auto simp: join_columns_def length_Suc_conv numeral_2_eq_2)
  show ?thesis
    using j c by (auto simp: semi_data_def semijoin_of_join_def semi_sound_def join_side_free_def Let_def
        is_semijoin_def is_join_def)
next
  case False
  then show ?thesis using assms by (simp add: semi_data_other semi_sound_def)
qed

text \<open>C8 Semi joins are placed where, and only where, they are justified: in the resulting plan
  every semi join discards the inner side, a unique key of a table that no operator above reads,
  and every join that remains has no inner side to discard, and an outer side to discard only if its
  inner table is not read above either (a case the pass does not look at).\<close>

theorem placeSemiJoins_sound:
  assumes "\<forall>d \<in> set (nodes p). join_columns d \<and> \<not> is_semijoin d"
  shows "semis_sound (placeSemiJoins p needed) needed"
  using assms
proof (induction p needed rule: placeSemiJoins.induct)
  case (1 d cs needed)
  then show ?case by (auto simp: semi_data_tables semi_data_sound)
qed

text \<open>Why that is enough: joining with a table on a unique column and keeping only the other
  side gives each row at most once, in the same order, exactly when it has a partner.\<close>

lemma unique_filter:
  "distinct (map h S) \<Longrightarrow> length (filter (\<lambda>s. k = h s) S) = (if \<exists>s \<in> set S. k = h s then 1 else 0)"
  by (induction S) (auto simp: image_iff filter_empty_conv)

lemma join_on_unique_is_semijoin:
  assumes "distinct (map h S)"
  shows "map fst (filter (\<lambda>(r, s). k r = h s) (List.product R S)) = filter (\<lambda>r. \<exists>s \<in> set S. k r = h s) R"
proof (induction R)
  case (Cons r R)
  have "map fst (filter (\<lambda>(r, s). k r = h s) (map (Pair r) S)) = replicate (length (filter (\<lambda>s. k r = h s) S)) r"
    by (induction S) auto
  with Cons show ?case using unique_filter [OF assms, of "k r"] by auto
qed simp

section \<open>Sorting inside a grouping\<close>

definition sorts_of :: "IrData \<Rightarrow> OrderDescription list" where
  "sorts_of d = (case opInfo d of OpSort s \<Rightarrow> columnList s | _ \<Rightarrow> [])"

text \<open>A child that the sort \<open>d\<close> can be merged into, and what the merge writes into it: the sort
  columns first, in their directions, then the remaining grouping columns in ascending order.\<close>

definition mergeable :: "IrData \<Rightarrow> IrData \<Rightarrow> bool" where
  "mergeable d g \<longleftrightarrow> is_sort d \<and> is_group g \<and>
     (\<forall>c \<in> set (inputColumns d). columns_contain (column_set (inputColumns g)) c)"

definition remaining_groups :: "IrData \<Rightarrow> IrData \<Rightarrow> TableColumn list" where
  "remaining_groups d g =
     filter (\<lambda>c. \<not> columns_contain (column_set (inputColumns d)) c) (inputColumns g)"

definition merge_data :: "IrData \<Rightarrow> IrData \<Rightarrow> IrData" where
  "merge_data d g = (case opInfo g of
     OpGroup go \<Rightarrow>
       g\<lparr>inputColumns := inputColumns d @ remaining_groups d g,
         opInfo := OpGroup (go\<lparr>sortOrders := map orderType (sorts_of d) @
           replicate (length (remaining_groups d g)) True\<rparr>)\<rparr>
   | _ \<Rightarrow> g)"

definition merge_child :: "IrData \<Rightarrow> plan \<Rightarrow> plan" where
  "merge_child d c = (if mergeable d (irData c) then Plan (merge_data d (irData c)) (children c) else c)"

lemma size_merge_child [simp]: "size (merge_child d c) = size c"
  by (cases c) (simp add: merge_child_def)

text \<open>The parent's slot is overwritten for every child that merges, so the last one stays; the
  recursion then runs over the children of the old node, the merged ones included.\<close>

function mergeSortIntoGroupIfSubset :: "plan \<Rightarrow> plan" where
  "mergeSortIntoGroupIfSubset (Plan d cs) =
     (let cs' = map mergeSortIntoGroupIfSubset (map (merge_child d) cs)
      in case filter (\<lambda>(c, c'). mergeable d (irData c)) (zip cs cs') of
           [] \<Rightarrow> Plan d cs'
         | ms \<Rightarrow> snd (last ms))"
  by pat_completeness auto
termination
proof (relation "measure size", simp)
  fix d :: IrData and cs x
  assume "x \<in> set (map (merge_child d) cs)"
  then obtain c where "c \<in> set cs" "x = merge_child d c" by auto
  then show "(x, Plan d cs) \<in> measure size"
    using size_list_estimation' [of c cs "size c" size] by (simp add: less_Suc_eq_le)
qed

declare mergeSortIntoGroupIfSubset.simps [simp del]


text \<open>The columns every plan of the AST front end has: sorts without an existing index, groups
  without an aggregation.\<close>

definition plain :: "IrData \<Rightarrow> bool" where
  "plain d = (case opInfo d of
     OpSort s \<Rightarrow> existingIdx s = None | OpGroup g \<Rightarrow> \<not> hasAgg g | _ \<Rightarrow> True)"

lemma is_sortE: "is_sort d \<Longrightarrow> (\<And>s. opInfo d = OpSort s \<Longrightarrow> P) \<Longrightarrow> P"
  by (auto simp: is_sort_def is_OpSort_def)

lemma is_groupE: "is_group d \<Longrightarrow> (\<And>g. opInfo d = OpGroup g \<Longrightarrow> P) \<Longrightarrow> P"
  by (auto simp: is_group_def is_OpGroup_def)

lemma sorts_length:
  "is_sort d \<Longrightarrow> ir_ok d \<Longrightarrow> plain d \<Longrightarrow> length (inputColumns d) = length (sorts_of d)"
  by (auto elim!: is_sortE simp: ir_ok_def is_mat_def sorts_of_def plain_def)

lemma merge_data_ok:
  assumes "mergeable d g" "ir_ok d" "plain d" "ir_ok g" "plain g"
  shows "ir_ok (merge_data d g) \<and> plain (merge_data d g)"
proof -
  have "is_sort d" "is_group g" using assms(1) by (auto simp: mergeable_def)
  then show ?thesis
    using sorts_length [OF _ assms(2,3)] assms(4,5)
    by (auto elim!: is_groupE simp: ir_ok_def is_mat_def merge_data_def plain_def)
qed

definition plan_plain :: "plan \<Rightarrow> bool" where
  "plan_plain p \<longleftrightarrow> (\<forall>d \<in> set (nodes p). plain d)"

lemma plan_plain_node [simp]: "plan_plain (Plan d cs) \<longleftrightarrow> plain d \<and> (\<forall>c \<in> set cs. plan_plain c)"
  by (auto simp: plan_plain_def)

lemma merge_child_ok:
  assumes "ir_ok d" "plain d" "plan_ok c" "plan_plain c"
  shows "plan_ok (merge_child d c) \<and> plan_plain (merge_child d c)"
  using assms merge_data_ok by (cases c) (auto simp: merge_child_def)

lemma merged_last:
  assumes "filter P (zip xs (map f xs)) \<noteq> []"
  shows "snd (last (filter P (zip xs (map f xs)))) \<in> f ` set xs"
proof -
  have "last (filter P (zip xs (map f xs))) \<in> set (zip xs (map f xs))"
    using last_in_set [OF assms] by auto
  then show ?thesis by (auto simp: set_zip)
qed

text \<open>Whatever is merged, the plan stays well formed.\<close>

lemma mergeSort_ok:
  "plan_ok p \<Longrightarrow> plan_plain p \<Longrightarrow>
   plan_ok (mergeSortIntoGroupIfSubset p) \<and> plan_plain (mergeSortIntoGroupIfSubset p)"
proof (induction p rule: mergeSortIntoGroupIfSubset.induct)
  case (1 d cs)
  let ?f = "mergeSortIntoGroupIfSubset \<circ> merge_child d"
  let ?ms = "filter (\<lambda>(c, c'). mergeable d (irData c)) (zip cs (map ?f cs))"
  have ok: "\<forall>x \<in> ?f ` set cs. plan_ok x \<and> plan_plain x"
    using 1 merge_child_ok [of d] by auto
  show ?case
  proof (cases "?ms = []")
    case True
    then show ?thesis
      using ok "1.prems" by (simp add: mergeSortIntoGroupIfSubset.simps [of d cs] Let_def comp_def)
  next
    case False
    then have "mergeSortIntoGroupIfSubset (Plan d cs) = snd (last ?ms)"
      by (simp add: mergeSortIntoGroupIfSubset.simps [of d cs] Let_def comp_def split: list.splits)
    then show ?thesis using bspec [OF ok merged_last [OF False]] by (simp only:)
  qed
qed

lemma mergeSort_one:
  "mergeSortIntoGroupIfSubset (Plan d [Plan g cs]) =
     (if mergeable d g then mergeSortIntoGroupIfSubset (Plan (merge_data d g) cs)
      else Plan d [mergeSortIntoGroupIfSubset (Plan g cs)])"
  by (simp add: mergeSortIntoGroupIfSubset.simps [of d] merge_child_def)

lemma mergeSort_group:
  "is_group g \<Longrightarrow> mergeSortIntoGroupIfSubset (Plan g cs) = Plan g (map mergeSortIntoGroupIfSubset cs)"
proof -
  assume "is_group g"
  then have "\<And>h. \<not> mergeable g h" by (auto simp: mergeable_def is_group_def is_sort_def is_OpGroup_def)
  then show ?thesis
    by (simp add: mergeSortIntoGroupIfSubset.simps [of g] merge_child_def Let_def)
qed

lemma split_keys:
  assumes "distinct (map k xs)" "distinct (map k ys)" "k ` set ys \<subseteq> k ` set xs"
  shows "mset (map k ys) + mset (map k (filter (\<lambda>x. k x \<notin> k ` set ys) xs)) = mset (map k xs)"
proof -
  let ?rest = "filter (\<lambda>x. k x \<notin> k ` set ys) xs"
  have d: "distinct (map k (ys @ ?rest))"
    using assms(1,2) distinct_map_filter [OF assms(1)] by (auto, metis image_eqI)
  have "k ` set xs \<subseteq> k ` set ys \<union> k ` set ?rest" by auto
  then have "set (map k (ys @ ?rest)) = set (map k xs)"
    using assms(3) by auto
  then have "mset (map k (ys @ ?rest)) = mset (map k xs)"
    by (rule iffD1 [OF set_eq_iff_mset_eq_distinct [OF d assms(1)]])
  then show ?thesis by simp
qed

text \<open>C9 A sort whose columns are among the grouping columns disappears into the grouping: the
  grouping keeps its columns up to their order, the sort columns come first with the directions
  of the sort, its outputs and subplans stay, and it is still well formed.\<close>

theorem sort_merged_into_group:
  assumes "is_sort d" "is_group g" "ir_ok d" "plain d" "ir_ok g" "plain g"
    and "distinct (map col_key (inputColumns d))" "distinct (map col_key (inputColumns g))"
    and "col_key ` set (inputColumns d) \<subseteq> col_key ` set (inputColumns g)"
  shows "\<exists>g' so. mergeSortIntoGroupIfSubset (Plan d [Plan g cs]) = Plan g' (map mergeSortIntoGroupIfSubset cs) \<and>
    ir_ok g' \<and> outputCols g' = outputCols g \<and>
    mset (map col_key (inputColumns g')) = mset (map col_key (inputColumns g)) \<and>
    opInfo g' = OpGroup so \<and> (\<exists>rest. inputColumns g' = inputColumns d @ rest \<and>
      sortOrders so = map orderType (sorts_of d) @ replicate (length rest) True)"
proof -
  have m: "mergeable d g"
    using assms by (auto simp: mergeable_def columns_contain_def column_set_keys)
  have rest: "remaining_groups d g = filter (\<lambda>x. col_key x \<notin> col_key ` set (inputColumns d)) (inputColumns g)"
    by (simp add: remaining_groups_def columns_contain_def column_set_keys)
  obtain go where go: "opInfo g = OpGroup go" using assms(2) by (rule is_groupE)
  then have g': "inputColumns (merge_data d g) = inputColumns d @ remaining_groups d g"
    "outputCols (merge_data d g) = outputCols g" "is_group (merge_data d g)"
    "opInfo (merge_data d g) = OpGroup (go\<lparr>sortOrders := map orderType (sorts_of d) @
       replicate (length (remaining_groups d g)) True\<rparr>)"
    by (simp_all add: merge_data_def is_group_def)
  have "mset (map col_key (inputColumns (merge_data d g))) = mset (map col_key (inputColumns g))"
    using split_keys [OF assms(8,7,9)] g'(1) rest by simp
  then show ?thesis
    using m mergeSort_one [of d g cs] mergeSort_group [OF g'(3)] merge_data_ok [OF m assms(3-6)] g' by auto
qed

section \<open>Aggregating inside a grouping\<close>

text \<open>For every child that is a sum, the group takes over its two columns and the child is
  replaced by the child's own first child (undefined when there is none).\<close>

fun absorb_sums :: "IrData \<Rightarrow> plan list \<Rightarrow> (IrData \<times> plan list) option" where
  "absorb_sums d [] = Some (d, [])"
| "absorb_sums d (c # cs) = (case opInfo (irData c) of
     OpAgg a \<Rightarrow>
       if aggFunc a = AGG_SUM then
         do { i \<leftarrow> at (inputColumns (irData c)) 0; r \<leftarrow> at (outputCols (irData c)) 0;
              c' \<leftarrow> at (children c) 0;
              (d', cs') \<leftarrow> absorb_sums (group_setAgg i r d) cs;
              Some (d', c' # cs') }
       else do { (d', cs') \<leftarrow> absorb_sums d cs; Some (d', c # cs') }
   | _ \<Rightarrow> do { (d', cs') \<leftarrow> absorb_sums d cs; Some (d', c # cs') })"

text \<open>The number of aggregations below and at the node, and the new node.\<close>

fun moveAggIntoGroup :: "plan \<Rightarrow> (nat \<times> plan) option"
and moveAgg_list :: "plan list \<Rightarrow> (nat \<times> plan list) option" where
  "moveAggIntoGroup (Plan d cs) =
     do { (n, cs') \<leftarrow> moveAgg_list cs;
          if is_agg d then Some (Suc n, Plan d cs')
          else if is_group d \<and> n = 1 then
            do { (d', cs'') \<leftarrow> absorb_sums d cs'; Some (n, Plan d' cs'') }
          else if is_select d then Some (0, Plan d cs')
          else Some (n, Plan d cs') }"
| "moveAgg_list [] = Some (0, [])"
| "moveAgg_list (c # cs) =
     do { (m, c') \<leftarrow> moveAggIntoGroup c; (n, cs') \<leftarrow> moveAgg_list cs; Some (m + n, c' # cs') }"


text \<open>Aggregations of one scope: below a select they do not count.\<close>

fun scope_aggs :: "plan \<Rightarrow> nat" where
  "scope_aggs (Plan d cs) =
     (if is_agg d then Suc (sum_list (map scope_aggs cs))
      else if is_select d then 0 else sum_list (map scope_aggs cs))"

text \<open>Every aggregation has something to aggregate.\<close>

fun agg_fed :: "plan \<Rightarrow> bool" where
  "agg_fed (Plan d cs) \<longleftrightarrow> (is_agg d \<longrightarrow> cs \<noteq> []) \<and> (\<forall>c \<in> set cs. agg_fed c)"

lemma ir_ok_agg: "ir_ok d \<Longrightarrow> opInfo d = OpAgg a \<Longrightarrow> \<exists>i r. inputColumns d = [i] \<and> outputCols d = [r]"
  by (auto simp: ir_ok_def is_mat_def length_Suc_conv)

lemma group_setAgg_is_group: "is_group d \<Longrightarrow> is_group (group_setAgg i r d)"
  by (cases "opInfo d") (auto simp: group_setAgg_def is_group_def)

lemma absorb_sums_ok:
  assumes "ir_ok d" "is_group d" "\<forall>c \<in> set cs. plan_ok c \<and> agg_fed c"
  shows "\<exists>d' cs'. absorb_sums d cs = Some (d', cs') \<and> ir_ok d' \<and> is_group d' \<and> (\<forall>c \<in> set cs'. plan_ok c \<and> agg_fed c)"
  using assms
proof (induction cs arbitrary: d)
  case (Cons c cs)
  show ?case
  proof (cases "\<exists>a. opInfo (irData c) = OpAgg a \<and> aggFunc a = AGG_SUM")
    case True
    then obtain a where a: "opInfo (irData c) = OpAgg a" "aggFunc a = AGG_SUM" by blast
    obtain e ds where c: "c = Plan e ds" by (cases c)
    then obtain i r where ir: "inputColumns e = [i]" "outputCols e = [r]"
      using ir_ok_agg [of e] a Cons.prems(3) by auto
    obtain x xs where ds: "ds = x # xs" "plan_ok x" "agg_fed x"
      using Cons.prems(3) a c by (cases ds) (auto simp: is_agg_def)
    from Cons.IH [OF group_setAgg_ok [OF Cons.prems(1)] group_setAgg_is_group [OF Cons.prems(2)], of i r]
      Cons.prems(3)
    obtain d' cs' where r: "absorb_sums (group_setAgg i r d) cs = Some (d', cs')" "ir_ok d'" "is_group d'"
      "\<forall>c \<in> set cs'. plan_ok c \<and> agg_fed c" by auto
    then show ?thesis using a c ir ds by (simp add: option_bind_eq_Some at_def)
  next
    case False
    obtain d' cs' where r: "absorb_sums d cs = Some (d', cs')" "ir_ok d'" "is_group d'"
      "\<forall>c \<in> set cs'. plan_ok c \<and> agg_fed c" using Cons.IH [OF Cons.prems(1,2)] Cons.prems(3) by auto
    then have "absorb_sums d (c # cs) = Some (d', c # cs')"
      using False by (cases "opInfo (irData c)") auto
    then show ?thesis using r Cons.prems(3) by auto
  qed
qed simp

lemma moveAgg_ok:
  "plan_ok p \<Longrightarrow> agg_fed p \<Longrightarrow>
   \<exists>p'. moveAggIntoGroup p = Some (scope_aggs p, p') \<and> plan_ok p' \<and> agg_fed p'"
  "\<forall>c \<in> set cs. plan_ok c \<and> agg_fed c \<Longrightarrow>
   \<exists>cs'. moveAgg_list cs = Some (sum_list (map scope_aggs cs), cs') \<and> length cs' = length cs \<and>
     (\<forall>c \<in> set cs'. plan_ok c \<and> agg_fed c)"
proof (induction p and cs rule: moveAggIntoGroup_moveAgg_list.induct)
  case (1 d cs)
  then obtain cs' where l: "moveAgg_list cs = Some (sum_list (map scope_aggs cs), cs')"
    "length cs' = length cs" "\<forall>c \<in> set cs'. plan_ok c \<and> agg_fed c" and d: "ir_ok d" "is_agg d \<longrightarrow> cs \<noteq> []"
    by auto
  have ne: "cs = [] \<longleftrightarrow> cs' = []" using l(2) by auto
  have ex: "\<not> is_agg d" "\<not> is_select d" if "is_group d"
    using that by (auto elim!: is_groupE simp: is_agg_def is_select_def)
  show ?case
  proof (cases "is_group d \<and> sum_list (map scope_aggs cs) = 1")
    case True
    then obtain d' cs'' where "absorb_sums d cs' = Some (d', cs'')" "ir_ok d'" "is_group d'"
      "\<forall>c \<in> set cs''. plan_ok c \<and> agg_fed c"
      using absorb_sums_ok [OF d(1) _ l(3)] by blast
    moreover from \<open>is_group d'\<close> have "\<not> is_agg d'" by (auto elim!: is_groupE simp: is_agg_def)
    ultimately show ?thesis using True ex l(1) by simp
  next
    case False
    then show ?thesis using l d ne by auto
  qed
next
  case (3 c cs)
  obtain c' where c: "moveAggIntoGroup c = Some (scope_aggs c, c')" "plan_ok c'" "agg_fed c'"
    using "3.IH"(1) "3.prems" by auto
  obtain cs' where "moveAgg_list cs = Some (sum_list (map scope_aggs cs), cs')" "length cs' = length cs"
    "\<forall>c \<in> set cs'. plan_ok c \<and> agg_fed c"
    using "3.IH"(2) [OF c(1) refl] "3.prems" by auto
  then show ?case using c by simp
qed simp

text \<open>C10 Moving the sum always succeeds on a plan whose aggregations have an input, reports the
  number of aggregations of the scope, and returns a well-formed plan of the same kind.\<close>

theorem moveAgg_total:
  assumes "plan_ok p" "agg_fed p"
  shows "\<exists>p'. moveAggIntoGroup p = Some (scope_aggs p, p') \<and> plan_ok p' \<and> agg_fed p'"
  by (rule moveAgg_ok(1) [OF assms])

text \<open>C11 A grouping directly above the only aggregation of its scope, a sum, takes it over: the
  aggregation node is gone, its input hangs below the grouping, and the grouping reads the summed
  column and outputs the sum.\<close>

theorem group_absorbs_sum:
  assumes "is_group g" "opInfo a = OpAgg \<lparr>aggFunc = AGG_SUM\<rparr>" "inputColumns a = [i]" "outputCols a = [r]"
    and "moveAggIntoGroup x = Some (0, x')"
  shows "moveAggIntoGroup (Plan g [Plan a [x]]) = Some (1, Plan (group_setAgg i r g) [x']) \<and>
    group_aggCol (group_setAgg i r g) = Some i \<and> group_aggResultCol (group_setAgg i r g) = Some r"
proof -
  have "is_agg a" "\<not> is_agg g" using assms(1,2) by (auto elim!: is_groupE simp: is_agg_def)
  then show ?thesis using assms group_setAgg_get [OF assms(1), of i r] by (simp add: at_def)
qed

text \<open>A grouping that does not have exactly one aggregation below it, or whose only child is
  not a sum, keeps its columns and its children.\<close>

lemma group_keeps_aggregations:
  assumes "is_group g" "moveAggIntoGroup c = Some (n, c')"
    and "n \<noteq> 1 \<or> (\<forall>a. opInfo (irData c') = OpAgg a \<longrightarrow> aggFunc a \<noteq> AGG_SUM)"
  shows "moveAggIntoGroup (Plan g [c]) = Some (n, Plan g [c'])"
proof -
  have "\<not> is_agg g" "\<not> is_select g" using assms(1) by (auto elim!: is_groupE simp: is_agg_def is_select_def)
  moreover have "absorb_sums g [c'] = Some (g, [c'])" if "n = 1"
    using assms(3) that by (cases "opInfo (irData c')") auto
  ultimately show ?thesis using assms(1,2) by simp
qed


section \<open>Witnesses\<close>

definition tcol :: "string \<Rightarrow> string \<Rightarrow> TableColumn" where
  "tcol t c = mkColumn (table_of t) c TYPE_INTEGER None"

definition base_plan :: "string \<Rightarrow> plan" where
  "base_plan t = Plan (fetch_create (tcol t []) True) []"

definition supp_join :: plan where
  "supp_join = Plan (join_create (tcol ''lineorder'' ''lo_suppkey'') (tcol ''supplier'' ''s_suppkey'')
     (tcol ''JOIN'' ''j'') INNER_JOIN COMP_EQ) [base_plan ''lineorder'', base_plan ''supplier'']"

definition year_group :: IrData where
  "year_group = group_create [tcol ''date'' ''d_year'', tcol ''part'' ''p_brand1''] (tcol ''GROUP'' ''g'')"

definition year_sort :: IrData where
  "year_sort = sort_create [\<lparr>column = tcol ''part'' ''p_brand1'', orderType = False, nullordering = False\<rparr>]
     (tcol ''SORT'' ''s'') None"

definition rev_sum :: IrData where
  "rev_sum = agg_create (tcol ''lineorder'' ''lo_revenue'') (tcol ''AGG'' ''SUM(lo_revenue)'') AGG_SUM"

lemmas plan_samples = supp_join_def base_plan_def year_group_def year_sort_def rev_sum_def create_defs is_op_defs

theorem placeSemiJoins_sound_witness:
  "semis_sound (placeSemiJoins supp_join {table_of ''lineorder''}) {table_of ''lineorder''}"
  by (rule placeSemiJoins_sound) (simp add: plan_samples join_columns_def is_semijoin_def)

lemma sort_samples:
  "ir_ok year_sort" "ir_ok year_group" "plain year_sort" "plain year_group" "is_sort year_sort" "is_group year_group"
  by (simp_all add: year_sort_def year_group_def) (simp_all add: create_defs plain_def is_op_defs)

theorem sort_merged_into_group_witness:
  "\<exists>g' so. mergeSortIntoGroupIfSubset (Plan year_sort [Plan year_group [base_plan ''date'']]) =
      Plan g' (map mergeSortIntoGroupIfSubset [base_plan ''date'']) \<and>
    ir_ok g' \<and> outputCols g' = outputCols year_group \<and>
    mset (map col_key (inputColumns g')) = mset (map col_key (inputColumns year_group)) \<and>
    opInfo g' = OpGroup so \<and> (\<exists>rest. inputColumns g' = inputColumns year_sort @ rest \<and>
      sortOrders so = map orderType (sorts_of year_sort) @ replicate (length rest) True)"
  by (rule sort_merged_into_group)
     (simp_all add: sort_samples, simp_all add: year_sort_def year_group_def create_defs tcol_def col_key_def)

theorem moveAgg_total_witness:
  "\<exists>p'. moveAggIntoGroup (Plan year_group [Plan rev_sum [base_plan ''lineorder'']]) =
      Some (scope_aggs (Plan year_group [Plan rev_sum [base_plan ''lineorder'']]), p') \<and> plan_ok p' \<and> agg_fed p'"
  by (rule moveAgg_total)
     (simp_all add: year_group_def rev_sum_def base_plan_def, simp add: create_defs is_op_defs)

theorem group_absorbs_sum_witness:
  "moveAggIntoGroup (Plan year_group [Plan rev_sum [base_plan ''lineorder'']]) =
      Some (1, Plan (group_setAgg (tcol ''lineorder'' ''lo_revenue'') (tcol ''AGG'' ''SUM(lo_revenue)'') year_group)
        [base_plan ''lineorder'']) \<and>
    group_aggCol (group_setAgg (tcol ''lineorder'' ''lo_revenue'') (tcol ''AGG'' ''SUM(lo_revenue)'') year_group) =
      Some (tcol ''lineorder'' ''lo_revenue'') \<and>
    group_aggResultCol (group_setAgg (tcol ''lineorder'' ''lo_revenue'') (tcol ''AGG'' ''SUM(lo_revenue)'') year_group) =
      Some (tcol ''AGG'' ''SUM(lo_revenue)'')"
  by (rule group_absorbs_sum) (simp_all add: plan_samples)

end
