(* ===== verification/Plan_Heap.thy ===== *)
theory Plan_Heap
  imports Plan_Node
begin

text \<open>
  The plan as a graph: from the materialization passes on, one node is shared by many parents.
  The heap is the list of cells in the order in which the passes finish them, a
  \<open>std::shared_ptr<PlanNode>\<close> is an index into it. A pass takes the plan tree and allocates a
  node's cell when the call for that node returns, which is when its data and children are final;
  all pointers to a node are taken after that, so the addresses stand for the same sharing.
\<close>

section \<open>Cells\<close>

record cell =
  cdata :: IrData
  cchildren :: "nat list"

type_synonym heap = "cell list"

definition alloc :: "cell \<Rightarrow> heap \<Rightarrow> nat \<times> heap" where
  "alloc c h = (length h, h @ [c])"

definition data_at :: "heap \<Rightarrow> nat \<Rightarrow> IrData" where
  "data_at h a = cdata (h ! a)"

definition children_at :: "heap \<Rightarrow> nat \<Rightarrow> nat list" where
  "children_at h a = cchildren (h ! a)"

text \<open>A heap that has only grown.\<close>

definition extends :: "heap \<Rightarrow> heap \<Rightarrow> bool" where
  "extends h h' \<longleftrightarrow> (\<exists>xs. h' = h @ xs)"

lemma extends_refl [simp]: "extends h h"
  by (simp add: extends_def)

lemma extends_trans: "extends h h' \<Longrightarrow> extends h' h'' \<Longrightarrow> extends h h''"
  by (auto simp: extends_def)

lemma extends_append [simp]: "extends h (h @ xs)"
  by (auto simp: extends_def)

lemma extends_length: "extends h h' \<Longrightarrow> length h \<le> length h'"
  by (auto simp: extends_def)

lemma extends_at [heap_simps]:
  "extends h h' \<Longrightarrow> a < length h \<Longrightarrow> data_at h' a = data_at h a \<and> children_at h' a = children_at h a"
  by (auto simp: extends_def data_at_def children_at_def nth_append)

lemma at_new [heap_simps]:
  "data_at (h @ [c]) (length h) = cdata c" "children_at (h @ [c]) (length h) = cchildren c"
  by (simp_all add: data_at_def children_at_def)

lemma at_old [heap_simps]:
  "a < length h \<Longrightarrow> data_at (h @ xs) a = data_at h a"
  "a < length h \<Longrightarrow> children_at (h @ xs) a = children_at h a"
  by (simp_all add: data_at_def children_at_def nth_append)

section \<open>Well-formed heaps\<close>

text \<open>Every cell holds a well-formed operator and points to older cells only: the plan is acyclic.\<close>

definition heap_ok :: "heap \<Rightarrow> bool" where
  "heap_ok h \<longleftrightarrow> (\<forall>a < length h. ir_ok (data_at h a) \<and> (\<forall>b \<in> set (children_at h a). b < a))"

lemma heap_ok_Nil [simp]: "heap_ok []"
  by (simp add: heap_ok_def)

lemma heap_ok_snoc [heap_simps]:
  "heap_ok (h @ [c]) \<longleftrightarrow> heap_ok h \<and> ir_ok (cdata c) \<and> (\<forall>b \<in> set (cchildren c). b < length h)"
  by (auto simp: heap_ok_def heap_simps less_Suc_eq)

definition acyclic_heap :: "heap \<Rightarrow> bool" where
  "acyclic_heap h \<longleftrightarrow> (\<forall>a < length h. \<forall>b \<in> set (children_at h a). b < a)"

lemma heap_ok_acyclic: "heap_ok h \<Longrightarrow> acyclic_heap h"
  by (simp add: heap_ok_def acyclic_heap_def)

text \<open>A cell provides a column when it is one of its outputs (up to the key the maps compare).\<close>

definition outputs_key :: "IrData \<Rightarrow> colkey \<Rightarrow> bool" where
  "outputs_key d k \<longleftrightarrow> k \<in> col_key ` set (outputCols d)"

definition provides :: "heap \<Rightarrow> nat \<Rightarrow> colkey \<Rightarrow> bool" where
  "provides h a k \<longleftrightarrow> a < length h \<and> outputs_key (data_at h a) k"

lemma provides_extends: "provides h a k \<Longrightarrow> extends h h' \<Longrightarrow> provides h' a k"
  using extends_length extends_at by (fastforce simp: provides_def)

section \<open>Finding the side of a join\<close>

text \<open>The breadth-first search of \<open>detFilterColIdx\<close>: each queue entry carries the side (0 inner,
  1 outer) it was reached from, and the first node that outputs a column of the table decides. A
  node is expanded once; reading past the heap is undefined.\<close>

definition outputs_table :: "IrData \<Rightarrow> Table \<Rightarrow> bool" where
  "outputs_table d t \<longleftrightarrow> (\<exists>c \<in> set (outputCols d). table_eq (ctable c) t)"

function bfs :: "heap \<Rightarrow> Table \<Rightarrow> (nat \<times> nat) list \<Rightarrow> nat set \<Rightarrow> nat option" where
  "bfs h t [] visited = Some 0"
| "bfs h t ((i, a) # q) visited =
     (if a \<in> visited then bfs h t q visited
      else if length h \<le> a then None
      else if outputs_table (data_at h a) t then Some i
      else bfs h t (q @ map (Pair i) (children_at h a)) (insert a visited))"
  by pat_completeness auto
termination
proof (relation "measures [\<lambda>(h, t, q, V). card ({..<length h} - V), \<lambda>(h, t, q, V). length q]")
  fix h :: heap and t i a q and V :: "nat set"
  assume a: "a \<notin> V" "\<not> length h \<le> a"
  then have "a \<in> {..<length h} - V" by simp
  then have "card ({..<length h} - V - {a}) < card ({..<length h} - V)"
    by (intro card_Diff1_less finite_Diff finite_lessThan)
  then have "card ({..<length h} - insert a V) < card ({..<length h} - V)"
    by (subst Diff_insert)
  then show "((h, t, q @ map (Pair i) (children_at h a), insert a V), h, t, (i, a) # q, V)
      \<in> measures [\<lambda>(h, t, q, V). card ({..<length h} - V), \<lambda>(h, t, q, V). length q]"
    by simp
qed auto

declare bfs.simps(2) [simp del]

definition detFilterColIdx :: "heap \<Rightarrow> TableColumn \<Rightarrow> nat \<Rightarrow> nat option" where
  "detFilterColIdx h idxCol node =
     (if \<not> is_join (data_at h node) then Some 0
      else case outputCols (data_at h node) of
        c0 # c1 # _ \<Rightarrow>
          if table_eq (ctable c0) (ctable idxCol) then Some 0
          else if table_eq (ctable c1) (ctable idxCol) then Some 1
          else (case children_at h node of
              a0 # a1 # _ \<Rightarrow> bfs h (ctable idxCol) [(0, a0), (1, a1)] {}
            | _ \<Rightarrow> None)
      | _ \<Rightarrow> None)"

lemma bfs_index: "bfs h t q V = Some i \<Longrightarrow> i \<in> insert 0 (fst ` set q)"
proof (induction h t q V rule: bfs.induct)
  case (2 h t j a q V)
  show ?case
  proof (cases "a \<in> V \<or> length h \<le> a \<or> outputs_table (data_at h a) t")
    case True
    then show ?thesis using 2 by (auto simp: bfs.simps(2) [of h t j a q V] split: if_splits)
  next
    case False
    then have "i \<in> insert 0 (fst ` set (q @ map (Pair j) (children_at h a)))"
      using 2 by (simp add: bfs.simps(2) [of h t j a q V])
    then show ?thesis by auto
  qed
qed simp

lemma bfs_total:
  "heap_ok h \<Longrightarrow> \<forall>(i, a) \<in> set q. a < length h \<Longrightarrow> bfs h t q V \<noteq> None"
proof (induction h t q V rule: bfs.induct)
  case (2 h t i a q V)
  show ?case
  proof (cases "a \<in> V \<or> outputs_table (data_at h a) t")
    case True
    then show ?thesis using 2 by (auto simp: bfs.simps(2) [of h t i a q V])
  next
    case False
    have "\<forall>b \<in> set (children_at h a). b < length h"
      using "2.prems" by (auto simp: heap_ok_def intro: less_trans)
    then have all: "\<forall>(i, a) \<in> set (q @ map (Pair i) (children_at h a)). a < length h"
      using "2.prems"(2) by auto
    have "a < length h" using "2.prems"(2) by simp
    then have "bfs h t ((i, a) # q) V = bfs h t (q @ map (Pair i) (children_at h a)) (insert a V)"
      using False by (simp add: bfs.simps(2) [of h t i a q V])
    then show ?thesis using "2.IH"(2) "2.prems"(1) all False \<open>a < length h\<close> by simp
  qed
qed simp

text \<open>The side that is found names an output column of the node, whatever the plan below.\<close>

lemma detFilterColIdx_bound:
  assumes "heap_ok h" "a < length h" "detFilterColIdx h c a = Some i" "outputsPosList (data_at h a)"
  shows "i < length (outputCols (data_at h a))"
proof (cases "is_join (data_at h a)")
  case True
  have "length (outputCols (data_at h a)) = 2"
    using assms(1,2) True by (auto simp: heap_ok_def intro: ir_ok_join_outputs)
  moreover have "i \<le> 1"
    using assms(3) True bfs_index by (fastforce simp: detFilterColIdx_def split: list.splits if_splits)
  ultimately show ?thesis by simp
next
  case False
  then show ?thesis
    using assms ir_ok_outputs by (auto simp: detFilterColIdx_def heap_ok_def)
qed

lemma detFilterColIdx_total:
  assumes "heap_ok h" "a < length h" "is_join (data_at h a) \<Longrightarrow> 2 \<le> length (children_at h a)"
  shows "detFilterColIdx h c a \<noteq> None"
proof (cases "is_join (data_at h a)")
  case True
  have l: "length (outputCols (data_at h a)) = 2"
    using assms(1,2) True by (auto simp: heap_ok_def intro: ir_ok_join_outputs)
  obtain c0 c1 where o: "outputCols (data_at h a) = [c0, c1]"
    using l by (auto simp: length_Suc_conv numeral_2_eq_2)
  obtain a0 a1 as where ch: "children_at h a = a0 # a1 # as"
    using assms(3) [OF True] by (cases "children_at h a"; cases "tl (children_at h a)") auto
  have "a0 < length h" "a1 < length h"
    using assms(1,2) ch by (auto simp: heap_ok_def intro: less_trans)
  then show ?thesis
    using True o ch bfs_total [OF assms(1), of "[(0, a0), (1, a1)]"] by (simp add: detFilterColIdx_def)
qed (simp add: detFilterColIdx_def)

end
