(* ===== verification/Registry.thy ===== *)
theory Registry
  imports Plan_Heap
begin

text \<open>
  The interface between the heap and the materialization passes: a pass keeps maps from columns
  (or tables) to nodes while the heap grows. Any property of a node that survives the growth of
  the heap is kept by looking up, updating and merging such maps. The two instances are the
  columns a node serves and the position lists it holds; \<open>wired\<close> is what the passes establish.
\<close>

section \<open>The interface\<close>

locale registry =
  fixes good :: "heap \<Rightarrow> nat \<Rightarrow> 'k \<Rightarrow> bool"
  assumes good_bound: "good h a k \<Longrightarrow> a < length h"
    and good_extends: "good h a k \<Longrightarrow> extends h h' \<Longrightarrow> good h' a k"
begin

definition reg_ok :: "heap \<Rightarrow> ('k \<Rightarrow> nat option) \<Rightarrow> bool" where
  "reg_ok h m \<longleftrightarrow> (\<forall>k a. m k = Some a \<longrightarrow> good h a k)"

lemma reg_empty [simp]: "reg_ok h (\<lambda>k. None)"
  by (simp add: reg_ok_def)

lemma reg_lookup: "reg_ok h m \<Longrightarrow> m k = Some a \<Longrightarrow> good h a k"
  by (simp add: reg_ok_def)

lemma reg_bound: "reg_ok h m \<Longrightarrow> m k = Some a \<Longrightarrow> a < length h"
  unfolding reg_ok_def by (blast intro: good_bound)

lemma reg_extends: "reg_ok h m \<Longrightarrow> extends h h' \<Longrightarrow> reg_ok h' m"
  unfolding reg_ok_def by (blast intro: good_extends)

lemma reg_update: "reg_ok h m \<Longrightarrow> good h a k \<Longrightarrow> reg_ok h (m(k \<mapsto> a))"
  by (simp add: reg_ok_def)

lemma reg_add: "reg_ok h m \<Longrightarrow> reg_ok h m' \<Longrightarrow> reg_ok h (m ++ m')"
  by (auto simp: reg_ok_def map_add_def split: option.splits)

lemma reg_new:
  assumes "reg_ok h m" "good (h @ [c]) (length h) k"
  shows "reg_ok (h @ [c]) (m(k \<mapsto> length h))"
  using reg_update [OF reg_extends [OF assms(1) extends_append] assms(2)] .

end

section \<open>Columns that a node serves\<close>

text \<open>A node registered for a column outputs it; the one exception is the default-constructed
  column under which a plain grouping is registered.\<close>

definition serves :: "heap \<Rightarrow> nat \<Rightarrow> colkey \<Rightarrow> bool" where
  "serves h a k \<longleftrightarrow> a < length h \<and> (k \<noteq> ([], []) \<longrightarrow> outputs_key (data_at h a) k)"

interpretation cols: registry serves
proof
  fix h a k h'
  show "serves h a k \<Longrightarrow> a < length h" by (simp add: serves_def)
  show "serves h a k \<Longrightarrow> extends h h' \<Longrightarrow> serves h' a k"
    using extends_length extends_at by (fastforce simp: serves_def)
qed

lemma serves_provides: "serves h a k \<Longrightarrow> k \<noteq> ([], []) \<Longrightarrow> provides h a k"
  by (simp add: serves_def provides_def)

section \<open>Position lists\<close>

definition holds_positions :: "heap \<Rightarrow> nat \<Rightarrow> Table \<Rightarrow> bool" where
  "holds_positions h a t \<longleftrightarrow> a < length h \<and> outputsPosList (data_at h a)"

interpretation poss: registry holds_positions
proof
  fix h a k h'
  show "holds_positions h a k \<Longrightarrow> a < length h" by (simp add: holds_positions_def)
  show "holds_positions h a k \<Longrightarrow> extends h h' \<Longrightarrow> holds_positions h' a k"
    using extends_length extends_at by (fastforce simp: holds_positions_def)
qed

section \<open>Wired nodes\<close>

text \<open>
  What a node needs from its children: a materialize node has a source that outputs the column it
  filters, and a filter child with a position list
  that outputs its filter column; any other operator has one child per input column, in order,
  each serving that column.
\<close>

definition mat_wired :: "heap \<Rightarrow> nat \<Rightarrow> bool" where
  "mat_wired h a \<longleftrightarrow> (\<exists>src child idx flt.
     children_at h a = [src, child] \<and> inputColumns (data_at h a) = [idx, flt] \<and>
     serves h src (col_key idx) \<and>
     child < length h \<and> outputsPosList (data_at h child) \<and> flt \<in> set (outputCols (data_at h child)))"

lemma mat_wired_code [code]:
  "mat_wired h a = (case (children_at h a, inputColumns (data_at h a)) of
      ([src, child], [idx, flt]) \<Rightarrow> serves h src (col_key idx) \<and> child < length h \<and>
        outputsPosList (data_at h child) \<and> flt \<in> set (outputCols (data_at h child))
    | _ \<Rightarrow> False)"
  by (auto simp: mat_wired_def split: list.splits)

definition wired :: "heap \<Rightarrow> nat \<Rightarrow> bool" where
  "wired h a \<longleftrightarrow>
     (if is_mat (data_at h a) then mat_wired h a
      else is_fetch (data_at h a) \<or>
        list_all2 (\<lambda>b c. serves h b (col_key c)) (children_at h a) (inputColumns (data_at h a)))"

lemma mat_wired_extends:
  assumes "mat_wired h a" "extends h h'" "a < length h"
  shows "mat_wired h' a"
proof -
  obtain src child idx flt where w: "children_at h a = [src, child]" "inputColumns (data_at h a) = [idx, flt]"
    "serves h src (col_key idx)"
    "child < length h" "outputsPosList (data_at h child)" "flt \<in> set (outputCols (data_at h child))"
    using assms(1) by (auto simp: mat_wired_def)
  have "serves h' src (col_key idx)"
    using w(3) cols.good_extends assms(2) by blast
  then show ?thesis
    using w assms(2,3) extends_at [OF assms(2)] extends_length [OF assms(2)]
    unfolding mat_wired_def by auto
qed

lemma wired_extends:
  assumes "wired h a" "extends h h'" "a < length h"
  shows "wired h' a"
proof -
  have s: "serves h b (col_key c) \<longrightarrow> serves h' b (col_key c)" for b c
    using cols.good_extends assms(2) by blast
  have "list_all2 (\<lambda>b c. serves h' b (col_key c)) bs cs" if "list_all2 (\<lambda>b c. serves h b (col_key c)) bs cs" for bs cs
    using that s by (auto elim: list_all2_mono)
  then show ?thesis
    using assms extends_at [OF assms(2,3)] mat_wired_extends [OF _ assms(2,3)]
    by (auto simp: wired_def split: if_splits)
qed

text \<open>All cells from address \<open>n\<close> on are wired.\<close>

definition wired_from :: "nat \<Rightarrow> heap \<Rightarrow> bool" where
  "wired_from n h \<longleftrightarrow> (\<forall>a. n \<le> a \<longrightarrow> a < length h \<longrightarrow> wired h a)"

lemma wired_from_snoc:
  assumes "wired_from n h" "wired (h @ [c]) (length h)"
  shows "wired_from n (h @ [c])"
proof -
  have "wired (h @ [c]) a" if "n \<le> a" "a < length h" for a
    using assms(1) that wired_extends [OF _ extends_append] by (simp add: wired_from_def)
  then show ?thesis using assms(2) by (auto simp: wired_from_def less_Suc_eq)
qed

lemma wired_from_trans:
  "wired_from n h \<Longrightarrow> extends h h' \<Longrightarrow> wired_from (length h) h' \<Longrightarrow> wired_from n h'"
  using wired_extends by (auto simp: wired_from_def not_less) (meson not_le_imp_less)

lemma wired_from_refl [simp]: "wired_from (length h) h"
  by (simp add: wired_from_def)

text \<open>The two cells that the passes create, and a rewired operator.\<close>

lemma fetch_wired: "cdata c = fetch_create x b \<Longrightarrow> wired (h @ [c]) (length h)"
  by (simp add: wired_def heap_simps fetch_create_def is_mat_def is_fetch_def)

lemma mat_cell_wired:
  assumes "serves h src (col_key idx)" "child < length h"
    and "outputsPosList (data_at h child)" "flt \<in> set (outputCols (data_at h child))"
  shows "wired (h @ [\<lparr>cdata = mat_create idx flt out pos, cchildren = [src, child]\<rparr>]) (length h)"
proof -
  let ?h = "h @ [\<lparr>cdata = mat_create idx flt out pos, cchildren = [src, child]\<rparr>]"
  have "serves ?h src (col_key idx)"
    using assms(1) cols.good_extends [OF _ extends_append] by blast
  moreover have "is_mat (mat_create idx flt out pos)"
    by (simp add: mat_create_def is_mat_def)
  ultimately show ?thesis
    using assms by (auto simp: wired_def mat_wired_def heap_simps ir_simps)
qed

end
