(* ===== verification/Materialize.thy ===== *)
theory Materialize
  imports Registry
begin

text \<open>
  \<open>fillMaterializes\<close> of \<open>src/ir/ir_post_processing.cpp\<close>: bottom up, every column that is needed
  at or above a node is filtered by a new materialize node as soon as a child produces a position
  list, and every operator is rewired to the latest version of each of its input columns. The
  pass takes the plan tree and builds the heap; \<open>None\<close> is an access the code leaves undefined. A
  column that no child provides is only reported on the console: the model returns those columns.
\<close>

section \<open>The pass\<close>

text \<open>\<open>std::map<TableColumn, std::shared_ptr<PlanNode>>\<close>, keyed the way \<open>operator<\<close> compares.\<close>

type_synonym mats = "colkey \<rightharpoonup> nat"

definition fetch_cell :: "TableColumn \<Rightarrow> cell" where
  "fetch_cell c = \<lparr>cdata = fetch_create c False, cchildren = []\<rparr>"

definition mat_cell :: "TableColumn \<Rightarrow> TableColumn \<Rightarrow> TableColumn \<Rightarrow> bool \<Rightarrow> nat \<Rightarrow> nat \<Rightarrow> cell" where
  "mat_cell idx flt out pos src child = \<lparr>cdata = mat_create idx flt out pos, cchildren = [src, child]\<rparr>"

text \<open>The loop over the columns to materialize below one child with a position list.\<close>

fun materialize_columns :: "nat \<Rightarrow> Table set \<Rightarrow> TableColumn list \<Rightarrow> mats \<Rightarrow> heap \<Rightarrow> (mats \<times> heap) option" where
  "materialize_columns child T [] m h = Some (m, h)"
| "materialize_columns child T (c # cs) m h =
     (if ctable c \<in> T then
        do { idx \<leftarrow> detFilterColIdx h c child;
             filterCol \<leftarrow> at (outputCols (data_at h child)) idx;
             let (src, h1) = (case m (col_key c) of Some a \<Rightarrow> (a, h) | None \<Rightarrow> alloc (fetch_cell c) h);
             let (n, h2) = alloc (mat_cell c filterCol c False src child) h1;
             materialize_columns child T cs (m(col_key c \<mapsto> n)) h2 }
      else materialize_columns child T cs m h)"

text \<open>The column under which a child with materialized values is registered: a grouping without
  an aggregation registers under a default-constructed column.\<close>

definition value_column :: "IrData \<Rightarrow> TableColumn option" where
  "value_column d =
     (if is_group d then Some (case group_aggResultCol d of Some c \<Rightarrow> c | None \<Rightarrow> emptyColumn)
      else at (outputCols d) 0)"

definition register_values :: "IrData \<Rightarrow> nat \<Rightarrow> mats \<Rightarrow> mats option" where
  "register_values d child m =
     (if outputsMatVals d then map_option (\<lambda>c. m(col_key c \<mapsto> child)) (value_column d) else Some m)"

text \<open>A base table takes the name of each column its parent reads from it; every name gets a copy
  of the node.\<close>

definition set_column_name :: "string \<Rightarrow> IrData \<Rightarrow> IrData" where
  "set_column_name n d = d\<lparr>
     inputColumns := (case inputColumns d of c # cs \<Rightarrow> c\<lparr>columnName := n\<rparr> # cs | [] \<Rightarrow> []),
     outputCols := (case outputCols d of c # cs \<Rightarrow> c\<lparr>columnName := n\<rparr> # cs | [] \<Rightarrow> [])\<rparr>"

definition input_table :: "IrData \<Rightarrow> Table" where
  "input_table d = (case inputColumns d of c # _ \<Rightarrow> ctable c | [] \<Rightarrow> table_of [])"

fun copy_base :: "TableColumn list \<Rightarrow> nat list \<Rightarrow> IrData \<Rightarrow> mats \<Rightarrow> heap \<Rightarrow> IrData \<times> mats \<times> heap" where
  "copy_base [] ch d m h = (d, m, h)"
| "copy_base (c # cs) ch d m h =
     (if tname (ctable c) = tname (input_table d) then
        let d' = set_column_name (columnName c) d; (a, h') = alloc \<lparr>cdata = d', cchildren = ch\<rparr> h
        in copy_base cs ch d' (m(col_key c \<mapsto> a)) h'
      else copy_base cs ch d m h)"

definition rewired :: "TableColumn list \<Rightarrow> mats \<Rightarrow> nat list" where
  "rewired ins m = List.map_filter (\<lambda>c. m (col_key c)) ins"

definition missing :: "TableColumn list \<Rightarrow> mats \<Rightarrow> TableColumn list" where
  "missing ins m = filter (\<lambda>c. m (col_key c) = None) ins"

text \<open>The end of a call: the leaf's columns, or the rewired children.\<close>

definition finish_node ::
    "IrData \<Rightarrow> ColumnSet \<Rightarrow> nat list \<Rightarrow> Table set \<Rightarrow> mats \<Rightarrow> heap \<Rightarrow> nat \<times> Table set \<times> mats \<times> TableColumn list \<times> heap" where
  "finish_node d inputOfParent ch T m h =
     (if is_fetch d then
        if base_fetch d then
          let (d', m', h') = copy_base inputOfParent ch d m h; (a, h'') = alloc \<lparr>cdata = d', cchildren = ch\<rparr> h'
          in (a, insert (input_table d') T, m', [], h'')
        else let (a, h') = alloc \<lparr>cdata = d, cchildren = ch\<rparr> h in (a, T, m, [], h')
      else
        let (a, h') = alloc \<lparr>cdata = d, cchildren = rewired (inputColumns d) m\<rparr> h
        in (a, T, m, missing (inputColumns d) m, h'))"

fun fill :: "plan \<Rightarrow> ColumnSet \<Rightarrow> ColumnSet \<Rightarrow> heap \<Rightarrow> (nat \<times> Table set \<times> mats \<times> TableColumn list \<times> heap) option"
and fill_children :: "plan list \<Rightarrow> ColumnSet \<Rightarrow> ColumnSet \<Rightarrow> Table set \<Rightarrow> mats \<Rightarrow> heap \<Rightarrow>
    (nat list \<times> Table set \<times> mats \<times> TableColumn list \<times> heap) option" where
  "fill (Plan d cs) columnsToMaterializeOn inputOfParent h =
     (let this = column_set (inputColumns d);
          needed = columns_insert this columnsToMaterializeOn
      in do { (ch, T, m, miss, h1) \<leftarrow> fill_children cs needed this {} Map.empty h;
              let (a, T', m', miss', h2) = finish_node d inputOfParent ch T m h1;
              Some (a, T', m', miss @ miss', h2) })"
| "fill_children [] needed this T m h = Some ([], T, m, [], h)"
| "fill_children (c # cs) needed this T m h =
     do { (a, Tc, mc, miss, h1) \<leftarrow> fill c needed this h;
          let d = data_at h1 a;
          (m2, h2) \<leftarrow> (if outputsPosList d then materialize_columns a Tc needed (mc ++ m) h1
                       else Some (mc ++ m, h1));
          m3 \<leftarrow> register_values d a m2;
          (as, T', m', miss', h3) \<leftarrow> fill_children cs needed this (T \<union> Tc) m3 h2;
          Some (a # as, T', m', miss @ miss', h3) }"

definition fillMaterializes :: "plan \<Rightarrow> (nat \<times> TableColumn list \<times> heap) option" where
  "fillMaterializes p = map_option (\<lambda>(a, _, _, miss, h). (a, miss, h)) (fill p [] [] [])"


section \<open>What the pass establishes\<close>

text \<open>The state between two steps: a well-formed heap that extends the one at the start and is
  wired from there on, and a map in which every node serves its column.\<close>

definition mat_inv :: "heap \<Rightarrow> heap \<Rightarrow> mats \<Rightarrow> bool" where
  "mat_inv h0 h m \<longleftrightarrow> extends h0 h \<and> heap_ok h \<and> cols.reg_ok h m"

lemma mat_invD:
  assumes "mat_inv h0 h m"
  shows "extends h0 h" "heap_ok h" "cols.reg_ok h m"
  using assms by (simp_all add: mat_inv_def)

lemma mat_inv_trans: "extends h0 h1 \<Longrightarrow> mat_inv h1 h m \<Longrightarrow> mat_inv h0 h m"
  by (auto simp: mat_inv_def intro: extends_trans)

lemma mat_inv_extend:
  "mat_inv h0 h m \<Longrightarrow> extends h h' \<Longrightarrow> heap_ok h' \<Longrightarrow> mat_inv h0 h' m"
  unfolding mat_inv_def by (blast intro: extends_trans cols.reg_extends)

lemma mat_inv_fetch:
  "mat_inv h0 h m \<Longrightarrow> mat_inv h0 (h @ [fetch_cell c]) m"
  by (rule mat_inv_extend) (auto simp: mat_inv_def heap_simps fetch_cell_def)

lemma fetch_cell_serves: "serves (h @ [fetch_cell c]) (length h) (col_key c)"
  by (simp add: serves_def heap_simps fetch_cell_def outputs_key_def ir_simps)

lemma fetch_cell_wired: "wired (h @ [fetch_cell c]) (length h)"
  by (rule fetch_wired [of _ c False]) (simp add: fetch_cell_def)

lemma mat_cell_serves: "serves (h @ [mat_cell idx flt out pos s b]) (length h) (col_key out)"
  by (simp add: serves_def heap_simps mat_cell_def outputs_key_def ir_simps)

text \<open>One materialize node.\<close>

lemma mat_step:
  assumes inv: "mat_inv h0 h m" and w: "wired_from n h"
    and ch: "child < length h" "outputsPosList (data_at h child)" "flt \<in> set (outputCols (data_at h child))"
    and src: "s < length h" "serves h s (col_key c)"
  shows "mat_inv h0 (h @ [mat_cell c flt c False s child]) (m(col_key c \<mapsto> length h)) \<and>
    wired_from n (h @ [mat_cell c flt c False s child])"
proof -
  let ?h = "h @ [mat_cell c flt c False s child]"
  have "heap_ok ?h"
    using mat_invD(2) [OF inv] ch(1) src(1) by (simp add: heap_simps mat_cell_def)
  moreover have "cols.reg_ok ?h (m(col_key c \<mapsto> length h))"
    by (rule cols.reg_new [OF mat_invD(3) [OF inv] mat_cell_serves])
  moreover have "extends h0 ?h"
    by (rule extends_trans [OF mat_invD(1) [OF inv] extends_append])
  moreover have "wired ?h (length h)"
    unfolding mat_cell_def by (rule mat_cell_wired) (use src ch in simp_all)
  ultimately show ?thesis
    using w by (simp add: mat_inv_def wired_from_snoc)
qed

lemma materialize_columns_inv:
  assumes "materialize_columns child T cs m h = Some (m', h')" "mat_inv h0 h m" "wired_from n h"
    and "child < length h" "outputsPosList (data_at h child)"
  shows "mat_inv h0 h' m' \<and> wired_from n h' \<and> extends h h'"
  using assms
proof (induction cs arbitrary: m h)
  case (Cons c cs)
  show ?case
  proof (cases "ctable c \<in> T")
    case False
    then show ?thesis using Cons by simp
  next
    case True
    let ?p = "case m (col_key c) of Some a \<Rightarrow> (a, h) | None \<Rightarrow> alloc (fetch_cell c) h"
    obtain s h1 where p: "?p = (s, h1)" by (cases ?p) auto
    from Cons.prems(1) True p obtain idx flt where i: "detFilterColIdx h c child = Some idx"
      and f: "at (outputCols (data_at h child)) idx = Some flt"
      and r: "materialize_columns child T cs (m(col_key c \<mapsto> length h1)) (h1 @ [mat_cell c flt c False s child]) = Some (m', h')"
      by (auto simp: option_bind_eq_Some alloc_def Let_def)
    have h1: "mat_inv h0 h1 m \<and> wired_from n h1 \<and> extends h h1 \<and> s < length h1 \<and> serves h1 s (col_key c)"
    proof (cases "m (col_key c)")
      case None
      then have "h1 = h @ [fetch_cell c]" "s = length h" using p by (auto simp: alloc_def)
      then show ?thesis
        using Cons.prems(2,3) mat_inv_fetch fetch_cell_serves wired_from_snoc [OF _ fetch_cell_wired] by simp
    next
      case (Some a)
      then show ?thesis
        using p Cons.prems(2,3) cols.reg_lookup [OF mat_invD(3) [OF Cons.prems(2)] Some] by (auto simp: serves_def)
    qed
    have ch: "child < length h1" "data_at h1 child = data_at h child"
      using h1 Cons.prems(4) extends_length extends_at by fastforce+
    have st: "mat_inv h0 (h1 @ [mat_cell c flt c False s child]) (m(col_key c \<mapsto> length h1)) \<and>
        wired_from n (h1 @ [mat_cell c flt c False s child])"
      using h1 ch Cons.prems(5) f by (intro mat_step) (auto simp: set_conv_nth)
    have "mat_inv h0 h' m' \<and> wired_from n h' \<and> extends (h1 @ [mat_cell c flt c False s child]) h'"
      using Cons.IH [OF r conjunct1 [OF st] conjunct2 [OF st]] ch Cons.prems(5) by (simp add: heap_simps)
    then show ?thesis
      using h1 extends_trans extends_append by blast
  qed
qed simp


lemma value_column_serves:
  "value_column d = Some c \<Longrightarrow> data_at h a = d \<Longrightarrow> a < length h \<Longrightarrow> serves h a (col_key c)"
  by (auto simp: value_column_def serves_def outputs_key_def group_aggResultCol_def emptyColumn_def col_key_def
      split: option.splits if_splits OpInfo.splits)

lemma register_values_inv:
  "register_values (data_at h a) a m = Some m' \<Longrightarrow> mat_inv h0 h m \<Longrightarrow> a < length h \<Longrightarrow> mat_inv h0 h m'"
  by (auto simp: register_values_def mat_inv_def split: if_splits intro!: cols.reg_update value_column_serves)

text \<open>A base table node: one column, the same on both sides.\<close>

definition leaf_ok :: "IrData \<Rightarrow> bool" where
  "leaf_ok d \<longleftrightarrow> ir_ok d \<and> is_fetch d"

lemma set_column_name_leaf:
  assumes "leaf_ok d"
  shows "leaf_ok (set_column_name n d) \<and> input_table (set_column_name n d) = input_table d \<and>
    outputs_key (set_column_name n d) (tname (input_table d), n)"
proof -
  obtain c where c: "inputColumns d = [c]" "outputCols d = [c]"
    using assms ir_ok_fetch by (auto simp: leaf_ok_def)
  have "is_fetch d" "ir_ok d" using assms by (auto simp: leaf_ok_def)
  then obtain f where f: "opInfo d = OpFetch f" by (auto simp: is_fetch_def is_OpFetch_def)
  show ?thesis
    using c f \<open>ir_ok d\<close>
    by (simp add: leaf_ok_def set_column_name_def input_table_def outputs_key_def col_key_def ir_ok_def
        is_fetch_def is_mat_def)
qed

lemma leaf_wired: "leaf_ok (cdata c) \<Longrightarrow> wired (h @ [c]) (length h)"
  by (auto simp: leaf_ok_def wired_def heap_simps is_fetch_def is_OpFetch_def is_mat_def)

lemma leaf_step:
  assumes "mat_inv h0 h m" "wired_from n h" "leaf_ok d" "\<forall>b \<in> set ch. b < length h"
  shows "mat_inv h0 (h @ [\<lparr>cdata = d, cchildren = ch\<rparr>]) m \<and> wired_from n (h @ [\<lparr>cdata = d, cchildren = ch\<rparr>])"
proof
  show "mat_inv h0 (h @ [\<lparr>cdata = d, cchildren = ch\<rparr>]) m"
    using assms by (intro mat_inv_extend [OF assms(1)]) (auto simp: mat_inv_def heap_simps leaf_ok_def)
  show "wired_from n (h @ [\<lparr>cdata = d, cchildren = ch\<rparr>])"
    by (rule wired_from_snoc [OF assms(2) leaf_wired]) (simp add: assms(3))
qed

lemma copy_base_inv:
  assumes "copy_base ps ch d m h = (d', m', h')" "mat_inv h0 h m" "wired_from n h" "leaf_ok d"
    "\<forall>b \<in> set ch. b < length h"
  shows "mat_inv h0 h' m' \<and> wired_from n h' \<and> leaf_ok d' \<and> extends h h' \<and> input_table d' = input_table d"
  using assms
proof (induction ps arbitrary: d m h)
  case (Cons c ps)
  show ?case
  proof (cases "tname (ctable c) = tname (input_table d)")
    case False
    then show ?thesis using Cons by simp
  next
    case True
    let ?d = "set_column_name (columnName c) d"
    let ?h = "h @ [\<lparr>cdata = ?d, cchildren = ch\<rparr>]"
    note leaf = set_column_name_leaf [OF Cons.prems(4), of "columnName c"]
    have st: "mat_inv h0 ?h m \<and> wired_from n ?h"
      by (rule leaf_step [OF Cons.prems(2,3)]) (use leaf Cons.prems(5) in simp_all)
    have "serves ?h (length h) (col_key c)"
      using leaf True by (simp add: serves_def heap_simps col_key_def)
    then have "mat_inv h0 ?h (m(col_key c \<mapsto> length h))"
      using st by (simp add: mat_inv_def cols.reg_update)
    moreover have "copy_base ps ch ?d (m(col_key c \<mapsto> length h)) ?h = (d', m', h')"
      using Cons.prems(1) True by (simp add: alloc_def Let_def)
    moreover have "\<forall>b \<in> set ch. b < length ?h" using Cons.prems(5) by auto
    ultimately have "mat_inv h0 h' m' \<and> wired_from n h' \<and> leaf_ok d' \<and> extends ?h h' \<and> input_table d' = input_table ?d"
      using Cons.IH [of ?d "m(col_key c \<mapsto> length h)" ?h] st leaf by blast
    then show ?thesis using leaf extends_trans extends_append by metis
  qed
qed simp

lemma rewired_wired:
  assumes "cols.reg_ok h m" "missing ins m = []"
  shows "list_all2 (\<lambda>b c. serves h b (col_key c)) (rewired ins m) ins"
  using assms(2)
proof (induction ins)
  case Nil
  then show ?case by (simp add: rewired_def)
next
  case (Cons c ins)
  then obtain a where "m (col_key c) = Some a" by (auto simp: missing_def split: if_splits)
  with Cons cols.reg_lookup [OF assms(1)] show ?case
    by (auto simp: rewired_def missing_def)
qed

lemma rewired_bound: "cols.reg_ok h m \<Longrightarrow> b \<in> set (rewired ins m) \<Longrightarrow> b < length h"
  unfolding rewired_def List.map_filter_def by (auto dest: cols.reg_bound)

lemma rewired_step:
  assumes inv: "mat_inv h0 h m" and d: "ir_ok d" "\<not> is_mat d"
  shows "mat_inv h0 (h @ [\<lparr>cdata = d, cchildren = rewired (inputColumns d) m\<rparr>]) m"
    "missing (inputColumns d) m = [] \<Longrightarrow> wired_from n h \<Longrightarrow>
      wired_from n (h @ [\<lparr>cdata = d, cchildren = rewired (inputColumns d) m\<rparr>])"
proof -
  let ?h = "h @ [\<lparr>cdata = d, cchildren = rewired (inputColumns d) m\<rparr>]"
  show "mat_inv h0 ?h m"
    using rewired_bound [OF mat_invD(3) [OF inv]] mat_invD(2) [OF inv] d
    by (intro mat_inv_extend [OF inv]) (simp_all add: heap_simps)
  assume miss: "missing (inputColumns d) m = []" and w: "wired_from n h"
  have "cols.reg_ok ?h m" using cols.reg_extends [OF mat_invD(3) [OF inv]] by simp
  then have "wired ?h (length h)"
    using rewired_wired miss d(2) by (simp add: wired_def heap_simps)
  then show "wired_from n ?h" by (rule wired_from_snoc [OF w])
qed

lemma finish_node_inv:
  assumes fin: "finish_node d par ch T m h = (a, T', m', miss, h')" and inv: "mat_inv h0 h m"
    and d: "ir_ok d" "\<not> is_mat d" and ch: "\<forall>b \<in> set ch. b < length h"
  shows "mat_inv h0 h' m' \<and> a < length h' \<and> extends h h' \<and> (miss = [] \<longrightarrow> wired_from n h \<longrightarrow> wired_from n h')"
proof -
  consider (base) "is_fetch d" "base_fetch d" | (fetch) "is_fetch d" "\<not> base_fetch d" | (op) "\<not> is_fetch d" by blast
  then show ?thesis
  proof cases
    case base
    obtain d1 m1 h1 where c: "copy_base par ch d m h = (d1, m1, h1)" by (metis prod_cases3)
    have leaf: "leaf_ok d" using base d by (simp add: leaf_ok_def)
    have k: "mat_inv h0 h1 m1 \<and> wired_from k h1 \<and> leaf_ok d1 \<and> extends h h1" if "wired_from k h" for k
      using copy_base_inv [OF c inv that leaf ch] by blast
    have k0: "mat_inv h0 h1 m1" "leaf_ok d1" "extends h h1" using k [OF wired_from_refl] by auto
    have ch1: "\<forall>b \<in> set ch. b < length h1" using ch extends_length [OF k0(3)] by auto
    have e: "h' = h1 @ [\<lparr>cdata = d1, cchildren = ch\<rparr>]" "m' = m1" "a = length h1"
      using fin base c by (auto simp: finish_node_def alloc_def)
    have "wired_from n h'" if "wired_from n h"
      using leaf_step [OF k0(1) _ k0(2) ch1] k [OF that] e by blast
    then show ?thesis
      using leaf_step [OF k0(1) wired_from_refl k0(2) ch1] e k0(3) extends_trans [OF k0(3) extends_append] by auto
  next
    case fetch
    have leaf: "leaf_ok d" using fetch d by (simp add: leaf_ok_def)
    have e: "h' = h @ [\<lparr>cdata = d, cchildren = ch\<rparr>]" "m' = m" "a = length h"
      using fin fetch by (auto simp: finish_node_def alloc_def)
    then show ?thesis
      using leaf_step [OF inv _ leaf ch] leaf_step [OF inv wired_from_refl leaf ch] by auto
  next
    case op
    then have "h' = h @ [\<lparr>cdata = d, cchildren = rewired (inputColumns d) m\<rparr>]" "m' = m" "a = length h"
      "miss = missing (inputColumns d) m"
      using fin by (auto simp: finish_node_def alloc_def)
    then show ?thesis using rewired_step [OF inv d] by auto
  qed
qed


text \<open>One child: its own call, its materialize nodes and its registration.\<close>

definition plan_in :: "plan \<Rightarrow> bool" where
  "plan_in p \<longleftrightarrow> (\<forall>d \<in> set (nodes p). ir_ok d \<and> \<not> is_mat d)"

lemma plan_in_node [simp]: "plan_in (Plan d cs) \<longleftrightarrow> ir_ok d \<and> \<not> is_mat d \<and> (\<forall>c \<in> set cs. plan_in c)"
  by (auto simp: plan_in_def)

lemma child_step:
  assumes inv: "mat_inv h0 h m" and call: "mat_inv h h1 mc" "a < length h1" and mw: "w \<longrightarrow> wired_from (length h) h1"
    and col: "(if outputsPosList (data_at h1 a) then materialize_columns a Tc needed (mc ++ m) h1
        else Some (mc ++ m, h1)) = Some (m2, h2)"
    and reg: "register_values (data_at h1 a) a m2 = Some m3"
  shows "mat_inv h0 h2 m3 \<and> extends h h2 \<and> a < length h2 \<and> (w \<longrightarrow> wired_from n h \<longrightarrow> wired_from n h2)"
proof -
  have e: "extends h h1" using call(1) by (simp add: mat_inv_def)
  have m1: "mat_inv h0 h1 (mc ++ m)"
    using inv call(1) e unfolding mat_inv_def by (blast intro: extends_trans cols.reg_add cols.reg_extends)
  have x: "mat_inv h0 h2 m2 \<and> wired_from k h2 \<and> extends h1 h2" if "wired_from k h1" for k
    using col materialize_columns_inv [OF _ m1 that call(2)] m1 that by (auto split: if_splits)
  have x0: "mat_inv h0 h2 m2" "extends h1 h2" using x [OF wired_from_refl] by auto
  have a2: "a < length h2" "data_at h2 a = data_at h1 a"
    using call(2) extends_length [OF x0(2)] extends_at [OF x0(2) call(2)] by auto
  have "mat_inv h0 h2 m3"
    by (rule register_values_inv [OF _ x0(1) a2(1)]) (simp add: a2 reg)
  moreover have "wired_from n h2" if "w" "wired_from n h"
    using x [OF wired_from_trans [OF that(2) e]] mw that(1) by blast
  ultimately show ?thesis using e x0(2) a2(1) extends_trans by blast
qed

lemma fill_inv:
  "fill p N par h = Some (a, T, m, miss, h') \<Longrightarrow> plan_in p \<Longrightarrow> heap_ok h \<Longrightarrow>
   mat_inv h h' m \<and> a < length h' \<and> (miss = [] \<longrightarrow> wired_from (length h) h')"
  "fill_children cs N this Ts ms h = Some (as, T', m', miss', h'') \<Longrightarrow> \<forall>c \<in> set cs. plan_in c \<Longrightarrow>
   mat_inv h0 h ms \<Longrightarrow>
   mat_inv h0 h'' m' \<and> extends h h'' \<and> (\<forall>b \<in> set as. b < length h'') \<and>
   (miss' = [] \<longrightarrow> wired_from n h \<longrightarrow> wired_from n h'')"
proof (induction p N par h and cs N this Ts ms h arbitrary: a T m miss h' and as T' m' miss' h'' h0 n
    rule: fill_fill_children.induct)
  case (1 d cs N par h)
  let ?own = "column_set (inputColumns d)"
  from "1.prems"(1) obtain r where
    "fill_children cs (columns_insert ?own N) ?own {} Map.empty h = Some r"
    by (auto simp: Let_def option_bind_eq_Some)
  then obtain ch T1 m1 miss1 h1 where
    c: "fill_children cs (columns_insert ?own N) ?own {} Map.empty h = Some (ch, T1, m1, miss1, h1)"
    by (metis prod_cases5)
  obtain a2 T2 m2 miss2 h2 where f2: "finish_node d par ch T1 m1 h1 = (a2, T2, m2, miss2, h2)"
    by (metis prod_cases5)
  from "1.prems"(1) have f: "finish_node d par ch T1 m1 h1 = (a, T, m, miss2, h')" and miss: "miss = miss1 @ miss2"
    by (simp_all add: c f2)
  have "mat_inv h h Map.empty" using "1.prems"(3) by (simp add: mat_inv_def)
  with "1.IH" [OF refl refl c] "1.prems"(2)
  have i: "mat_inv h h1 m1" "\<forall>b \<in> set ch. b < length h1" "miss1 = [] \<longrightarrow> wired_from (length h) h1"
    by auto
  then show ?case
    using finish_node_inv [OF f i(1) _ _ i(2)] "1.prems"(2) miss by auto
next
  case (2 N this Ts ms h)
  then show ?case by simp
next
  case (3 c cs N this Ts ms h)
  from "3.prems"(1) obtain a Tc mc miss1 h1 m2 h2 m3 as2 miss2 where
    c: "fill c N this h = Some (a, Tc, mc, miss1, h1)"
    and m: "(if outputsPosList (data_at h1 a) then materialize_columns a Tc N (mc ++ ms) h1
        else Some (mc ++ ms, h1)) = Some (m2, h2)"
    and r: "register_values (data_at h1 a) a m2 = Some m3"
    and cs: "fill_children cs N this (Ts \<union> Tc) m3 h2 = Some (as2, T', m', miss2, h'')"
    and e: "as = a # as2" "miss' = miss1 @ miss2"
    by (auto simp: Let_def option_bind_eq_Some)
  have hok: "heap_ok h" using "3.prems"(3) by (rule mat_invD)
  have one: "mat_inv h h1 mc" "a < length h1" "miss1 = [] \<longrightarrow> wired_from (length h) h1"
    using "3.IH"(1) [OF c] "3.prems"(2) hok by auto
  have st: "mat_inv h0 h2 m3" "extends h h2" "a < length h2" "miss1 = [] \<longrightarrow> wired_from n h \<longrightarrow> wired_from n h2"
    using child_step [OF "3.prems"(3) one m r] by auto
  have rest: "mat_inv h0 h'' m'" "extends h2 h''" "\<forall>b \<in> set as2. b < length h''"
      "miss2 = [] \<longrightarrow> wired_from n h2 \<longrightarrow> wired_from n h''"
    using "3.IH"(2) [OF c refl refl refl refl refl m refl r cs] "3.prems"(2) st(1) by auto
  then show ?case
    using st e extends_length [OF rest(2)] extends_trans [OF st(2) rest(2)] by auto
qed

text \<open>A plan that comes out of the pass is well formed and acyclic, and wired unless a column is missing.\<close>

lemma fill_wired:
  assumes "fillMaterializes p = Some (a, miss, h)" "plan_in p"
  shows "heap_ok h \<and> a < length h \<and> (miss = [] \<longrightarrow> (\<forall>b < length h. wired h b))"
proof -
  obtain T m where "fill p [] [] [] = Some (a, T, m, miss, h)"
    using assms(1) by (auto simp: fillMaterializes_def)
  from fill_inv(1) [OF this assms(2)] show ?thesis
    by (auto simp: mat_inv_def wired_from_def)
qed

section \<open>Aliased base tables\<close>

text \<open>A base table of a \<open>FROM\<close> clause that is not a cross product carries its name as its alias,
  the columns of the clauses do not, and \<open>std::set<Table>\<close> tells the two tables apart.\<close>

definition aliased :: "Table set \<Rightarrow> bool" where
  "aliased T \<longleftrightarrow> (\<forall>t \<in> T. talias t \<noteq> None)"

definition bare :: "TableColumn list \<Rightarrow> bool" where
  "bare cs \<longleftrightarrow> (\<forall>c \<in> set cs. talias (ctable c) = None)"

fun alias_split :: "plan \<Rightarrow> bool" where
  "alias_split (Plan d cs) \<longleftrightarrow> ir_ok d \<and> \<not> is_mat d \<and>
     (if base_fetch d then talias (input_table d) \<noteq> None \<and> cs = [] else bare (inputColumns d)) \<and>
     (\<forall>c \<in> set cs. alias_split c)"

lemma alias_split_in: "alias_split p \<Longrightarrow> plan_in p"
  by (induction p rule: alias_split.induct) auto

definition no_mats :: "heap \<Rightarrow> bool" where
  "no_mats h \<longleftrightarrow> (\<forall>a < length h. \<not> is_mat (data_at h a))"

lemma no_mats_snoc [heap_simps]: "no_mats (h @ [c]) \<longleftrightarrow> no_mats h \<and> \<not> is_mat (cdata c)"
  by (auto simp: no_mats_def heap_simps less_Suc_eq)

lemma nothing_to_materialize:
  "aliased T \<Longrightarrow> bare cs \<Longrightarrow> materialize_columns child T cs m h = Some (m, h)"
  by (induction cs) (auto simp: aliased_def bare_def)

lemma set_column_name_ops [simp]: "opInfo (set_column_name n d) = opInfo d"
  by (simp add: set_column_name_def)

lemma copy_base_ops:
  "copy_base ps ch d m h = (d', m', h') \<Longrightarrow> no_mats h \<Longrightarrow> \<not> is_mat d \<Longrightarrow>
   no_mats h' \<and> opInfo d' = opInfo d"
proof (induction ps arbitrary: d m h)
  case (Cons c ps)
  show ?case
  proof (cases "tname (ctable c) = tname (input_table d)")
    case True
    let ?d = "set_column_name (columnName c) d"
    have r: "copy_base ps ch ?d (m(col_key c \<mapsto> length h)) (h @ [\<lparr>cdata = ?d, cchildren = ch\<rparr>]) = (d', m', h')"
      using Cons.prems(1) True by (simp add: alloc_def Let_def)
    show ?thesis
      using Cons.IH [OF r] Cons.prems(2,3) by (simp add: heap_simps is_mat_def)
  qed (use Cons in simp)
qed simp

lemma finish_node_bare:
  assumes fin: "finish_node d par ch T m h = (a, T', m', miss, h')" and inv: "mat_inv h0 h m"
    and d: "alias_split (Plan d ps)" and ch: "\<forall>b \<in> set ch. b < length h"
    and T: "aliased T" and nm: "no_mats h"
  shows "aliased T' \<and> no_mats h'"
proof -
  have m: "\<not> is_mat d" using d by simp
  show ?thesis
  proof (cases "is_fetch d \<and> base_fetch d")
    case True
    obtain d1 m1 h1 where c: "copy_base par ch d m h = (d1, m1, h1)" by (metis prod_cases3)
    have leaf: "leaf_ok d" using True d by (simp add: leaf_ok_def)
    have "input_table d1 = input_table d"
      using copy_base_inv [OF c inv wired_from_refl leaf ch] by blast
    moreover have "no_mats h1 \<and> opInfo d1 = opInfo d" by (rule copy_base_ops [OF c nm m])
    moreover have "T' = insert (input_table d1) T" "h' = h1 @ [\<lparr>cdata = d1, cchildren = ch\<rparr>]"
      using fin True c by (auto simp: finish_node_def alloc_def)
    ultimately show ?thesis using T True d by (simp add: heap_simps aliased_def is_mat_def)
  next
    case False
    then have "T' = T \<and> (\<exists>cl. h' = h @ [cl] \<and> cdata cl = d)"
      using fin by (auto simp: finish_node_def alloc_def split: if_splits)
    then show ?thesis using T nm m by (auto simp: heap_simps)
  qed
qed

lemma bare_insert: "bare cs \<Longrightarrow> bare N \<Longrightarrow> bare (columns_insert (column_set cs) N)"
  using column_set_subset [of cs] insert_all_by_subset [of col_key "column_set cs" N]
  by (fastforce simp: bare_def columns_insert_def)

lemma fill_bare:
  "fill p N par h = Some (a, T, m, miss, h') \<Longrightarrow> alias_split p \<Longrightarrow> heap_ok h \<Longrightarrow> bare N \<Longrightarrow> no_mats h \<Longrightarrow>
   aliased T \<and> no_mats h'"
  "fill_children cs N this Ts ms h = Some (as, T', m', miss', h'') \<Longrightarrow> \<forall>c \<in> set cs. alias_split c \<Longrightarrow>
   heap_ok h \<Longrightarrow> mat_inv h h ms \<Longrightarrow> bare N \<or> cs = [] \<Longrightarrow> aliased Ts \<Longrightarrow> no_mats h \<Longrightarrow> aliased T' \<and> no_mats h''"
proof (induction p N par h and cs N this Ts ms h arbitrary: a T m miss h' and as T' m' miss' h''
    rule: fill_fill_children.induct)
  case (1 d cs N par h)
  let ?own = "column_set (inputColumns d)"
  from "1.prems"(1) obtain r where
    "fill_children cs (columns_insert ?own N) ?own {} Map.empty h = Some r"
    by (auto simp: Let_def option_bind_eq_Some)
  then obtain ch T1 m1 miss1 h1 where
    c: "fill_children cs (columns_insert ?own N) ?own {} Map.empty h = Some (ch, T1, m1, miss1, h1)"
    by (metis prod_cases5)
  obtain a2 T2 m2 miss2 h2 where f2: "finish_node d par ch T1 m1 h1 = (a2, T2, m2, miss2, h2)"
    by (metis prod_cases5)
  from "1.prems"(1) have f: "finish_node d par ch T1 m1 h1 = (a, T, m, miss2, h')"
    by (simp_all add: c f2)
  have "mat_inv h h Map.empty" using "1.prems"(3) by (simp add: mat_inv_def)
  then have i: "mat_inv h h1 m1" "\<forall>b \<in> set ch. b < length h1"
    using fill_inv(2) [OF c] "1.prems"(2) alias_split_in by auto
  have "bare (columns_insert ?own N) \<or> cs = []"
    using bare_insert "1.prems"(2,4) by (cases "base_fetch d") auto
  with "1.IH" [OF refl refl c] "1.prems" have "aliased T1 \<and> no_mats h1"
    using \<open>mat_inv h h Map.empty\<close> by (auto simp: aliased_def)
  then show ?case
    using finish_node_bare [OF f i(1) "1.prems"(2) i(2)] by blast
next
  case (2 N this Ts ms h)
  then show ?case by simp
next
  case (3 c cs N this Ts ms h)
  from "3.prems"(1) obtain a Tc mc miss1 h1 m2 h2 m3 as2 miss2 where
    c: "fill c N this h = Some (a, Tc, mc, miss1, h1)"
    and m: "(if outputsPosList (data_at h1 a) then materialize_columns a Tc N (mc ++ ms) h1
        else Some (mc ++ ms, h1)) = Some (m2, h2)"
    and r: "register_values (data_at h1 a) a m2 = Some m3"
    and cs: "fill_children cs N this (Ts \<union> Tc) m3 h2 = Some (as2, T', m', miss2, h'')"
    by (auto simp: Let_def option_bind_eq_Some)
  have in_c: "alias_split c" "bare N" using "3.prems"(2,5) by auto
  have one: "mat_inv h h1 mc" "a < length h1"
    using fill_inv(1) [OF c alias_split_in [OF in_c(1)] "3.prems"(3)] by auto
  have "mat_inv h h2 m3" using child_step [OF "3.prems"(4) one _ m r, of False] by simp
  then have st: "heap_ok h2" "mat_inv h2 h2 m3" by (auto simp: mat_inv_def)
  have Tc: "aliased Tc" "no_mats h1"
    using "3.IH"(1) [OF c] in_c "3.prems"(3,7) by auto
  then have "h2 = h1" using m nothing_to_materialize in_c(2) by (auto split: if_splits)
  then show ?case
    using "3.IH"(2) [OF c refl refl refl refl refl m refl r cs] "3.prems"(2,6) st Tc in_c(2)
    by (auto simp: aliased_def)
qed

text \<open>C14 A query whose base tables carry an alias (every \<open>FROM\<close> clause other than a cross product)
  is never materialized: the pass creates no materialize node at all, so no filter, join or sort
  of such a query reaches the columns above it.\<close>

theorem aliased_base_not_materialized:
  assumes "alias_split p" "fillMaterializes p = Some (a, miss, h)"
  shows "\<forall>b < length h. \<not> is_mat (data_at h b)"
proof -
  obtain T m where "fill p [] [] [] = Some (a, T, m, miss, h)"
    using assms(2) by (auto simp: fillMaterializes_def)
  from fill_bare(1) [OF this assms(1)] show ?thesis by (simp add: bare_def no_mats_def)
qed


section \<open>Witnesses\<close>

definition lo_col :: "string \<Rightarrow> TableColumn" where
  "lo_col c = mkColumn (table_of ''lineorder'') c TYPE_INTEGER None"

text \<open>A projection over a filter, with the base table given with and without an alias.\<close>

definition filter_plan :: "string option \<Rightarrow> plan" where
  "filter_plan a = Plan (select_create [lo_col ''lo_revenue''] None [])
     [Plan (filter_create (lo_col ''lo_tax'') COMP_EQ None [ScalarInt 3] (lo_col ''lo_tax''))
       [Plan (fetch_create (mkColumn (mkTable ''lineorder'' a False []) [] TYPE_INTEGER None) True) []]]"

lemma filter_plan_runs:
  "(case fillMaterializes (filter_plan None) of Some (a, miss, h) \<Rightarrow> miss = [] \<and> length h = 6 | None \<Rightarrow> False)"
  "(case fillMaterializes (filter_plan (Some ''lineorder'')) of Some (a, miss, h) \<Rightarrow> length h = 4 | None \<Rightarrow> False)"
  by code_simp+


lemma filter_plan_in: "plan_in (filter_plan x)"
  unfolding filter_plan_def by (simp, simp add: create_defs is_mat_def)

lemma filter_plan_split: "alias_split (filter_plan (Some ''lineorder''))"
  by (simp add: filter_plan_def, simp add: create_defs is_mat_def bare_def base_fetch_def
      input_table_def mkTable_def drop_empty_def lo_col_def)

theorem aliased_base_not_materialized_witness:
  "\<exists>a miss h. fillMaterializes (filter_plan (Some ''lineorder'')) = Some (a, miss, h) \<and>
     (\<forall>b < length h. \<not> is_mat (data_at h b))"
proof -
  obtain a miss h where "fillMaterializes (filter_plan (Some ''lineorder'')) = Some (a, miss, h)"
    using filter_plan_runs(2) by (auto split: option.splits)
  with aliased_base_not_materialized [OF filter_plan_split this] show ?thesis by blast
qed

end
