(* ===== verification/Late_Materialize.thy ===== *)
theory Late_Materialize
  imports Materialize
begin

text \<open>
  The late materialization passes \<open>putLateMaterializationV2\<close> and \<open>putLateMaterializationHybrid\<close> of
  \<open>src/ir_optimizations/ir_optimizations.cpp\<close>: below an operator only position lists are carried
  upwards, one per table, and a column is fetched where an operator reads it. The two passes have
  one body and differ in which materialized columns they keep filtering on the way up; that test
  is the parameter \<open>keep\<close> of the shared definitions.
\<close>

section \<open>Maps with null entries\<close>

text \<open>\<open>std::map<K, std::shared_ptr<PlanNode>>\<close> read with \<open>operator[]\<close>: a key that was only looked at
  is in the map with a null pointer, and \<open>merge\<close> keeps such an entry.\<close>

type_synonym 'k nmap = "'k \<rightharpoonup> nat option"

definition look :: "'k nmap \<Rightarrow> 'k \<Rightarrow> nat option" where
  "look m k = (case m k of Some p \<Rightarrow> p | None \<Rightarrow> None)"

definition touch :: "'k \<Rightarrow> 'k nmap \<Rightarrow> 'k nmap" where
  "touch k m = (if m k = None then m(k \<mapsto> None) else m)"

lemma look_simps [simp]:
  "look Map.empty = (\<lambda>k. None)" "look (m(k \<mapsto> p)) = (look m)(k := p)" "look (touch k m) = look m"
  by (auto simp: look_def touch_def fun_eq_iff)

lemma look_merge: "look (m ++ m') k = (if m' k = None then look m k else look m' k)"
  by (auto simp: look_def map_add_def split: option.splits)

section \<open>The pass\<close>

record late =
  curMat :: "colkey nmap"
  curPos :: "Table nmap"
  lheap :: heap

definition is_computed :: "TableColumn \<Rightarrow> bool" where
  "is_computed c \<longleftrightarrow> tname (ctable c) = ''AGG'' \<or> tname (ctable c) = ''MAP''"

definition keep_v2 :: "TableColumn list \<Rightarrow> TableColumn \<Rightarrow> bool" where
  "keep_v2 needed c \<longleftrightarrow> is_computed c"

text \<open>The hybrid pass also keeps the only needed column of a table (counted with \<open>operator==\<close>).\<close>

definition keep_hybrid :: "TableColumn list \<Rightarrow> TableColumn \<Rightarrow> bool" where
  "keep_hybrid needed c \<longleftrightarrow>
     is_computed c \<or> length (filter (\<lambda>x. table_eq (ctable x) (ctable c)) needed) = 1"

definition set_mat :: "TableColumn \<Rightarrow> nat \<Rightarrow> late \<Rightarrow> late" where
  "set_mat c a s = s\<lparr>curMat := (curMat s)(col_key c \<mapsto> Some a)\<rparr>"

definition set_pos :: "Table \<Rightarrow> nat \<Rightarrow> late \<Rightarrow> late" where
  "set_pos t a s = s\<lparr>curPos := (curPos s)(t \<mapsto> Some a)\<rparr>"

definition late_alloc :: "cell \<Rightarrow> late \<Rightarrow> nat \<times> late" where
  "late_alloc c s = (length (lheap s), s\<lparr>lheap := lheap s @ [c]\<rparr>)"

text \<open>The output column of the child that filters a column, and the first output column over a
  table (undefined when there is none).\<close>

definition filter_column :: "heap \<Rightarrow> TableColumn \<Rightarrow> nat \<Rightarrow> TableColumn option" where
  "filter_column h c child = do { idx \<leftarrow> detFilterColIdx h c child; at (outputCols (data_at h child)) idx }"

definition column_of_table :: "IrData \<Rightarrow> Table \<Rightarrow> TableColumn option" where
  "column_of_table d t = at (filter (\<lambda>c. table_eq (ctable c) t) (outputCols d)) 0"

text \<open>One column needed later, below a child with a position list.\<close>

definition late_column ::
    "bool \<Rightarrow> nat \<Rightarrow> Table set \<Rightarrow> Table nmap \<Rightarrow> colkey nmap \<Rightarrow> TableColumn \<Rightarrow> late \<Rightarrow> late option" where
  "late_column keep child T pPos prevMat c s =
     (case (look prevMat (col_key c), keep) of
        (Some prev, True) \<Rightarrow>
          do { flt \<leftarrow> filter_column (lheap s) c child;
               let (n, s') = late_alloc (mat_cell c flt c False prev child) s;
               Some (set_mat c n s') }
      | _ \<Rightarrow>
        if ctable c \<in> T \<and> look (curPos s) (ctable c) = None then
          case look pPos (ctable c) of
            Some prev \<Rightarrow>
              do { flt \<leftarrow> filter_column (lheap s) c child;
                   pc \<leftarrow> column_of_table (data_at (lheap s) prev) (ctable c);
                   let (n, s') = late_alloc (mat_cell pc flt c True prev child) s;
                   Some (set_pos (ctable c) n s') }
          | None \<Rightarrow> Some (set_pos (ctable c) child s)
        else Some s)"

fun late_columns ::
    "(TableColumn \<Rightarrow> bool) \<Rightarrow> nat \<Rightarrow> Table set \<Rightarrow> Table nmap \<Rightarrow> colkey nmap \<Rightarrow> TableColumn list \<Rightarrow> late \<Rightarrow> late option" where
  "late_columns keep child T pPos prevMat [] s = Some s"
| "late_columns keep child T pPos prevMat (c # cs) s =
     do { s' \<leftarrow> late_column (keep c) child T pPos prevMat c s;
          late_columns keep child T pPos prevMat cs s' }"

text \<open>Materialized values of a child; a grouping only gives its aggregation.\<close>

definition late_register :: "IrData \<Rightarrow> nat \<Rightarrow> late \<Rightarrow> late option" where
  "late_register d child s =
     (if \<not> outputsMatVals d then Some s
      else if is_group d then Some (case group_aggResultCol d of Some c \<Rightarrow> set_mat c child s | None \<Rightarrow> s)
      else map_option (\<lambda>c. set_mat c child s) (at (outputCols d) 0))"

text \<open>Rewiring: a materialized column, or the column fetched under the latest position list of its
  table, or nothing (reported on the console).\<close>

fun late_rewire :: "TableColumn list \<Rightarrow> late \<Rightarrow> (nat list \<times> TableColumn list \<times> late) option" where
  "late_rewire [] s = Some ([], [], s)"
| "late_rewire (c # cs) s0 =
     (let s = s0\<lparr>curMat := touch (col_key c) (curMat s0)\<rparr> in
      case look (curMat s) (col_key c) of
        Some a \<Rightarrow> do { (as, ms, s') \<leftarrow> late_rewire cs s; Some (a # as, ms, s') }
      | None \<Rightarrow>
          let s1 = s\<lparr>curPos := touch (ctable c) (curPos s)\<rparr> in
          (case look (curPos s1) (ctable c) of
             Some p \<Rightarrow>
               do { pc \<leftarrow> column_of_table (data_at (lheap s1) p) (ctable c);
                    let (f, s2) = late_alloc (fetch_cell c) s1;
                    let (n, s3) = late_alloc (mat_cell c pc c False f p) s2;
                    (as, ms, s') \<leftarrow> late_rewire cs (set_mat c n s3);
                    Some (n # as, ms, s') }
           | None \<Rightarrow> do { (as, ms, s') \<leftarrow> late_rewire cs s1; Some (as, c # ms, s') }))"

fun name_base :: "TableColumn list \<Rightarrow> IrData \<Rightarrow> IrData" where
  "name_base [] d = d"
| "name_base (c # cs) d =
     (if tname (ctable c) = tname (input_table d) then name_base cs (set_column_name (columnName c) d)
      else name_base cs d)"

definition late_finish ::
    "IrData \<Rightarrow> TableColumn list \<Rightarrow> nat list \<Rightarrow> Table set \<Rightarrow> late \<Rightarrow>
     (nat \<times> Table set \<times> TableColumn list \<times> late) option" where
  "late_finish d inputOfParent ch T s =
     (if is_fetch d then
        if base_fetch d then
          let d' = name_base inputOfParent d; (a, s') = late_alloc \<lparr>cdata = d', cchildren = ch\<rparr> s
          in Some (a, insert (input_table d') T, [], s')
        else let (a, s') = late_alloc \<lparr>cdata = d, cchildren = ch\<rparr> s in Some (a, T, [], s')
      else
        do { (as, ms, s1) \<leftarrow> late_rewire (inputColumns d) s;
             let (a, s') = late_alloc \<lparr>cdata = d, cchildren = as\<rparr> s1;
             Some (a, T, ms, s') })"

text \<open>The maps of a child are copied when its call returns. Below a child without a position list
  its position lists are merged into those of the node; \<open>prevMat.merge(prevMat)\<close> merges a map
  into itself, so the materialized columns from further below are dropped there.\<close>

fun late_node ::
    "(TableColumn list \<Rightarrow> TableColumn \<Rightarrow> bool) \<Rightarrow> plan \<Rightarrow> ColumnSet \<Rightarrow> TableColumn list \<Rightarrow> heap \<Rightarrow>
     (nat \<times> Table set \<times> TableColumn list \<times> late) option"
and late_children ::
    "(TableColumn list \<Rightarrow> TableColumn \<Rightarrow> bool) \<Rightarrow> plan list \<Rightarrow> ColumnSet \<Rightarrow> TableColumn list \<Rightarrow> Table set \<Rightarrow> late \<Rightarrow>
     (nat list \<times> Table set \<times> TableColumn list \<times> late) option" where
  "late_node keep (Plan d cs) columnsNeededLater inputOfParent h =
     (let needed = columns_insert (inputColumns d) columnsNeededLater
      in do { (ch, T, miss, s) \<leftarrow> late_children keep cs needed (inputColumns d) {}
                \<lparr>curMat = Map.empty, curPos = Map.empty, lheap = h\<rparr>;
              (a, T', miss', s') \<leftarrow> late_finish d inputOfParent ch T s;
              Some (a, T', miss @ miss', s') })"
| "late_children keep [] needed this T s = Some ([], T, [], s)"
| "late_children keep (c # cs) needed this T s =
     do { (a, Tc, miss, r) \<leftarrow> late_node keep c needed this (lheap s);
          let d = data_at (lheap r) a;
          let s1 = s\<lparr>lheap := lheap r\<rparr>;
          s2 \<leftarrow> (if outputsPosList d
                 then late_columns (keep needed) a Tc (curPos r) (curMat r) needed s1
                 else Some (s1\<lparr>curPos := curPos r ++ curPos s\<rparr>));
          s3 \<leftarrow> late_register d a s2;
          (as, T', miss', s') \<leftarrow> late_children keep cs needed this (T \<union> Tc) s3;
          Some (a # as, T', miss @ miss', s') }"

definition putLateMaterializationV2 :: "plan \<Rightarrow> (nat \<times> TableColumn list \<times> heap) option" where
  "putLateMaterializationV2 p = map_option (\<lambda>(a, _, miss, s). (a, miss, lheap s)) (late_node keep_v2 p [] [] [])"

definition putLateMaterializationHybrid :: "plan \<Rightarrow> (nat \<times> TableColumn list \<times> heap) option" where
  "putLateMaterializationHybrid p =
     map_option (\<lambda>(a, _, miss, s). (a, miss, lheap s)) (late_node keep_hybrid p [] [] [])"


section \<open>What the passes establish\<close>

definition late_inv :: "heap \<Rightarrow> nat \<Rightarrow> bool \<Rightarrow> late \<Rightarrow> bool" where
  "late_inv h0 n w s \<longleftrightarrow> extends h0 (lheap s) \<and> heap_ok (lheap s) \<and>
     cols.reg_ok (lheap s) (look (curMat s)) \<and> poss.reg_ok (lheap s) (look (curPos s)) \<and>
     (w \<longrightarrow> wired_from n (lheap s))"

lemma late_invD:
  assumes "late_inv h0 n w s"
  shows "extends h0 (lheap s)" "heap_ok (lheap s)" "cols.reg_ok (lheap s) (look (curMat s))"
    "poss.reg_ok (lheap s) (look (curPos s))" "w \<Longrightarrow> wired_from n (lheap s)"
  using assms by (simp_all add: late_inv_def)

lemma late_inv_alloc:
  assumes "late_inv h0 n w s" "ir_ok (cdata c)" "\<forall>b \<in> set (cchildren c). b < length (lheap s)"
    and "w \<Longrightarrow> wired (lheap s @ [c]) (length (lheap s))"
  shows "late_inv h0 n w (s\<lparr>lheap := lheap s @ [c]\<rparr>)"
proof -
  note i = late_invD [OF assms(1)]
  have "extends h0 (lheap s @ [c])" by (rule extends_trans [OF i(1) extends_append])
  then show ?thesis
    using i assms(2-) wired_from_snoc
    by (auto simp: late_inv_def heap_simps intro: cols.reg_extends poss.reg_extends)
qed

lemma late_inv_set_mat:
  "late_inv h0 n w s \<Longrightarrow> serves (lheap s) a (col_key c) \<Longrightarrow> late_inv h0 n w (set_mat c a s)"
  by (simp add: late_inv_def set_mat_def cols.reg_update)

lemma late_inv_set_pos:
  "late_inv h0 n w s \<Longrightarrow> holds_positions (lheap s) a t \<Longrightarrow> late_inv h0 n w (set_pos t a s)"
  by (simp add: late_inv_def set_pos_def poss.reg_update)

lemma late_inv_touch:
  "late_inv h0 n w s \<Longrightarrow> late_inv h0 n w (s\<lparr>curMat := touch k (curMat s)\<rparr>)"
  "late_inv h0 n w s \<Longrightarrow> late_inv h0 n w (s\<lparr>curPos := touch t (curPos s)\<rparr>)"
  by (simp_all add: late_inv_def)

lemma filter_column_in: "filter_column h c child = Some f \<Longrightarrow> f \<in> set (outputCols (data_at h child))"
  by (auto simp: filter_column_def option_bind_eq_Some)

lemma column_of_table_in: "column_of_table d t = Some c \<Longrightarrow> c \<in> set (outputCols d)"
  unfolding column_of_table_def using nth_mem by (fastforce simp: at_def split: if_splits)

lemma output_serves: "c \<in> set (outputCols (data_at h a)) \<Longrightarrow> a < length h \<Longrightarrow> serves h a (col_key c)"
  by (auto simp: serves_def outputs_key_def)

lemma late_mat_step:
  assumes inv: "late_inv h0 n w s" and src: "serves (lheap s) src (col_key idx)"
    and ch: "child < length (lheap s)" "outputsPosList (data_at (lheap s) child)"
      "flt \<in> set (outputCols (data_at (lheap s) child))"
  shows "late_inv h0 n w (s\<lparr>lheap := lheap s @ [mat_cell idx flt out pos src child]\<rparr>)"
    and "serves (lheap s @ [mat_cell idx flt out pos src child]) (length (lheap s)) (col_key out)"
    and "pos \<Longrightarrow> holds_positions (lheap s @ [mat_cell idx flt out pos src child]) (length (lheap s)) t"
proof -
  have "src < length (lheap s)" using src by (simp add: serves_def)
  then show "late_inv h0 n w (s\<lparr>lheap := lheap s @ [mat_cell idx flt out pos src child]\<rparr>)"
    using ch src by (intro late_inv_alloc [OF inv]) (simp_all add: mat_cell_def mat_cell_wired)
  show "serves (lheap s @ [mat_cell idx flt out pos src child]) (length (lheap s)) (col_key out)"
    by (rule mat_cell_serves)
  show "pos \<Longrightarrow> holds_positions (lheap s @ [mat_cell idx flt out pos src child]) (length (lheap s)) t"
    by (simp add: holds_positions_def heap_simps mat_cell_def ir_simps)
qed

lemma late_column_inv:
  assumes run: "late_column keep child T pPos prevMat c s = Some s'" and inv: "late_inv h0 n w s"
    and ch: "child < length (lheap s)" "outputsPosList (data_at (lheap s) child)"
    and pr: "cols.reg_ok (lheap s) (look prevMat)" "poss.reg_ok (lheap s) (look pPos)"
  shows "late_inv h0 n w s' \<and> extends (lheap s) (lheap s')"
proof (cases "\<exists>prev. look prevMat (col_key c) = Some prev \<and> keep")
  case True
  then obtain prev where p: "look prevMat (col_key c) = Some prev" "keep" by blast
  with run obtain flt where f: "filter_column (lheap s) c child = Some flt"
    and s': "s' = set_mat c (length (lheap s)) (s\<lparr>lheap := lheap s @ [mat_cell c flt c False prev child]\<rparr>)"
    by (auto simp: late_column_def option_bind_eq_Some late_alloc_def)
  note st = late_mat_step [OF inv cols.reg_lookup [OF pr(1) p(1)] ch filter_column_in [OF f], where out = c and pos = False]
  show ?thesis
    unfolding s' using late_inv_set_mat [OF st(1)] st(2) by (simp add: set_mat_def)
next
  case False
  then have r: "(if ctable c \<in> T \<and> look (curPos s) (ctable c) = None then
          case look pPos (ctable c) of
            Some prev \<Rightarrow>
              do { flt \<leftarrow> filter_column (lheap s) c child;
                   pc \<leftarrow> column_of_table (data_at (lheap s) prev) (ctable c);
                   let (n, s') = late_alloc (mat_cell pc flt c True prev child) s;
                   Some (set_pos (ctable c) n s') }
          | None \<Rightarrow> Some (set_pos (ctable c) child s)
        else Some s) = Some s'"
    using run by (auto simp: late_column_def split: option.splits bool.splits)
  show ?thesis
  proof (cases "ctable c \<in> T \<and> look (curPos s) (ctable c) = None")
    case False
    then show ?thesis using r inv by auto
  next
    case True
    show ?thesis
    proof (cases "look pPos (ctable c)")
      case None
      have "holds_positions (lheap s) child (ctable c)" using ch by (simp add: holds_positions_def)
      from late_inv_set_pos [OF inv this] show ?thesis using r True None by (auto simp: set_pos_def)
    next
      case (Some prev)
      with r True obtain flt pc where f: "filter_column (lheap s) c child = Some flt"
        and pc: "column_of_table (data_at (lheap s) prev) (ctable c) = Some pc"
        and s': "s' = set_pos (ctable c) (length (lheap s)) (s\<lparr>lheap := lheap s @ [mat_cell pc flt c True prev child]\<rparr>)"
        by (auto simp: option_bind_eq_Some late_alloc_def)
      have "serves (lheap s) prev (col_key pc)"
        by (rule output_serves [OF column_of_table_in [OF pc] poss.reg_bound [OF pr(2) Some]])
      note st = late_mat_step [OF inv this ch filter_column_in [OF f], where out = c and pos = True]
      show ?thesis
        unfolding s' using late_inv_set_pos [OF st(1)] st(3) by (simp add: set_pos_def)
    qed
  qed
qed


lemma late_columns_inv:
  assumes "late_columns keep child T pPos prevMat cs s = Some s'" "late_inv h0 n w s"
    and "child < length (lheap s)" "outputsPosList (data_at (lheap s) child)"
    and "cols.reg_ok (lheap s) (look prevMat)" "poss.reg_ok (lheap s) (look pPos)"
  shows "late_inv h0 n w s' \<and> extends (lheap s) (lheap s')"
  using assms
proof (induction cs arbitrary: s)
  case (Cons c cs)
  then obtain s1 where s1: "late_column (keep c) child T pPos prevMat c s = Some s1"
    "late_columns keep child T pPos prevMat cs s1 = Some s'"
    by (auto simp: option_bind_eq_Some)
  have i: "late_inv h0 n w s1" "extends (lheap s) (lheap s1)"
    using late_column_inv [OF s1(1) Cons.prems(2-6)] by auto
  have "child < length (lheap s1)" "outputsPosList (data_at (lheap s1) child)"
    using Cons.prems(3,4) extends_length [OF i(2)] extends_at [OF i(2) Cons.prems(3)] by auto
  then have "late_inv h0 n w s' \<and> extends (lheap s1) (lheap s')"
    using Cons.IH [OF s1(2) i(1)] cols.reg_extends [OF Cons.prems(5) i(2)]
      poss.reg_extends [OF Cons.prems(6) i(2)] by blast
  then show ?case using i(2) extends_trans by blast
qed simp

lemma late_register_inv:
  assumes "late_register (data_at (lheap s) a) a s = Some s'" "late_inv h0 n w s" "a < length (lheap s)"
  shows "late_inv h0 n w s' \<and> lheap s' = lheap s"
proof -
  let ?d = "data_at (lheap s) a"
  consider "s' = s" | c where "s' = set_mat c a s" "c \<in> set (outputCols ?d)"
    using assms(1)
    by (auto simp: late_register_def group_aggResultCol_def split: if_splits option.splits OpInfo.splits)
  then show ?thesis
    by cases (use assms(2,3) late_inv_set_mat output_serves in \<open>auto simp: set_mat_def\<close>)
qed

lemma late_rewire_inv:
  assumes "late_rewire ins s = Some (as, ms, s')" "late_inv h0 n w s"
  shows "late_inv h0 n w s' \<and> extends (lheap s) (lheap s') \<and> (\<forall>b \<in> set as. b < length (lheap s')) \<and>
    (ms = [] \<longrightarrow> list_all2 (\<lambda>b c. serves (lheap s') b (col_key c)) as ins)"
  using assms
proof (induction ins arbitrary: s as ms)
  case (Cons c ins)
  let ?s = "s\<lparr>curMat := touch (col_key c) (curMat s)\<rparr>"
  let ?s1 = "?s\<lparr>curPos := touch (ctable c) (curPos s)\<rparr>"
  have inv: "late_inv h0 n w ?s" by (rule late_inv_touch(1) [OF Cons.prems(2)])
  have inv1: "late_inv h0 n w ?s1" using late_inv_touch(2) [OF inv] by simp
  show ?case
  proof (cases "look (curMat s) (col_key c)")
    case (Some a)
    with Cons.prems(1) obtain as1 where r: "late_rewire ins ?s = Some (as1, ms, s')" "as = a # as1"
      by (auto simp: Let_def option_bind_eq_Some)
    note ih = Cons.IH [OF r(1) inv]
    have "serves (lheap s) a (col_key c)"
      by (rule cols.reg_lookup [OF late_invD(3) [OF Cons.prems(2)] Some])
    then have "serves (lheap s') a (col_key c)" using ih cols.good_extends by auto
    then show ?thesis using ih r(2) by (auto simp: serves_def)
  next
    case None
    show ?thesis
    proof (cases "look (curPos s) (ctable c)")
      case N: None
      with None Cons.prems(1) obtain ms1 where r: "late_rewire ins ?s1 = Some (as, ms1, s')" "ms = c # ms1"
        by (auto simp: Let_def option_bind_eq_Some)
      show ?thesis using Cons.IH [OF r(1) inv1] r(2) by auto
    next
      case (Some p)
      let ?h1 = "lheap s @ [fetch_cell c]"
      let ?s2 = "?s1\<lparr>lheap := ?h1\<rparr>"
      from Some None Cons.prems(1) obtain pc as1 where
        pc: "column_of_table (data_at (lheap s) p) (ctable c) = Some pc"
        and r: "late_rewire ins (set_mat c (length ?h1)
            (?s2\<lparr>lheap := ?h1 @ [mat_cell c pc c False (length (lheap s)) p]\<rparr>)) = Some (as1, ms, s')"
        and as: "as = length ?h1 # as1"
        by (auto simp: Let_def option_bind_eq_Some late_alloc_def)
      have p: "p < length (lheap s)" "outputsPosList (data_at (lheap s) p)"
        using poss.reg_lookup [OF late_invD(4) [OF Cons.prems(2)] Some] by (auto simp: holds_positions_def)
      have i2: "late_inv h0 n w ?s2"
        using late_inv_alloc [OF inv1, of "fetch_cell c"] fetch_cell_wired by (simp add: fetch_cell_def)
      have st: "late_inv h0 n w (?s2\<lparr>lheap := lheap ?s2 @ [mat_cell c pc c False (length (lheap s)) p]\<rparr>)"
        "serves (lheap ?s2 @ [mat_cell c pc c False (length (lheap s)) p]) (length (lheap ?s2)) (col_key c)"
        using late_mat_step(1,2) [OF i2, of "length (lheap s)" c p pc c False] p column_of_table_in [OF pc]
          fetch_cell_serves by (simp_all add: heap_simps)
      let ?s3 = "set_mat c (length ?h1) (?s2\<lparr>lheap := ?h1 @ [mat_cell c pc c False (length (lheap s)) p]\<rparr>)"
      have i3: "late_inv h0 n w ?s3" using late_inv_set_mat [OF st(1)] st(2) by simp
      note ih = Cons.IH [OF r i3]
      have e: "extends (lheap s) (lheap ?s3)" by (simp add: set_mat_def extends_def)
      have "serves (lheap ?s3) (length ?h1) (col_key c)" using st(2) by (simp add: set_mat_def)
      then have "serves (lheap s') (length ?h1) (col_key c)" using ih cols.good_extends by blast
      then show ?thesis using ih as extends_trans [OF e] by (auto simp: serves_def)
    qed
  qed
qed simp

lemma name_base_leaf:
  "leaf_ok d \<Longrightarrow> leaf_ok (name_base ps d)"
  by (induction ps arbitrary: d) (auto simp: set_column_name_leaf)

lemma late_finish_inv:
  assumes fin: "late_finish d par ch T s = Some (a, T', miss, s')" and inv: "late_inv h0 n w s"
    and d: "ir_ok d" "\<not> is_mat d" and ch: "\<forall>b \<in> set ch. b < length (lheap s)"
  shows "late_inv h0 n (w \<and> miss = []) s' \<and> a < length (lheap s') \<and> extends (lheap s) (lheap s')"
proof (cases "is_fetch d")
  case True
  then obtain d1 where s': "s' = s\<lparr>lheap := lheap s @ [\<lparr>cdata = d1, cchildren = ch\<rparr>]\<rparr>" "a = length (lheap s)"
      "miss = []" and d1: "leaf_ok d1"
    using fin d(1) name_base_leaf [of d par] by (auto simp: late_finish_def late_alloc_def leaf_ok_def Let_def split: if_splits)
  have "late_inv h0 n w s'"
    unfolding s' using d1 ch leaf_wired [of "\<lparr>cdata = d1, cchildren = ch\<rparr>"]
    by (intro late_inv_alloc [OF inv]) (simp_all add: leaf_ok_def)
  then show ?thesis using s' by simp
next
  case False
  with fin obtain as s1 where r: "late_rewire (inputColumns d) s = Some (as, miss, s1)"
    and s': "s' = s1\<lparr>lheap := lheap s1 @ [\<lparr>cdata = d, cchildren = as\<rparr>]\<rparr>" "a = length (lheap s1)"
    by (auto simp: late_finish_def option_bind_eq_Some late_alloc_def)
  note rw = late_rewire_inv [OF r inv]
  have i: "late_inv h0 n (w \<and> miss = []) s1" using rw by (auto simp: late_inv_def)
  have "wired (lheap s1 @ [\<lparr>cdata = d, cchildren = as\<rparr>]) (length (lheap s1))" if "miss = []"
  proof -
    have "list_all2 (\<lambda>b c. serves (lheap s1) b (col_key c)) as (inputColumns d)"
      using rw that by simp
    then have "list_all2 (\<lambda>b c. serves (lheap s1 @ [\<lparr>cdata = d, cchildren = as\<rparr>]) b (col_key c)) as (inputColumns d)"
      by (rule list_all2_mono) (rule cols.good_extends [OF _ extends_append])
    then show ?thesis using d(2) by (simp add: wired_def heap_simps)
  qed
  then have "late_inv h0 n (w \<and> miss = []) s'"
    unfolding s' using d(1) rw by (intro late_inv_alloc [OF i]) simp_all
  then show ?thesis using s' rw extends_trans [OF _ extends_append] by auto
qed


lemma late_child_step:
  assumes inv: "late_inv h0 n w s" and call: "late_inv (lheap s) (length (lheap s)) v r" "a < length (lheap r)"
    and pos: "(if outputsPosList (data_at (lheap r) a)
        then late_columns keep a Tc (curPos r) (curMat r) needed (s\<lparr>lheap := lheap r\<rparr>)
        else Some (s\<lparr>lheap := lheap r, curPos := curPos r ++ curPos s\<rparr>)) = Some s2"
    and reg: "late_register (data_at (lheap r) a) a s2 = Some s3"
  shows "late_inv h0 n (w \<and> v) s3 \<and> extends (lheap s) (lheap s3) \<and> a < length (lheap s3)"
proof -
  let ?s1 = "s\<lparr>lheap := lheap r\<rparr>"
  note c = late_invD [OF call(1)] and i = late_invD [OF inv]
  have w: "wired_from n (lheap r)" if "w" "v"
    using wired_from_trans [OF i(5) c(1) c(5)] that by blast
  have s1: "late_inv h0 n (w \<and> v) ?s1"
    using c i w extends_trans [OF i(1) c(1)] cols.reg_extends [OF i(3) c(1)] poss.reg_extends [OF i(4) c(1)]
    by (simp add: late_inv_def)
  have s2: "late_inv h0 n (w \<and> v) s2 \<and> extends (lheap r) (lheap s2)"
  proof (cases "outputsPosList (data_at (lheap r) a)")
    case True
    then have run: "late_columns keep a Tc (curPos r) (curMat r) needed ?s1 = Some s2" using pos by simp
    show ?thesis
      using late_columns_inv [OF run s1] True call(2) c(3,4) by simp
  next
    case False
    then have "s2 = ?s1\<lparr>curPos := curPos r ++ curPos s\<rparr>" using pos by simp
    moreover have "poss.reg_ok (lheap r) (look (curPos r ++ curPos s))"
      using c(4) poss.reg_extends [OF i(4) c(1)] by (auto simp: poss.reg_ok_def look_merge split: if_splits)
    ultimately show ?thesis using s1 by (simp add: late_inv_def)
  qed
  have a2: "a < length (lheap s2)" "data_at (lheap s2) a = data_at (lheap r) a"
    using call(2) s2 extends_length extends_at by fastforce+
  have "late_inv h0 n (w \<and> v) s3 \<and> lheap s3 = lheap s2"
    by (rule late_register_inv [OF _ _ a2(1)]) (use a2(2) reg s2 in simp_all)
  then show ?thesis using a2 s2 c(1) extends_trans by metis
qed

lemma late_inv:
  "late_node keep p N par h = Some (a, T, miss, s') \<Longrightarrow> plan_in p \<Longrightarrow> heap_ok h \<Longrightarrow>
   late_inv h (length h) (miss = []) s' \<and> a < length (lheap s')"
  "late_children keep cs N this Ts s = Some (as, T', miss', s'') \<Longrightarrow> \<forall>c \<in> set cs. plan_in c \<Longrightarrow>
   late_inv h0 n w s \<Longrightarrow>
   late_inv h0 n (w \<and> miss' = []) s'' \<and> extends (lheap s) (lheap s'') \<and> (\<forall>b \<in> set as. b < length (lheap s''))"
proof (induction keep p N par h and keep cs N this Ts s arbitrary: a T miss s' and as T' miss' s'' h0 n w
    rule: late_node_late_children.induct)
  case (1 keep d cs N par h)
  let ?s = "\<lparr>curMat = Map.empty, curPos = Map.empty, lheap = h\<rparr>"
  from "1.prems"(1) obtain r where
    "late_children keep cs (columns_insert (inputColumns d) N) (inputColumns d) {} ?s = Some r"
    by (auto simp: Let_def option_bind_eq_Some)
  then obtain ch T1 miss1 s1 where
    c: "late_children keep cs (columns_insert (inputColumns d) N) (inputColumns d) {} ?s = Some (ch, T1, miss1, s1)"
    by (metis prod_cases4)
  with "1.prems"(1) obtain miss2 where f: "late_finish d par ch T1 s1 = Some (a, T, miss2, s')" and miss: "miss = miss1 @ miss2"
    by (auto simp: Let_def option_bind_eq_Some)
  have "late_inv h (length h) True ?s" using "1.prems"(3) by (simp add: late_inv_def)
  with "1.IH" [OF refl c, of h "length h" True] "1.prems"(2)
  have i: "late_inv h (length h) (miss1 = []) s1" "\<forall>b \<in> set ch. b < length (lheap s1)"
    by auto
  show ?case
    using late_finish_inv [OF f i(1) _ _ i(2)] "1.prems"(2) miss by (simp add: conj_commute)
next
  case (2 keep N this Ts s)
  then show ?case by simp
next
  case (3 keep c cs N this Ts s)
  from "3.prems"(1) obtain a Tc miss1 r s2 s3 as2 miss2 where
    c: "late_node keep c N this (lheap s) = Some (a, Tc, miss1, r)"
    and m: "(if outputsPosList (data_at (lheap r) a)
        then late_columns (keep N) a Tc (curPos r) (curMat r) N (s\<lparr>lheap := lheap r\<rparr>)
        else Some (s\<lparr>lheap := lheap r, curPos := curPos r ++ curPos s\<rparr>)) = Some s2"
    and g: "late_register (data_at (lheap r) a) a s2 = Some s3"
    and cs: "late_children keep cs N this (Ts \<union> Tc) s3 = Some (as2, T', miss2, s'')"
    and e: "as = a # as2" "miss' = miss1 @ miss2"
    by (auto simp: Let_def option_bind_eq_Some)
  have hok: "heap_ok (lheap s)" using "3.prems"(3) by (rule late_invD)
  have one: "late_inv (lheap s) (length (lheap s)) (miss1 = []) r" "a < length (lheap r)"
    using "3.IH"(1) [OF c] "3.prems"(2) hok by auto
  have st: "late_inv h0 n (w \<and> miss1 = []) s3" "extends (lheap s) (lheap s3)" "a < length (lheap s3)"
    using late_child_step [OF "3.prems"(3) one m g] by auto
  have rest: "late_inv h0 n ((w \<and> miss1 = []) \<and> miss2 = []) s''" "extends (lheap s3) (lheap s'')"
      "\<forall>b \<in> set as2. b < length (lheap s'')"
    using "3.IH"(2) [OF c refl refl refl refl refl m g cs, of h0 n "w \<and> miss1 = []"] "3.prems"(2) st(1) by auto
  then show ?case
    using st e extends_length [OF rest(2)] extends_trans [OF st(2) rest(2)] by (auto simp: conj_assoc)
qed

lemma late_wired:
  assumes "putLateMaterializationV2 p = Some (a, miss, h) \<or> putLateMaterializationHybrid p = Some (a, miss, h)"
    and "plan_in p"
  shows "heap_ok h \<and> a < length h \<and> (miss = [] \<longrightarrow> (\<forall>b < length h. wired h b))"
proof -
  obtain keep T s where "late_node keep p [] [] [] = Some (a, T, miss, s)" "h = lheap s"
    using assms(1) by (auto simp: putLateMaterializationV2_def putLateMaterializationHybrid_def)
  with late_inv(1) [OF _ assms(2)] show ?thesis
    by (fastforce simp: late_inv_def wired_from_def)
qed

section \<open>A run\<close>

lemma late_runs:
  "(case putLateMaterializationHybrid (filter_plan None) of Some (a, miss, h) \<Rightarrow> miss = [] | None \<Rightarrow> False)"
  by code_simp

end
