(* ===== verification/Post_Order.thy ===== *)
theory Post_Order
  imports Plan_Heap
begin

text \<open>
  The depth-first post-order of \<open>include/util/sequentializer.hpp\<close> on a graph given by its children, and
  what it lists: from one node every node below it, once, the node itself last, on cyclic graphs too.
\<close>

section \<open>The traversal\<close>

text \<open>The recursion with its pending calls as a stack: a call for a node, or the end of a call, which
  appends the node to the list. A node is marked when its call begins and an unmarked child is entered, so
  the code returns on every graph; a child that is no node (a null pointer) has no value.\<close>

datatype pending = Enter nat | Emit nat

lemma fewer_unvisited:
  fixes a n :: nat
  assumes "a < n" "a \<notin> V"
  shows "card ({..<n} - insert a V) < card ({..<n} - V)"
proof (rule psubset_card_mono)
  show "{..<n} - insert a V \<subset> {..<n} - V" using assms by auto
qed simp

function post_order :: "(nat \<Rightarrow> nat list) \<Rightarrow> nat \<Rightarrow> pending list \<Rightarrow> nat set \<Rightarrow> nat list option" where
  "post_order ch n [] visited = Some []"
| "post_order ch n (Enter a # calls) visited =
     (if a \<in> visited then post_order ch n calls visited
      else if n \<le> a then None
      else post_order ch n (map Enter (ch a) @ Emit a # calls) (insert a visited))"
| "post_order ch n (Emit a # calls) visited = map_option (Cons a) (post_order ch n calls visited)"
  by pat_completeness auto
termination
proof (relation "measures [\<lambda>(_, n, _, V). card ({..<n} - V), \<lambda>(_, _, calls, _). length calls]")
  fix ch :: "nat \<Rightarrow> nat list" and n a :: nat and calls V
  assume "a \<notin> V" "\<not> n \<le> a"
  then show "((ch, n, map Enter (ch a) @ Emit a # calls, insert a V), ch, n, Enter a # calls, V)
      \<in> measures [\<lambda>(_, n, _, V). card ({..<n} - V), \<lambda>(_, _, calls, _). length calls]"
    using fewer_unvisited [of a n V] by simp
qed simp_all

section \<open>What is listed\<close>

definition entered :: "pending list \<Rightarrow> nat set" where
  "entered calls = {a. Enter a \<in> set calls}"

definition ending :: "pending list \<Rightarrow> nat list" where
  "ending calls = List.map_filter (\<lambda>c. case c of Emit a \<Rightarrow> Some a | Enter _ \<Rightarrow> None) calls"

lemma entered_simps [simp]: "entered [] = {}" "entered (Enter a # calls) = insert a (entered calls)"
  "entered (Emit a # calls) = entered calls" "entered (map Enter as @ calls) = set as \<union> entered calls"
  by (auto simp: entered_def)

lemma ending_simps [simp]: "ending [] = []" "ending (Enter a # calls) = ending calls" "ending (Emit a # calls) = a # ending calls"
  "ending (map Enter as @ calls) = ending calls"
proof -
  show "ending (map Enter as @ calls) = ending calls" by (induction as) (simp_all add: ending_def)
qed (simp_all add: ending_def)

definition arcs :: "(nat \<Rightarrow> nat list) \<Rightarrow> (nat \<times> nat) set" where
  "arcs ch = {(a, b). b \<in> set (ch a)}"

text \<open>The rest of a traversal lists the calls that end and the nodes it still enters.\<close>

definition lists :: "(nat \<Rightarrow> nat list) \<Rightarrow> pending list \<Rightarrow> nat set \<Rightarrow> nat list \<Rightarrow> bool" where
  "lists ch calls V L \<longleftrightarrow> distinct L \<and> set (ending calls) \<subseteq> set L \<and> set L \<inter> V \<subseteq> set (ending calls) \<and>
     entered calls \<subseteq> V \<union> set L \<and>
     (\<forall>x \<in> set L - V. arcs ch `` {x} \<subseteq> V \<union> set L \<and> (\<exists>e \<in> entered calls. (e, x) \<in> (arcs ch)\<^sup>*))"

lemma lists_enter:
  assumes "a \<notin> V" "lists ch (map Enter (ch a) @ Emit a # calls) (insert a V) L" "set (ending calls) \<subseteq> V"
  shows "lists ch (Enter a # calls) V L"
proof -
  note l = assms(2) [unfolded lists_def]
  have "\<exists>e \<in> insert a (entered calls). (e, x) \<in> (arcs ch)\<^sup>*" if "x \<in> set L - V" for x
  proof (cases "x = a")
    case False
    with that have "x \<in> set L - insert a V" by simp
    with l have "\<exists>e \<in> set (ch a) \<union> entered calls. (e, x) \<in> (arcs ch)\<^sup>*" by simp
    then show ?thesis by (auto simp: arcs_def intro: converse_rtrancl_into_rtrancl)
  qed auto
  moreover have "arcs ch `` {x} \<subseteq> V \<union> set L" if "x \<in> set L - V" for x
  proof (cases "x = a")
    case True
    with l show ?thesis by (auto simp: arcs_def)
  next
    case False
    with l that show ?thesis by auto
  qed
  ultimately show ?thesis using l assms(1,3) by (auto simp: lists_def)
qed

lemma post_order_lists:
  "(\<And>a. a < n \<Longrightarrow> set (ch a) \<subseteq> {..<n}) \<Longrightarrow> entered calls \<subseteq> {..<n} \<Longrightarrow> distinct (ending calls) \<Longrightarrow> set (ending calls) \<subseteq> V \<Longrightarrow>
   \<exists>L. post_order ch n calls V = Some L \<and> lists ch calls V L"
proof (induction ch n calls V rule: post_order.induct)
  case (1 ch n V)
  show ?case by (simp add: lists_def)
next
  case (2 ch n a calls V)
  show ?case
  proof (cases "a \<in> V")
    case True
    with 2 obtain L where "post_order ch n calls V = Some L" "lists ch calls V L" by auto
    with True show ?thesis by (auto simp: lists_def)
  next
    case False
    have a: "\<not> n \<le> a" using "2.prems"(2) by auto
    with False "2.prems" have "\<exists>L. post_order ch n (map Enter (ch a) @ Emit a # calls) (insert a V) = Some L \<and>
        lists ch (map Enter (ch a) @ Emit a # calls) (insert a V) L"
      by (intro "2.IH"(2)) auto
    then obtain L where "post_order ch n (map Enter (ch a) @ Emit a # calls) (insert a V) = Some L"
      "lists ch (map Enter (ch a) @ Emit a # calls) (insert a V) L" by blast
    with False a lists_enter [OF False this(2) "2.prems"(4) [simplified]] show ?thesis by simp
  qed
next
  case (3 ch n a calls V)
  then obtain L where L: "post_order ch n calls V = Some L" "lists ch calls V L" by auto
  then have "a \<notin> set L" using "3.prems"(3,4) by (auto simp: lists_def)
  with L "3.prems" show ?case by (auto simp: lists_def)
qed

lemma post_order_last:
  "post_order ch n (calls @ [Emit r]) V = Some L \<Longrightarrow> L \<noteq> [] \<and> last L = r"
proof (induction ch n calls V arbitrary: L rule: post_order.induct)
  case (2 ch n a calls V)
  then show ?case by (auto split: if_splits)
next
  case (3 ch n a calls V)
  then show ?case by (cases "post_order ch n (calls @ [Emit r]) V") auto
qed simp

text \<open>From a single node.\<close>

lemma post_order_from:
  assumes "\<And>a. a < n \<Longrightarrow> set (ch a) \<subseteq> {..<n}" "r < n"
  obtains L where "post_order ch n [Enter r] {} = Some L" "distinct L" "set L = (arcs ch)\<^sup>* `` {r}" "last L = r"
proof -
  have "entered [Enter r] \<subseteq> {..<n}" "distinct (ending [Enter r])" "set (ending [Enter r]) \<subseteq> {}" using assms(2) by simp_all
  from post_order_lists [of n ch, OF assms(1) this] obtain L where
    L: "post_order ch n [Enter r] {} = Some L" "lists ch [Enter r] {} L" by blast
  note l = L(2) [unfolded lists_def]
  have "b \<in> set L" if "(r, b) \<in> (arcs ch)\<^sup>*" for b
    using that by (induction rule: rtrancl_induct) (use l in auto)
  with l have "set L = (arcs ch)\<^sup>* `` {r}" by auto
  moreover have "post_order ch n (map Enter (ch r) @ [Emit r]) {r} = Some L" using L(1) assms(2) by simp
  then have "last L = r" using post_order_last by blast
  ultimately show thesis using that L(1) l by blast
qed

end
