(* ===== verification/Sequentializer.thy ===== *)
theory Sequentializer
  imports Post_Order
begin

text \<open>
  \<open>include/util/sequentializer.hpp\<close>: the depth-first post-order of the plan graph, which is the
  order in which work items are created. The sequence lists the reachable nodes of any plan, and on an
  acyclic one it is a topological order. For the proofs about acyclic plans there is a second form of the
  traversal, a recursion that only follows children older than their parent.
\<close>

section \<open>The traversals\<close>

definition to_sequence_children_list :: "heap \<Rightarrow> nat \<Rightarrow> nat list option" where
  "to_sequence_children_list h root = post_order (children_at h) (length h) [Enter root] {}"

text \<open>The second traversal is for nodes with a left and a right child, each of which can be null.\<close>

record two_children =
  left_child :: "nat option"
  right_child :: "nat option"

definition both_children :: "two_children list \<Rightarrow> nat \<Rightarrow> nat list" where
  "both_children g a = (case left_child (g ! a) of Some l \<Rightarrow> [l] | None \<Rightarrow> []) @
     (case right_child (g ! a) of Some r \<Rightarrow> [r] | None \<Rightarrow> [])"

definition to_sequence_two_children_sub :: "two_children list \<Rightarrow> pending list \<Rightarrow> nat set \<Rightarrow> nat list option" where
  "to_sequence_two_children_sub g calls visited = post_order (both_children g) (length g) calls visited"

definition to_sequence_two_children :: "two_children list \<Rightarrow> nat option \<Rightarrow> nat list option" where
  "to_sequence_two_children g cur_node = (case cur_node of
     None \<Rightarrow> Some []
   | Some a \<Rightarrow> to_sequence_two_children_sub g [Enter a] {})"

section \<open>The recursion on acyclic plans\<close>

function seq_node :: "heap \<Rightarrow> nat \<Rightarrow> nat set \<times> nat list \<Rightarrow> (nat set \<times> nat list) option"
and seq_children :: "heap \<Rightarrow> nat \<Rightarrow> nat list \<Rightarrow> nat set \<times> nat list \<Rightarrow> (nat set \<times> nat list) option" where
  "seq_node h a (visited, out) =
     do { (visited', out') \<leftarrow> seq_children h a (children_at h a) (insert a visited, out);
          Some (visited', out' @ [a]) }"
| "seq_children h a [] s = Some s"
| "seq_children h a (b # bs) s =
     (if b < a then
        do { s' \<leftarrow> (if b \<in> fst s then Some s else seq_node h b s);
             seq_children h a bs s' }
      else None)"
  by pat_completeness auto
termination
  by (relation "measures [\<lambda>x. case x of Inl (h, a, s) \<Rightarrow> 2 * a + 1 | Inr (h, a, bs, s) \<Rightarrow> 2 * a,
      \<lambda>x. case x of Inl _ \<Rightarrow> 0 | Inr (h, a, bs, s) \<Rightarrow> length bs]") auto

text \<open>Where it has a value, this is what the traversal computes.\<close>

lemma seq_post_order:
  "seq_node h a s = Some (W, M) \<Longrightarrow> a < length h \<Longrightarrow> a \<notin> fst s \<Longrightarrow>
   \<exists>X. M = snd s @ X \<and> post_order (children_at h) (length h) (Enter a # calls) (fst s) =
     map_option (append X) (post_order (children_at h) (length h) calls W)"
  "seq_children h a bs s = Some (W, M) \<Longrightarrow> a < length h \<Longrightarrow>
   \<exists>X. M = snd s @ X \<and> post_order (children_at h) (length h) (map Enter bs @ calls) (fst s) =
     map_option (append X) (post_order (children_at h) (length h) calls W)"
proof (induction h a s and h a bs s arbitrary: W M calls and W M calls rule: seq_node_seq_children.induct)
  case (1 h a V out)
  from "1.prems"(1) obtain M' where M': "seq_children h a (children_at h a) (insert a V, out) = Some (W, M')" "M = M' @ [a]"
    by (auto simp: bind_eq_Some_conv)
  from "1.IH" [OF this(1) "1.prems"(2), of "Emit a # calls"] obtain X where
    "M' = out @ X" "post_order (children_at h) (length h) (map Enter (children_at h a) @ Emit a # calls) (insert a V) =
      map_option (append X) (post_order (children_at h) (length h) (Emit a # calls) W)" by auto
  with M'(2) "1.prems"(2,3) show ?case
    by (intro exI [of _ "X @ [a]"]) (simp add: option.map_comp comp_def)
next
  case (2 h a s)
  then show ?case by (intro exI [of _ "[]"]) (simp add: option.map_id0 [unfolded id_def])
next
  case (3 h a b bs s)
  from "3.prems"(1) obtain U N where
    b: "b < a" and u: "(if b \<in> fst s then Some s else seq_node h b s) = Some (U, N)" "seq_children h a bs (U, N) = Some (W, M)"
    by (auto simp: bind_eq_Some_conv split: if_splits)
  from "3.IH"(2) [OF b u "3.prems"(2)] obtain Y where
    Y: "M = N @ Y" "post_order (children_at h) (length h) (map Enter bs @ calls) U =
      map_option (append Y) (post_order (children_at h) (length h) calls W)" by auto
  show ?case
  proof (cases "b \<in> fst s")
    case True
    with u Y show ?thesis by auto
  next
    case False
    with u have "seq_node h b s = Some (U, N)" by simp
    from "3.IH"(1) [OF b False this _ False, of "map Enter bs @ calls"] b "3.prems"(2) obtain X where
      "N = snd s @ X" "post_order (children_at h) (length h) (Enter b # map Enter bs @ calls) (fst s) =
        map_option (append X) (post_order (children_at h) (length h) (map Enter bs @ calls) U)" by auto
    with Y show ?thesis by (intro exI [of _ "X @ Y"]) (simp add: option.map_comp comp_def del: post_order.simps)
  qed
qed

lemma sequence_by_recursion:
  assumes "seq_node h root ({}, []) = Some (W, L)" "root < length h"
  shows "to_sequence_children_list h root = Some L"
  using seq_post_order(1) [OF assms, of "[]"] by (auto simp: to_sequence_children_list_def)

section \<open>Reachable nodes\<close>

inductive reach :: "heap \<Rightarrow> nat \<Rightarrow> nat \<Rightarrow> bool" for h where
  here: "reach h a a"
| child: "b \<in> set (children_at h a) \<Longrightarrow> reach h b c \<Longrightarrow> reach h a c"

inductive_cases reachE: "reach h a c"

inductive_simps reach_iff: "reach h a c"

lemma reach_trans: "reach h a b \<Longrightarrow> reach h b c \<Longrightarrow> reach h a c"
  by (induction rule: reach.induct) (auto intro: reach.intros)

lemma reach_bound:
  "reach h a c \<Longrightarrow> acyclic_heap h \<Longrightarrow> a < length h \<Longrightarrow> c \<le> a"
proof (induction rule: reach.induct)
  case (child b a c)
  then have "b < a" by (auto simp: acyclic_heap_def)
  with child show ?case by auto
qed simp

section \<open>The order is topological\<close>

text \<open>\<open>closed_list h L\<close>: the children of every element stand before it.\<close>

fun closed_rev :: "heap \<Rightarrow> nat list \<Rightarrow> bool" where
  "closed_rev h [] = True"
| "closed_rev h (a # rest) \<longleftrightarrow> set (children_at h a) \<subseteq> set rest \<and> closed_rev h rest"

definition closed_list :: "heap \<Rightarrow> nat list \<Rightarrow> bool" where
  "closed_list h L \<longleftrightarrow> closed_rev h (rev L)"

lemma closed_list_simps [simp]:
  "closed_list h []"
  "closed_list h (L @ [a]) \<longleftrightarrow> set (children_at h a) \<subseteq> set L \<and> closed_list h L"
  by (auto simp: closed_list_def)

lemma closed_list_before:
  assumes "closed_list h L" "i < length L" "b \<in> set (children_at h (L ! i))"
  shows "\<exists>j < i. L ! j = b"
  using assms
proof (induction L rule: rev_induct)
  case (snoc a L)
  show ?case
  proof (cases "i < length L")
    case True
    then show ?thesis using snoc by (auto simp: nth_append)
  next
    case False
    then have "i = length L" using snoc.prems(2) by simp
    then have "b \<in> set L" using snoc.prems by auto
    then show ?thesis using \<open>i = length L\<close> by (auto simp: in_set_conv_nth nth_append)
  qed
qed simp

text \<open>Between two steps: the emitted nodes are closed and distinct, and a visited node that is not
  emitted yet is an ancestor, hence younger than everything still to come.\<close>

definition seq_inv :: "heap \<Rightarrow> nat \<Rightarrow> nat set \<times> nat list \<Rightarrow> bool" where
  "seq_inv h a s \<longleftrightarrow> closed_list h (snd s) \<and> distinct (snd s) \<and> set (snd s) \<subseteq> fst s \<and>
     (\<forall>v \<in> fst s - set (snd s). a < v)"

lemma seq_correct:
  "acyclic_heap h \<Longrightarrow> a < length h \<Longrightarrow> seq_inv h a s \<Longrightarrow> a \<notin> fst s \<Longrightarrow>
   \<exists>X. seq_node h a s = Some (fst s \<union> set X \<union> {a}, snd s @ X @ [a]) \<and> seq_inv h a (fst s \<union> set X \<union> {a}, snd s @ X @ [a]) \<and>
     (\<forall>x \<in> set X. reach h a x) \<and> fst s \<inter> set X = {}"
  "acyclic_heap h \<Longrightarrow> a < length h \<Longrightarrow> set bs \<subseteq> set (children_at h a) \<Longrightarrow> (\<forall>v \<in> fst s - set (snd s). a \<le> v) \<Longrightarrow>
   closed_list h (snd s) \<Longrightarrow> distinct (snd s) \<Longrightarrow> set (snd s) \<subseteq> fst s \<Longrightarrow>
   \<exists>X. seq_children h a bs s = Some (fst s \<union> set X, snd s @ X) \<and> closed_list h (snd s @ X) \<and> distinct (snd s @ X) \<and>
     set bs \<subseteq> set (snd s @ X) \<and> (\<forall>x \<in> set X. reach h a x \<and> x < a) \<and> fst s \<inter> set X = {}"
proof (induction h a s and h a bs s rule: seq_node_seq_children.induct)
  case (1 h a visited out)
  have "\<forall>v \<in> insert a visited - set out. a \<le> v"
    using "1.prems"(3) by (auto simp: seq_inv_def less_imp_le)
  moreover have "set out \<subseteq> insert a visited"
    using "1.prems"(3) by (auto simp: seq_inv_def)
  ultimately obtain X where X: "seq_children h a (children_at h a) (insert a visited, out) = Some (insert a visited \<union> set X, out @ X)"
    "closed_list h (out @ X)" "distinct (out @ X)" "set (children_at h a) \<subseteq> set (out @ X)"
    "\<forall>x \<in> set X. reach h a x \<and> x < a" "insert a visited \<inter> set X = {}"
    using "1.IH" "1.prems"(1-3) by (auto simp: seq_inv_def)
  have "closed_list h ((out @ X) @ [a])"
    using X(2,4) by (simp only: closed_list_simps)
  moreover have "a \<notin> set out" using "1.prems"(3,4) by (auto simp: seq_inv_def)
  ultimately show ?case
    using X "1.prems"(3) by (intro exI [of _ X]) (auto simp: seq_inv_def)
next
  case (2 h a s)
  then show ?case by (intro exI [of _ "[]"]) auto
next
  case (3 h a b bs s)
  obtain V L where s: "s = (V, L)" by (cases s)
  have b1: "b < a" "reach h a b"
    using "3.prems"(1-3) by (auto simp: acyclic_heap_def intro: reach.intros)
  then have b: "b < a" "b < length h" "reach h a b"
    using "3.prems"(2) by simp_all
  show ?case
  proof (cases "b \<in> V")
    case True
    have "b \<notin> fst s - set (snd s)" using "3.prems"(4) b(1) not_le by blast
    with True s have "b \<in> set L" by simp
    then show ?thesis using "3.IH"(2) [OF b(1), of s] "3.prems" True s b(1) by auto
  next
    case False
    have inv: "seq_inv h b s"
      using "3.prems" b(1) s by (auto simp: seq_inv_def dest: bspec less_le_trans)
    from "3.IH"(1) [OF b(1) _ "3.prems"(1) b(2) inv] False s obtain X where
      X: "seq_node h b s = Some (V \<union> set X \<union> {b}, L @ X @ [b])" "seq_inv h b (V \<union> set X \<union> {b}, L @ X @ [b])"
      "\<forall>x \<in> set X. reach h b x" "V \<inter> set X = {}" by auto
    let ?s = "(V \<union> set X \<union> {b}, L @ X @ [b])"
    have v: "\<forall>v \<in> fst ?s - set (snd ?s). a \<le> v" using "3.prems"(4) s by auto
    have run: "(if b \<in> fst s then Some s else seq_node h b s) = Some ?s"
      using X(1) s False by simp
    have p: "closed_list h (snd ?s)" "distinct (snd ?s)" "set (snd ?s) \<subseteq> fst ?s"
      using X(2) by (simp_all only: seq_inv_def)
    have bs: "set bs \<subseteq> set (children_at h a)" using "3.prems"(3) by simp
    obtain Y where
      Y: "seq_children h a bs ?s = Some (fst ?s \<union> set Y, snd ?s @ Y)" "closed_list h (snd ?s @ Y)"
      "distinct (snd ?s @ Y)" "set bs \<subseteq> set (snd ?s @ Y)" "\<forall>x \<in> set Y. reach h a x \<and> x < a" "fst ?s \<inter> set Y = {}"
      using "3.IH"(2) [OF b(1) run "3.prems"(1,2) bs v p] by blast
    have "\<forall>x \<in> set X. reach h a x \<and> x < a"
      using X(3) b reach_trans reach_bound [OF _ "3.prems"(1) b(2)] by (meson le_less_trans)
    then show ?thesis
      using X Y b s False by (intro exI [of _ "X @ [b] @ Y"]) auto
  qed
qed


lemma closed_reach:
  "reach h a x \<Longrightarrow> closed_list h L \<Longrightarrow> a \<in> set L \<Longrightarrow> x \<in> set L"
proof (induction rule: reach.induct)
  case (child b a c)
  then obtain i where "i < length L" "L ! i = a" by (auto simp: in_set_conv_nth)
  with child.prems(1) child.hyps(1) obtain j where "j < i" "L ! j = b"
    using closed_list_before by metis
  with \<open>i < length L\<close> have "b \<in> set L" by auto
  with child show ?case by blast
qed simp

lemma reachable_sequence:
  assumes "acyclic_heap h" "root < length h"
  shows "\<exists>L. to_sequence_children_list h root = Some L \<and> distinct L \<and> set L = {a. reach h root a} \<and>
    last L = root \<and> (\<forall>i < length L. \<forall>b \<in> set (children_at h (L ! i)). \<exists>j < i. L ! j = b)"
proof -
  have "seq_inv h root ({}, [])" by (simp add: seq_inv_def)
  from seq_correct(1) [OF assms this] obtain X where
    X: "seq_node h root ({}, []) = Some (set X \<union> {root}, X @ [root])"
      "seq_inv h root (set X \<union> {root}, X @ [root])" "\<forall>x \<in> set X. reach h root x" by auto
  then have c: "closed_list h (X @ [root])" "distinct (X @ [root])"
    by (simp_all only: seq_inv_def fst_conv snd_conv)
  have "set (X @ [root]) = {a. reach h root a}"
    using X(3) closed_reach [OF _ c(1)] by (auto intro: reach.here)
  moreover have "to_sequence_children_list h root = Some (X @ [root])"
    by (rule sequence_by_recursion [OF X(1) assms(2)])
  ultimately show ?thesis
    using c closed_list_before [OF c(1)] by (intro exI [of _ "X @ [root]"]) simp
qed

lemma reach_arcs: "{a. reach h root a} = (arcs (children_at h))\<^sup>* `` {root}"
proof -
  have "(a, c) \<in> (arcs (children_at h))\<^sup>*" if "reach h a c" for a c
    using that by induction (auto simp: arcs_def intro: converse_rtrancl_into_rtrancl)
  moreover have "reach h a c" if "(a, c) \<in> (arcs (children_at h))\<^sup>*" for a c
    using that by (induction rule: converse_rtrancl_induct) (auto simp: arcs_def intro: reach.intros)
  ultimately show ?thesis by auto
qed

text \<open>The two-children traversal as well: every node below the root, once.\<close>

lemma two_children_sequence:
  assumes "\<And>a. a < length g \<Longrightarrow> set (both_children g a) \<subseteq> {..<length g}" "root < length g"
  shows "\<exists>L. to_sequence_two_children g (Some root) = Some L \<and> distinct L \<and>
    set L = (arcs (both_children g))\<^sup>* `` {root} \<and> last L = root"
proof -
  obtain L where "post_order (both_children g) (length g) [Enter root] {} = Some L" "distinct L"
    "set L = (arcs (both_children g))\<^sup>* `` {root}" "last L = root"
    using post_order_from [of "length g" "both_children g" root, OF assms] .
  then show ?thesis
    by (intro exI [of _ L]) (simp add: to_sequence_two_children_def to_sequence_two_children_sub_def del: post_order.simps)
qed

text \<open>C16 The sequence of a plan whose child pointers all point to nodes exists, on a cyclic plan as well:
  it lists exactly the nodes reachable from the root, each once, the root last. On an acyclic plan every
  node stands after all its children, so that an item is created after the items it reads.\<close>

theorem sequence_topological:
  assumes "\<forall>a < length h. set (children_at h a) \<subseteq> {..<length h}" "root < length h"
  shows "\<exists>L. to_sequence_children_list h root = Some L \<and> distinct L \<and> set L = {a. reach h root a} \<and> last L = root \<and>
    (acyclic_heap h \<longrightarrow> (\<forall>i < length L. \<forall>b \<in> set (children_at h (L ! i)). \<exists>j < i. L ! j = b))"
proof -
  have "set (children_at h a) \<subseteq> {..<length h}" if "a < length h" for a using assms(1) that by simp
  from post_order_from [of "length h" "children_at h" root, OF this assms(2)] obtain L where
    "to_sequence_children_list h root = Some L" "distinct L" "set L = {a. reach h root a}" "last L = root"
    unfolding to_sequence_children_list_def reach_arcs by blast
  then show ?thesis using reachable_sequence [OF _ assms(2)] by auto
qed

text \<open>Two parents sharing one child.\<close>

definition shared_heap :: heap where
  "shared_heap = [\<lparr>cdata = emptyIr, cchildren = []\<rparr>, \<lparr>cdata = emptyIr, cchildren = [0]\<rparr>,
     \<lparr>cdata = emptyIr, cchildren = [1, 0]\<rparr>]"

theorem sequence_topological_witness:
  "\<exists>L. to_sequence_children_list shared_heap 2 = Some L \<and> distinct L \<and> set L = {a. reach shared_heap 2 a} \<and>
    last L = 2 \<and> (\<forall>i < length L. \<forall>b \<in> set (children_at shared_heap (L ! i)). \<exists>j < i. L ! j = b)"
proof -
  have "acyclic_heap shared_heap" and c: "\<forall>a < length shared_heap. set (children_at shared_heap a) \<subseteq> {..<length shared_heap}"
    by (auto simp: shared_heap_def acyclic_heap_def data_at_def children_at_def less_Suc_eq numeral_3_eq_3)
  moreover have "2 < length shared_heap" by (simp add: shared_heap_def)
  ultimately show ?thesis using sequence_topological [OF c, of 2] by blast
qed

end
