(* ===== verification/Grand_Children.thy ===== *)
theory Grand_Children
  imports Sequentializer Registry
begin

text \<open>
  \<open>grandChildrenOptimization\<close> of \<open>src/ir_optimizations/ir_optimizations.cpp\<close>: a node that materializes
  values through a composed position list (its filter child is itself a materialization of
  positions) takes the values from a grandchild that already has the column under the inner
  positions, and filters by the outer positions only. The pass updates nodes in place during a
  post-order traversal; it is shown to be the simultaneous update of all reachable nodes.
\<close>

section \<open>One node\<close>

definition mat_data_node :: "IrData \<Rightarrow> bool" where
  "mat_data_node d \<longleftrightarrow> is_mat d \<and> outputsMatVals d"

definition mat_pos_node :: "IrData \<Rightarrow> bool" where
  "mat_pos_node d \<longleftrightarrow> is_mat d \<and> outputsPosList d"

text \<open>The first child of the inner filter that outputs the wanted column as values; a group only
  counts with its aggregation result.\<close>

definition source_column :: "IrData \<Rightarrow> TableColumn \<Rightarrow> TableColumn option" where
  "source_column d c =
     (if \<not> outputsMatVals d then None
      else if is_group d then
        (case group_aggResultCol d of Some r \<Rightarrow> if column_eq r c then Some r else None | None \<Rightarrow> None)
      else List.find (\<lambda>out. column_eq out c) (outputCols d))"

fun find_source :: "heap \<Rightarrow> TableColumn \<Rightarrow> nat list \<Rightarrow> (nat \<times> TableColumn) option" where
  "find_source h c [] = None"
| "find_source h c (b # bs) = (case source_column (data_at h b) c of
     Some r \<Rightarrow> Some (b, r)
   | None \<Rightarrow> find_source h c bs)"

text \<open>The cell after the step. Indexing past \<open>children\<close> or \<open>inputColumns\<close> is undefined.\<close>

definition shortcut :: "heap \<Rightarrow> nat \<Rightarrow> cell option" where
  "shortcut h a =
     (let d = data_at h a in
      if \<not> mat_data_node d then Some (h ! a)
      else do {
        f \<leftarrow> at (children_at h a) 1;
        if \<not> mat_pos_node (data_at h f) then Some (h ! a)
        else do {
          ff \<leftarrow> at (children_at h f) 1;
          idx \<leftarrow> at (inputColumns d) 0;
          case find_source h idx (children_at h ff) of
            None \<Rightarrow> Some (h ! a)
          | Some (b, c) \<Rightarrow> do {
              flt \<leftarrow> at (inputColumns (data_at h f)) 1;
              Some ((h ! a)\<lparr>cdata := d\<lparr>inputColumns := (inputColumns d)[0 := c, 1 := flt]\<rparr>,
                cchildren := (children_at h a)[0 := b, 1 := ff]\<rparr>) } } })"

section \<open>The traversal\<close>

definition shortcut_at :: "nat \<Rightarrow> heap \<Rightarrow> heap option" where
  "shortcut_at a h = (if length h \<le> a then None else map_option (\<lambda>c. h[a := c]) (shortcut h a))"

text \<open>\<open>grandChildrenOptimizationSub\<close>; the callers test \<open>visited\<close> where the code tests it on entry.\<close>

function grand_node :: "nat \<Rightarrow> nat set \<times> heap \<Rightarrow> (nat set \<times> heap) option"
and grand_children :: "nat \<Rightarrow> nat list \<Rightarrow> nat set \<times> heap \<Rightarrow> (nat set \<times> heap) option" where
  "grand_node a (visited, h) =
     (if a \<in> visited then Some (visited, h)
      else do { (visited', h') \<leftarrow> grand_children a (children_at h a) (insert a visited, h);
                h'' \<leftarrow> shortcut_at a h';
                Some (visited', h'') })"
| "grand_children a [] s = Some s"
| "grand_children a (b # bs) s =
     (if b < a then do { s' \<leftarrow> grand_node b s; grand_children a bs s' } else None)"
  by pat_completeness auto
termination
  by (relation "measures [\<lambda>x. case x of Inl (a, s) \<Rightarrow> 2 * a + 1 | Inr (a, bs, s) \<Rightarrow> 2 * a,
      \<lambda>x. case x of Inl _ \<Rightarrow> 0 | Inr (a, bs, s) \<Rightarrow> length bs]") auto

definition grandChildrenOptimization :: "heap \<Rightarrow> nat \<Rightarrow> heap option" where
  "grandChildrenOptimization h root = map_option snd (grand_node root ({}, h))"

section \<open>The simultaneous update\<close>

text \<open>What the passes before establish of the nodes this one looks at.\<close>

definition mats_wired :: "heap \<Rightarrow> bool" where
  "mats_wired h \<longleftrightarrow> heap_ok h \<and> (\<forall>a < length h. wired h a)"

definition shortcuts :: "heap \<Rightarrow> nat set \<Rightarrow> heap" where
  "shortcuts h D = map (\<lambda>a. if a \<in> D then the (shortcut h a) else h ! a) [0..<length h]"

lemma mats_wiredD:
  assumes "mats_wired h" "a < length h" "is_mat (data_at h a)"
  obtains src child idx flt where "children_at h a = [src, child]" "inputColumns (data_at h a) = [idx, flt]"
    "serves h src (col_key idx)" "child < a" "src < a" "child < length h"
    "outputsPosList (data_at h child)" "flt \<in> set (outputCols (data_at h child))"
proof -
  have "mat_wired h a" using assms by (auto simp: mats_wired_def wired_def)
  then obtain src child idx flt where w: "children_at h a = [src, child]" "inputColumns (data_at h a) = [idx, flt]"
    "serves h src (col_key idx)" "child < length h" "outputsPosList (data_at h child)"
    "flt \<in> set (outputCols (data_at h child))"
    by (auto simp: mat_wired_def)
  have "child < a" "src < a" using assms(1,2) w(1) by (auto simp: mats_wired_def heap_ok_def)
  with w that show ?thesis by blast
qed

lemma find_source_in:
  "find_source h c bs = Some (b, r) \<Longrightarrow> b \<in> set bs \<and> r \<in> set (outputCols (data_at h b)) \<and> column_eq r c"
proof (induction bs)
  case (Cons x xs)
  have "source_column d c = Some r \<Longrightarrow> r \<in> set (outputCols d) \<and> column_eq r c" for d
    by (auto simp: source_column_def group_aggResultCol_def find_Some_iff split: if_splits option.splits OpInfo.splits)
  then show ?case using Cons by (auto split: option.splits)
qed simp

text \<open>The shape of the step on a node of a wired heap.\<close>

lemma shortcut_cases:
  assumes "mats_wired h" "a < length h"
  shows "shortcut h a = Some (h ! a) \<or>
    (\<exists>src f idx src2 ff idx2 flt flt2 b c. mat_data_node (data_at h a) \<and>
       children_at h a = [src, f] \<and> inputColumns (data_at h a) = [idx, flt] \<and>
       mat_pos_node (data_at h f) \<and> children_at h f = [src2, ff] \<and> inputColumns (data_at h f) = [idx2, flt2] \<and>
       b \<in> set (children_at h ff) \<and> c \<in> set (outputCols (data_at h b)) \<and> column_eq c idx \<and>
       f < a \<and> ff < f \<and> b < ff \<and> outputsPosList (data_at h ff) \<and> flt2 \<in> set (outputCols (data_at h ff)) \<and>
       shortcut h a = Some ((h ! a)\<lparr>cdata := (data_at h a)\<lparr>inputColumns := [c, flt2]\<rparr>, cchildren := [b, ff]\<rparr>))"
proof (cases "mat_data_node (data_at h a)")
  case True
  then obtain src f idx flt where w: "children_at h a = [src, f]" "inputColumns (data_at h a) = [idx, flt]"
    "f < a" "f < length h" using mats_wiredD [OF assms] by (metis mat_data_node_def)
  show ?thesis
  proof (cases "mat_pos_node (data_at h f)")
    case pos: True
    then obtain src2 ff idx2 flt2 where w2: "children_at h f = [src2, ff]" "inputColumns (data_at h f) = [idx2, flt2]"
      "ff < f" "ff < length h" "outputsPosList (data_at h ff)" "flt2 \<in> set (outputCols (data_at h ff))"
      using mats_wiredD [OF assms(1) w(4)] by (metis mat_pos_node_def)
    show ?thesis
    proof (cases "find_source h idx (children_at h ff)")
      case None
      then show ?thesis using True pos w w2 by (intro disjI1) (simp add: shortcut_def at_def)
    next
      case (Some r)
      obtain b c where bc: "find_source h idx (children_at h ff) = Some (b, c)" using Some by (cases r) auto
      note b = find_source_in [OF bc]
      have "b < ff" using assms(1) b w2(4) by (auto simp: mats_wired_def heap_ok_def)
      then show ?thesis using True pos w w2 b bc by (intro disjI2) (auto simp: shortcut_def at_def)
    qed
  qed (use True w in \<open>simp add: shortcut_def at_def\<close>)
qed (simp add: shortcut_def)

lemma shortcut_some: "mats_wired h \<Longrightarrow> a < length h \<Longrightarrow> \<exists>c. shortcut h a = Some c"
  using shortcut_cases by blast

lemma shortcuts_at [heap_simps]:
  "length (shortcuts h D) = length h"
  "a < length h \<Longrightarrow> a \<notin> D \<Longrightarrow> shortcuts h D ! a = h ! a"
  "a < length h \<Longrightarrow> a \<in> D \<Longrightarrow> shortcuts h D ! a = the (shortcut h a)"
  by (simp_all add: shortcuts_def)

text \<open>Outputs and operators never change; only nodes that materialize values do at all.\<close>

definition same_outputs :: "IrData \<Rightarrow> IrData \<Rightarrow> bool" where
  "same_outputs d d' \<longleftrightarrow> opInfo d' = opInfo d \<and> outputCols d' = outputCols d \<and>
     outputsPosList d' = outputsPosList d \<and> outputsMatVals d' = outputsMatVals d"

lemma shortcuts_frame:
  assumes "mats_wired h" "a < length h"
  shows "same_outputs (data_at h a) (data_at (shortcuts h D) a)"
    and "\<not> mat_data_node (data_at h a) \<Longrightarrow> shortcuts h D ! a = h ! a"
proof -
  have "cdata (the (shortcut h a)) = data_at h a \<or> (\<exists>ins. cdata (the (shortcut h a)) = (data_at h a)\<lparr>inputColumns := ins\<rparr>)"
    using shortcut_cases [OF assms] by (auto simp: data_at_def)
  then show "same_outputs (data_at h a) (data_at (shortcuts h D) a)"
    using assms(2) by (cases "a \<in> D") (auto simp: same_outputs_def data_at_def heap_simps)
  show "\<not> mat_data_node (data_at h a) \<Longrightarrow> shortcuts h D ! a = h ! a"
    using shortcut_cases [OF assms] assms(2) by (cases "a \<in> D") (auto simp: heap_simps)
qed

lemma source_column_outputs: "same_outputs d d' \<Longrightarrow> source_column d' c = source_column d c"
  by (cases "opInfo d") (simp_all add: same_outputs_def source_column_def group_aggResultCol_def is_group_def)

lemma find_source_shortcuts:
  "mats_wired h \<Longrightarrow> \<forall>b \<in> set bs. b < length h \<Longrightarrow> find_source (shortcuts h D) c bs = find_source h c bs"
  by (induction bs) (simp_all add: source_column_outputs [OF shortcuts_frame(1)] split: option.splits)

lemma position_node_kept:
  assumes "mats_wired h" "a < length h" "outputsPosList (data_at h a)"
  shows "shortcuts h D ! a = h ! a"
proof -
  have "ir_ok (data_at h a)" using assms(1,2) by (simp add: mats_wired_def heap_ok_def)
  then have "\<not> mat_data_node (data_at h a)" using assms(3) by (auto simp: mat_data_node_def ir_ok_def)
  then show ?thesis by (rule shortcuts_frame(2) [OF assms(1,2)])
qed

text \<open>The step on a node does not notice which other nodes have been updated.\<close>

lemma shortcut_stable:
  assumes "mats_wired h" "a < length h" "a \<notin> D"
  shows "shortcut (shortcuts h D) a = shortcut h a"
proof -
  let ?g = "shortcuts h D"
  have a: "?g ! a = h ! a" using assms by (simp add: heap_simps)
  then have a': "data_at ?g a = data_at h a" "children_at ?g a = children_at h a"
    by (simp_all add: data_at_def children_at_def)
  show ?thesis
  proof (cases "mat_data_node (data_at h a)")
    case True
    then obtain src f idx flt where w: "children_at h a = [src, f]" "inputColumns (data_at h a) = [idx, flt]"
      "f < length h" using mats_wiredD [OF assms(1,2)] by (metis mat_data_node_def)
    have mp: "mat_pos_node (data_at ?g f) = mat_pos_node (data_at h f)"
      using shortcuts_frame(1) [OF assms(1) w(3)] by (simp add: same_outputs_def mat_pos_node_def is_mat_def)
    show ?thesis
    proof (cases "mat_pos_node (data_at h f)")
      case pos: True
      then obtain src2 ff where w2: "children_at h f = [src2, ff]" "ff < length h" "outputsPosList (data_at h ff)"
        using mats_wiredD [OF assms(1) w(3)] by (metis mat_pos_node_def)
      have "?g ! f = h ! f" "?g ! ff = h ! ff"
        using position_node_kept [OF assms(1)] w(3) w2 pos by (simp_all add: mat_pos_node_def)
      then have e: "data_at ?g f = data_at h f" "children_at ?g f = children_at h f" "children_at ?g ff = children_at h ff"
        by (simp_all add: data_at_def children_at_def)
      have "\<forall>b \<in> set (children_at h ff). b < length h"
        using assms(1) w2(2) by (auto simp: mats_wired_def heap_ok_def intro: less_trans)
      note fs = find_source_shortcuts [OF assms(1) this]
      show ?thesis by (simp add: shortcut_def Let_def True w w2 at_def pos a a' e fs split: option.split)
    qed (simp add: shortcut_def True w at_def a a' mp)
  qed (simp add: shortcut_def a a')
qed

lemma shortcut_at_step:
  assumes "mats_wired h" "a < length h" "a \<notin> D"
  shows "shortcut_at a (shortcuts h D) = Some (shortcuts h (insert a D))"
proof -
  obtain c where c: "shortcut h a = Some c" using shortcut_some [OF assms(1,2)] by blast
  have "(shortcuts h D)[a := c] = shortcuts h (insert a D)"
    using assms(2,3) c by (intro nth_equalityI) (auto simp: nth_list_update shortcuts_def)
  then show ?thesis
    using assms(2) c by (simp add: shortcut_at_def heap_simps shortcut_stable [OF assms])
qed

text \<open>The traversal runs in step with the one that lists the nodes.\<close>

definition visits :: "heap \<Rightarrow> nat set \<times> nat list \<Rightarrow> nat set \<times> heap" where
  "visits h s = (fst s, shortcuts h (set (snd s)))"

lemma grand_simulates:
  "mats_wired h \<Longrightarrow> a < length h \<Longrightarrow> seq_inv h a s \<Longrightarrow> a \<notin> fst s \<Longrightarrow>
   grand_node a (visits h s) = map_option (visits h) (seq_node h a s)"
  "mats_wired h \<Longrightarrow> a < length h \<Longrightarrow> set bs \<subseteq> set (children_at h a) \<Longrightarrow> (\<forall>v \<in> fst s - set (snd s). a \<le> v) \<Longrightarrow>
   closed_list h (snd s) \<Longrightarrow> distinct (snd s) \<Longrightarrow> set (snd s) \<subseteq> fst s \<Longrightarrow>
   grand_children a bs (visits h s) = map_option (visits h) (seq_children h a bs s)"
proof (induction h a s and h a bs s rule: seq_node_seq_children.induct)
  case (1 h a V L)
  have ac: "acyclic_heap h" using "1.prems"(1) by (simp add: mats_wired_def heap_ok_acyclic)
  have p: "set (children_at h a) \<subseteq> set (children_at h a)" "\<forall>v \<in> fst (insert a V, L) - set (snd (insert a V, L)). a \<le> v"
    "closed_list h (snd (insert a V, L))" "distinct (snd (insert a V, L))" "set (snd (insert a V, L)) \<subseteq> fst (insert a V, L)"
    using "1.prems"(3) by (auto simp: seq_inv_def less_imp_le)
  from seq_correct(2) [OF ac "1.prems"(2) p] obtain X where
    X: "seq_children h a (children_at h a) (insert a V, L) = Some (insert a V \<union> set X, L @ X)" "insert a V \<inter> set X = {}"
    by auto
  have aL: "a \<notin> set L" using "1.prems"(3,4) by (auto simp: seq_inv_def)
  then have ch: "children_at (shortcuts h (set L)) a = children_at h a"
    using "1.prems"(2) by (simp add: children_at_def heap_simps)
  have g: "grand_children a (children_at h a) (insert a V, shortcuts h (set L)) = Some (insert a V \<union> set X, shortcuts h (set (L @ X)))"
    using "1.IH" [OF "1.prems"(1,2) p] X(1) by (simp add: visits_def)
  have st: "shortcut_at a (shortcuts h (set (L @ X))) = Some (shortcuts h (insert a (set (L @ X))))"
    using X(2) aL by (intro shortcut_at_step [OF "1.prems"(1,2)]) auto
  show ?case using "1.prems"(4) X(1) g st by (simp add: visits_def ch)
next
  case (2 h a s)
  then show ?case by simp
next
  case (3 h a b bs s)
  have ac: "acyclic_heap h" using "3.prems"(1) by (simp add: mats_wired_def heap_ok_acyclic)
  have b: "b < a" using "3.prems"(2,3) ac by (auto simp: acyclic_heap_def)
  then have bl: "b < length h" using "3.prems"(2) by simp
  have bs: "set bs \<subseteq> set (children_at h a)" using "3.prems"(3) by simp
  show ?case
  proof (cases "b \<in> fst s")
    case True
    obtain V L where s: "s = (V, L)" by (cases s)
    have "grand_node b (visits h s) = Some (visits h s)" using True s by (simp add: visits_def)
    then show ?thesis
      using "3.IH"(2) [OF b, of s] "3.prems"(1,2,4-7) bs True b by (simp add: visits_def)
  next
    case False
    have inv: "seq_inv h b s" using "3.prems"(4-7) b by (auto simp: seq_inv_def dest: bspec less_le_trans)
    from seq_correct(1) [OF ac bl inv False] obtain X where
      X: "seq_node h b s = Some (fst s \<union> set X \<union> {b}, snd s @ X @ [b])" "seq_inv h b (fst s \<union> set X \<union> {b}, snd s @ X @ [b])" by auto
    let ?s = "(fst s \<union> set X \<union> {b}, snd s @ X @ [b])"
    have run: "(if b \<in> fst s then Some s else seq_node h b s) = Some ?s" using False X(1) by simp
    have v: "\<forall>v \<in> fst ?s - set (snd ?s). a \<le> v" using "3.prems"(4) by auto
    have p: "closed_list h (snd ?s)" "distinct (snd ?s)" "set (snd ?s) \<subseteq> fst ?s"
      using X(2) by (simp_all only: seq_inv_def)
    have "grand_node b (visits h s) = Some (visits h ?s)"
      using "3.IH"(1) [OF b False "3.prems"(1) bl inv False] X(1) by simp
    then show ?thesis
      using "3.IH"(2) [OF b run "3.prems"(1,2) bs v p] b run by simp
  qed
qed

lemma simultaneous:
  assumes "mats_wired h" "root < length h"
  shows "grandChildrenOptimization h root = Some (shortcuts h {a. reach h root a})"
proof -
  have inv: "seq_inv h root ({}, [])" by (simp add: seq_inv_def)
  have ac: "acyclic_heap h" using assms(1) by (simp add: mats_wired_def heap_ok_acyclic)
  obtain W L where w: "seq_node h root ({}, []) = Some (W, L)"
    using seq_correct(1) [OF ac assms(2) inv] by auto
  have L: "to_sequence_children_list h root = Some L" by (rule sequence_by_recursion [OF w assms(2)])
  then have r: "set L = {a. reach h root a}" using reachable_sequence [OF ac assms(2)] by auto
  have "shortcuts h {} = h" by (simp add: shortcuts_def map_nth)
  then have "grand_node root ({}, h) = map_option (visits h) (seq_node h root ({}, []))"
    using grand_simulates(1) [OF assms inv] by (simp add: visits_def)
  then show ?thesis
    using w r by (simp add: grandChildrenOptimization_def visits_def)
qed

text \<open>C21 Rewiring to grandchildren, done in place while the plan is traversed, is the simultaneous
  update of all nodes reachable from the root by the one-node rule read off the original plan: no
  node sees a half-updated neighbour, shared nodes are updated once, and the traversal ends.\<close>

theorem grandChildren_simultaneous:
  assumes "mats_wired h" "root < length h"
  shows "grandChildrenOptimization h root = Some (shortcuts h {a. reach h root a})"
  by (rule simultaneous [OF assms])

lemma same_outputs_serves:
  assumes "\<forall>b < length h. same_outputs (data_at h b) (data_at g b)" "length g = length h"
  shows "serves g b k = serves h b k"
  using assms by (auto simp: serves_def outputs_key_def same_outputs_def)

lemma shortcut_wired:
  assumes w: "mats_wired h" and a: "a < length h"
    and cell: "shortcuts h D ! a = h ! a \<or> shortcuts h D ! a = the (shortcut h a)"
  shows "wired (shortcuts h D) a \<and> ir_ok (data_at (shortcuts h D) a) \<and>
    (\<forall>b \<in> set (children_at (shortcuts h D) a). b < a)"
proof -
  let ?g = "shortcuts h D"
  have so: "\<forall>b < length h. same_outputs (data_at h b) (data_at ?g b)"
    using shortcuts_frame(1) [OF w] by simp
  have sv: "serves ?g b k = serves h b k" for b k
    using same_outputs_serves [OF so] by (simp add: heap_simps)
  have out: "outputCols (data_at ?g b) = outputCols (data_at h b)" "outputsPosList (data_at ?g b) = outputsPosList (data_at h b)"
    if "b < length h" for b using so that by (simp_all add: same_outputs_def)
  have h: "wired h a" "ir_ok (data_at h a)" "\<forall>b \<in> set (children_at h a). b < a"
    using w a by (auto simp: mats_wired_def heap_ok_def)
  consider "?g ! a = h ! a" | "?g ! a = the (shortcut h a)" "shortcut h a \<noteq> Some (h ! a)"
    using cell shortcut_some [OF w a] by fastforce
  then show ?thesis
  proof cases
    case 1
    then have e: "data_at ?g a = data_at h a" "children_at ?g a = children_at h a"
      by (simp_all add: data_at_def children_at_def)
    have "wired ?g a"
    proof (cases "is_mat (data_at h a)")
      case True
      then show ?thesis using h(1) out sv by (auto simp: wired_def mat_wired_def e heap_simps)
    qed (use h(1) sv in \<open>simp add: wired_def e\<close>)
    then show ?thesis using h e by simp
  next
    case 2
    then obtain src f idx src2 ff idx2 flt flt2 b c where s: "mat_data_node (data_at h a)"
      "inputColumns (data_at h a) = [idx, flt]" "children_at h f = [src2, ff]"
      "c \<in> set (outputCols (data_at h b))" "f < a" "ff < f" "b < ff"
      "outputsPosList (data_at h ff)" "flt2 \<in> set (outputCols (data_at h ff))"
      "shortcut h a = Some ((h ! a)\<lparr>cdata := (data_at h a)\<lparr>inputColumns := [c, flt2]\<rparr>, cchildren := [b, ff]\<rparr>)"
      using shortcut_cases [OF w a] by metis
    then have e: "data_at ?g a = (data_at h a)\<lparr>inputColumns := [c, flt2]\<rparr>" "children_at ?g a = [b, ff]"
      using 2(1) by (simp_all add: data_at_def children_at_def)
    have "serves h b (col_key c)" using s(4-7) a by (auto simp: serves_def outputs_key_def)
    then have "mat_wired ?g a"
      using s a out sv by (simp add: mat_wired_def e heap_simps)
    moreover have "is_mat (data_at h a)" using s(1) by (simp add: mat_data_node_def)
    moreover have "ir_ok (data_at ?g a)" using h(2) s(2) \<open>is_mat (data_at h a)\<close>
      by (cases "opInfo (data_at h a)") (auto simp: e ir_ok_def is_mat_def)
    ultimately show ?thesis using s(5-7) by (simp add: wired_def e is_mat_def)
  qed
qed

lemma shortcuts_mats_wired:
  assumes "mats_wired h"
  shows "mats_wired (shortcuts h D)"
proof -
  have "shortcuts h D ! a = h ! a \<or> shortcuts h D ! a = the (shortcut h a)" if "a < length h" for a
    using that by (auto simp: shortcuts_def)
  then have "wired (shortcuts h D) a \<and> ir_ok (data_at (shortcuts h D) a) \<and>
      (\<forall>b \<in> set (children_at (shortcuts h D) a). b < a)" if "a < length h" for a
    using that shortcut_wired [OF assms] by blast
  then show ?thesis unfolding mats_wired_def heap_ok_def by (simp add: heap_simps)
qed

text \<open>C22 Rewiring to grandchildren keeps a wired plan wired and acyclic, with the same operators
  and outputs.\<close>

theorem grandChildren_wired:
  assumes "mats_wired h" "root < length h" "grandChildrenOptimization h root = Some h'"
  shows "mats_wired h' \<and> length h' = length h \<and> (\<forall>a < length h. same_outputs (data_at h a) (data_at h' a))"
proof -
  have "h' = shortcuts h {a. reach h root a}" using simultaneous [OF assms(1,2)] assms(3) by simp
  then show ?thesis
    using shortcuts_mats_wired [OF assms(1)] shortcuts_frame(1) [OF assms(1)] by (simp add: heap_simps)
qed

section \<open>Witnesses\<close>

definition t_col :: "string \<Rightarrow> TableColumn" where
  "t_col c = mkColumn (table_of ''t'') c TYPE_INTEGER None"

text \<open>Two filters on columns \<open>k\<close> and \<open>v\<close> of one table, the second over the values of \<open>v\<close> under the first,
  and \<open>v\<close> materialized under both.\<close>

definition two_level :: heap where
  "two_level =
     [\<lparr>cdata = fetch_create (t_col ''v'') False, cchildren = []\<rparr>,
      \<lparr>cdata = fetch_create (t_col ''k'') True, cchildren = []\<rparr>,
      \<lparr>cdata = filter_create (t_col ''k'') COMP_EQ None [] (t_col ''k''), cchildren = [1]\<rparr>,
      \<lparr>cdata = mat_create (t_col ''v'') (t_col ''k'') (t_col ''v'') False, cchildren = [0, 2]\<rparr>,
      \<lparr>cdata = filter_create (t_col ''v'') COMP_LT None [] (t_col ''v''), cchildren = [3]\<rparr>,
      \<lparr>cdata = mat_create (t_col ''k'') (t_col ''v'') (t_col ''k'') True, cchildren = [2, 4]\<rparr>,
      \<lparr>cdata = mat_create (t_col ''v'') (t_col ''k'') (t_col ''v'') False, cchildren = [0, 5]\<rparr>]"

lemma two_level_wired: "mats_wired two_level" "6 < length two_level"
  by code_simp+

lemma two_level_runs:
  "(case grandChildrenOptimization two_level 6 of
      Some h \<Rightarrow> children_at h 6 = [3, 4] \<and> children_at h 3 = [0, 2] \<and> children_at h 5 = [2, 4] | None \<Rightarrow> False)"
  by code_simp

theorem grandChildren_simultaneous_witness:
  "grandChildrenOptimization two_level 6 = Some (shortcuts two_level {a. reach two_level 6 a})"
  by (rule grandChildren_simultaneous [OF two_level_wired])

theorem grandChildren_wired_witness:
  "\<exists>h'. grandChildrenOptimization two_level 6 = Some h' \<and> mats_wired h' \<and> length h' = length two_level \<and>
     (\<forall>a < length two_level. same_outputs (data_at two_level a) (data_at h' a))"
proof -
  obtain h' where "grandChildrenOptimization two_level 6 = Some h'"
    using two_level_runs by (auto split: option.splits)
  with grandChildren_wired [OF two_level_wired this] show ?thesis by blast
qed

end
