(* ===== verification/Unique_Names.thy ===== *)
theory Unique_Names
  imports Sequentializer
begin

text \<open>
  \<open>include/util/name_generator.hpp\<close> and \<open>include/util/unique_col_names.hpp\<close>: every output column of
  the plan graph gets a fresh name (its old name, an underscore, a 32-bit counter), and every
  input column takes the new name that its child gave to the old one. The renamer caches the
  renaming of each node, so a shared node is renamed once. What the naming scheme has to promise
  is the locale \<open>name_supply\<close>.
\<close>

section \<open>Name supply\<close>

record rstate =
  counter :: "32 word"
  registered :: "nat \<rightharpoonup> (string \<rightharpoonup> string)"
  rheap :: heap

definition render :: "string \<Rightarrow> nat \<Rightarrow> string" where
  "render prefix n = prefix @ ''_'' @ to_string n"

text \<open>\<open>NameGenerator::next\<close>: the counter wraps around.\<close>

definition next_name :: "string \<Rightarrow> 32 word \<Rightarrow> string \<times> 32 word" where
  "next_name prefix c = (render prefix (unat c), c + 1)"

locale name_supply =
  fixes name :: "string \<Rightarrow> nat \<Rightarrow> string"
  assumes name_inj: "name p m = name q n \<Longrightarrow> m = n"
begin

text \<open>Names given out for different numbers differ, whatever their prefixes.\<close>

lemma distinct_names: "distinct ns \<Longrightarrow> length ps = length ns \<Longrightarrow> distinct (map2 name ps ns)"
  by (induction ps ns rule: list_induct2') (auto dest!: name_inj simp: set_zip)

lemma names_disjoint: "m < k \<Longrightarrow> k \<le> n \<Longrightarrow> name p m \<noteq> name q n"
  using name_inj by fastforce

end

lemma digit_not_underscore: "is_digit c \<Longrightarrow> c \<noteq> CHR ''_''"
  by (auto simp: is_digit_def Let_def)

lemma last_segment:
  assumes "xs @ u # ds = ys @ u # es" "u \<notin> set ds" "u \<notin> set es"
  shows "ds = es"
proof -
  have seg: "takeWhile (\<lambda>c. c \<noteq> u) (rev (zs @ u # fs)) = rev fs" if "u \<notin> set fs" for zs fs
  proof -
    have "takeWhile (\<lambda>c. c \<noteq> u) (rev fs @ u # rev zs) = rev fs @ takeWhile (\<lambda>c. c \<noteq> u) (u # rev zs)"
      by (rule takeWhile_append2) (use that in auto)
    then show ?thesis by simp
  qed
  have "rev ds = rev es"
    using seg [OF assms(2), of xs] seg [OF assms(3), of ys] assms(1) by (simp only:)
  then show ?thesis by simp
qed

interpretation names: name_supply render
proof
  fix p m q n
  assume "render p m = render q n"
  then have eq: "p @ CHR ''_'' # to_string m = q @ CHR ''_'' # to_string n"
    by (simp add: render_def)
  have nu: "CHR ''_'' \<notin> set (to_string k)" for k
    using to_string_digits [of k] digit_not_underscore by (auto simp: list_all_iff)
  have "to_string m = to_string n"
    by (rule last_segment [OF eq nu nu])
  then show "m = n" by simp
qed

section \<open>The renamer\<close>

text \<open>The queue of new names that the children offer for an old name, in the order of the children.\<close>

definition candidates :: "(string \<rightharpoonup> string) list \<Rightarrow> string \<Rightarrow> string list" where
  "candidates ms k = List.map_filter (\<lambda>m. m k) ms"

text \<open>Inputs take the front of their queue; the last name of a queue is kept for further inputs.\<close>

fun assign :: "(string \<Rightarrow> string list) \<Rightarrow> TableColumn list \<Rightarrow> TableColumn list" where
  "assign cand [] = []"
| "assign cand (c # cs) = (case cand (columnName c) of
     [] \<Rightarrow> c # assign cand cs
   | [n] \<Rightarrow> c\<lparr>columnName := n\<rparr> # assign cand cs
   | n # ns \<Rightarrow> c\<lparr>columnName := n\<rparr> # assign (cand(columnName c := ns)) cs)"

fun fresh_outputs ::
    "32 word \<Rightarrow> TableColumn list \<Rightarrow> (string \<rightharpoonup> string) \<Rightarrow> TableColumn list \<times> (string \<rightharpoonup> string) \<times> 32 word" where
  "fresh_outputs n [] m = ([], m, n)"
| "fresh_outputs n (c # cs) m =
     (let (nm, n') = next_name (columnName c) n;
          (cs', m', n'') = fresh_outputs n' cs (m(columnName c \<mapsto> nm))
      in (c\<lparr>columnName := nm\<rparr> # cs', m', n''))"

text \<open>The effect on one node once its children are renamed.\<close>

definition rename_node :: "nat \<Rightarrow> (string \<rightharpoonup> string) list \<Rightarrow> rstate \<Rightarrow> (string \<rightharpoonup> string) \<times> rstate" where
  "rename_node a ms s =
     (let d = data_at (rheap s) a;
          ins = (if children_at (rheap s) a = [] then inputColumns d else assign (candidates ms) (inputColumns d));
          (outs, m, n) = fresh_outputs (counter s) (outputCols d) Map.empty
      in (m, s\<lparr>counter := n, registered := (registered s)(a \<mapsto> m),
            rheap := (rheap s)[a := (rheap s ! a)\<lparr>cdata := d\<lparr>inputColumns := ins, outputCols := outs\<rparr>\<rparr>]\<rparr>))"

text \<open>\<open>Renamer::process\<close>. As in the other traversals a child that is not older than its parent has
  no value (the code would not return on a cyclic plan).\<close>

function process :: "nat \<Rightarrow> rstate \<Rightarrow> ((string \<rightharpoonup> string) \<times> rstate) option"
and process_children :: "nat \<Rightarrow> nat list \<Rightarrow> rstate \<Rightarrow> ((string \<rightharpoonup> string) list \<times> rstate) option" where
  "process a s = (case registered s a of
     Some m \<Rightarrow> Some (m, s)
   | None \<Rightarrow>
       if length (rheap s) \<le> a then None
       else if is_fetch (data_at (rheap s) a) then
         map_option (\<lambda>c. ([columnName c \<mapsto> columnName c], s)) (at (inputColumns (data_at (rheap s) a)) 0)
       else do { (ms, s') \<leftarrow> process_children a (children_at (rheap s) a) s;
                 Some (rename_node a ms s') })"
| "process_children a [] s = Some ([], s)"
| "process_children a (b # bs) s =
     (if b < a then
        do { (m, s1) \<leftarrow> process b s; (ms, s2) \<leftarrow> process_children a bs s1; Some (m # ms, s2) }
      else None)"
  by pat_completeness auto
termination
  by (relation "measures [\<lambda>x. case x of Inl (a, s) \<Rightarrow> 2 * a + 1 | Inr (a, bs, s) \<Rightarrow> 2 * a,
      \<lambda>x. case x of Inl _ \<Rightarrow> 0 | Inr (a, bs, s) \<Rightarrow> length bs]") auto

declare process.simps [simp del]

definition uniqueColNames :: "heap \<Rightarrow> nat \<Rightarrow> heap option" where
  "uniqueColNames h root =
     map_option (rheap \<circ> snd) (process root \<lparr>counter = 0, registered = Map.empty, rheap = h\<rparr>)"

section \<open>Inputs follow the children\<close>

lemma assign_queue:
  "(\<forall>k \<in> columnName ` fst ` set ps. cand k = map snd (filter (\<lambda>p. columnName (fst p) = k) ps)) \<Longrightarrow>
   map columnName (assign cand (map fst ps)) = map snd ps"
proof (induction ps arbitrary: cand)
  case (Cons p ps)
  obtain c n where p: "p = (c, n)" by (cases p)
  let ?rest = "map snd (filter (\<lambda>p. columnName (fst p) = columnName c) ps)"
  have q: "cand (columnName c) = n # ?rest" using Cons.prems p by simp
  show ?case
  proof (cases ?rest)
    case Nil
    then have none: "\<forall>x \<in> set ps. columnName (fst x) \<noteq> columnName c"
      by (auto simp: filter_empty_conv)
    have "map columnName (assign cand (map fst ps)) = map snd ps"
      using Cons.prems p none by (intro Cons.IH) auto
    then show ?thesis using q Nil p by simp
  next
    case (Cons r rs)
    have "map columnName (assign (cand(columnName c := ?rest)) (map fst ps)) = map snd ps"
      using Cons.prems p by (intro Cons.IH) auto
    then show ?thesis using q Cons p by simp
  qed
qed simp


text \<open>\<open>offers K ms cs ns\<close>: the \<open>i\<close>-th child renames the \<open>i\<close>-th input column to the \<open>i\<close>-th name and
  outputs no other column whose name is in \<open>K\<close>.\<close>

fun offers :: "string set \<Rightarrow> (string \<rightharpoonup> string) list \<Rightarrow> TableColumn list \<Rightarrow> string list \<Rightarrow> bool" where
  "offers K [] [] [] = True"
| "offers K (m # ms) (c # cs) (n # ns) \<longleftrightarrow>
     m (columnName c) = Some n \<and> (\<forall>k \<in> K. k \<noteq> columnName c \<longrightarrow> m k = None) \<and> offers K ms cs ns"
| "offers K _ _ _ = False"

lemma offers_candidates:
  "offers K ms cs ns \<Longrightarrow> k \<in> K \<Longrightarrow>
   candidates ms k = map snd (filter (\<lambda>p. columnName (fst p) = k) (zip cs ns))"
  by (induction K ms cs ns rule: offers.induct) (auto simp: candidates_def)

lemma offers_length: "offers K ms cs ns \<Longrightarrow> length ns = length cs"
  by (induction K ms cs ns rule: offers.induct) auto


section \<open>Output names are unique\<close>

definition outs :: "heap \<Rightarrow> nat \<Rightarrow> TableColumn list" where
  "outs h a = outputCols (data_at h a)"

definition out_count :: "heap \<Rightarrow> nat set \<Rightarrow> nat" where
  "out_count h A = (\<Sum>a \<in> A. length (outs h a))"

lemma fresh_outputs_spec:
  "fresh_outputs (of_nat n) cs m = (cs', m', n') \<Longrightarrow> n + length cs \<le> 2 ^ 32 \<Longrightarrow>
   n' = of_nat (n + length cs) \<and>
   map columnName cs' = map2 render (map columnName cs) [n..<n + length cs] \<and> length cs' = length cs"
proof (induction cs arbitrary: n m cs' m' n')
  case (Cons c cs)
  have u: "unat (of_nat n :: 32 word) = n"
    using Cons.prems(2) by (simp add: unat_of_nat)
  obtain cs1 m1 n1 where r: "fresh_outputs (of_nat (Suc n)) cs (m(columnName c \<mapsto> render (columnName c) n)) = (cs1, m1, n1)"
    by (metis prod_cases3)
  with Cons.prems u have e: "cs' = c\<lparr>columnName := render (columnName c) n\<rparr> # cs1" "n' = n1"
    by (auto simp: next_name_def Let_def add.commute)
  have "[n..<n + length (c # cs)] = n # [Suc n..<Suc n + length cs]"
    by (simp add: upt_conv_Cons del: upt_Suc)
  then show ?case using Cons.IH [OF r] Cons.prems(2) e by simp
qed simp

text \<open>The renamed heap has the shape of the old one, and the names given out so far come from
  different numbers below the counter.\<close>

definition same_shape :: "heap \<Rightarrow> heap \<Rightarrow> bool" where
  "same_shape h h' \<longleftrightarrow> length h' = length h \<and> (\<forall>a < length h. children_at h' a = children_at h a \<and>
     opInfo (data_at h' a) = opInfo (data_at h a) \<and> length (outs h' a) = length (outs h a) \<and>
     length (inputColumns (data_at h' a)) = length (inputColumns (data_at h a)))"

definition numbered :: "heap \<Rightarrow> nat set \<Rightarrow> nat \<Rightarrow> (nat \<Rightarrow> nat \<Rightarrow> nat) \<Rightarrow> bool" where
  "numbered h A n num \<longleftrightarrow>
     (\<forall>a \<in> A. \<forall>i < length (outs h a). num a i < n \<and> (\<exists>p. columnName (outs h a ! i) = render p (num a i))) \<and>
     (\<forall>a \<in> A. \<forall>b \<in> A. \<forall>i < length (outs h a). \<forall>j < length (outs h b). num a i = num b j \<longrightarrow> (a, i) = (b, j))"

definition ren_inv :: "heap \<Rightarrow> rstate \<Rightarrow> bool" where
  "ren_inv h s \<longleftrightarrow> same_shape h (rheap s) \<and> dom (registered s) \<subseteq> {..<length h} \<and>
     counter s = of_nat (out_count h (dom (registered s))) \<and>
     (\<exists>num. numbered (rheap s) (dom (registered s)) (out_count h (dom (registered s))) num)"

lemma numbered_distinct:
  assumes "numbered h A n num" "a \<in> A" "b \<in> A" "i < length (outs h a)" "j < length (outs h b)" "(a, i) \<noteq> (b, j)"
  shows "columnName (outs h a ! i) \<noteq> columnName (outs h b ! j)"
proof -
  obtain p q where "columnName (outs h a ! i) = render p (num a i)" "columnName (outs h b ! j) = render q (num b j)"
    using assms by (meson numbered_def)
  moreover have "num a i \<noteq> num b j" using assms by (auto simp: numbered_def)
  ultimately show ?thesis using names.name_inj by metis
qed


lemma length_assign [simp]: "length (assign cand cs) = length cs"
  by (induction cs arbitrary: cand) (auto split: list.splits)

lemma at_update [heap_simps]:
  "a < length h \<Longrightarrow> data_at (h[a := c]) a = cdata c" "a < length h \<Longrightarrow> children_at (h[a := c]) a = cchildren c"
  "a \<noteq> b \<Longrightarrow> data_at (h[a := c]) b = data_at h b" "a \<noteq> b \<Longrightarrow> children_at (h[a := c]) b = children_at h b"
  by (simp_all add: data_at_def children_at_def)

lemma out_count_insert:
  "A \<subseteq> {..<length h} \<Longrightarrow> a < length h \<Longrightarrow> a \<notin> A \<Longrightarrow> out_count h (insert a A) = out_count h A + length (outs h a)"
  unfolding out_count_def by (subst sum.insert) (auto intro: finite_subset)

lemma out_count_mono: "A \<subseteq> {..<length h} \<Longrightarrow> out_count h A \<le> out_count h {..<length h}"
  unfolding out_count_def by (rule sum_mono2) auto

lemma numbered_new:
  assumes "numbered g A n num" "\<forall>b \<in> A. outs g' b = outs g b" "a \<notin> A"
    and "\<forall>i < length (outs g' a). \<exists>p. columnName (outs g' a ! i) = render p (n + i)"
  shows "numbered g' (insert a A) (n + length (outs g' a)) (num(a := \<lambda>i. n + i))"
proof -
  have lt: "num b j < n" if "b \<in> A" "j < length (outs g' b)" for b j
    using assms(1,2) that by (auto simp: numbered_def)
  have one: "num b i < n + length (outs g' a)" if "b \<in> A" "i < length (outs g' b)" for b i
    using lt that by (meson trans_less_add1)
  show ?thesis
    unfolding numbered_def
  proof (intro conjI ballI allI impI)
    fix b i assume "b \<in> insert a A" "i < length (outs g' b)"
    then show "(num(a := \<lambda>i. n + i)) b i < n + length (outs g' a)"
      using one by auto
    show "\<exists>p. columnName (outs g' b ! i) = render p ((num(a := \<lambda>i. n + i)) b i)"
      using \<open>b \<in> insert a A\<close> \<open>i < length (outs g' b)\<close> assms by (cases "b = a") (auto simp: numbered_def)
  next
    fix b c i j
    assume "b \<in> insert a A" "c \<in> insert a A" "i < length (outs g' b)" "j < length (outs g' c)"
      "(num(a := \<lambda>i. n + i)) b i = (num(a := \<lambda>i. n + i)) c j"
    note bc = this
    consider "b = a" "c = a" | "b = a" "c \<in> A" "c \<noteq> a" | "b \<in> A" "b \<noteq> a" "c = a" | "b \<in> A" "b \<noteq> a" "c \<in> A" "c \<noteq> a"
      using bc(1,2) by auto
    then show "(b, i) = (c, j)"
    proof cases
      case 1
      then show ?thesis using bc by simp
    next
      case 2
      then have "num c j < n" using bc(4) lt by blast
      moreover have "n + i = num c j" using 2 bc(5) by simp
      ultimately show ?thesis by simp
    next
      case 3
      then have "num b i < n" using bc(3) lt by blast
      moreover have "num b i = n + j" using 3 bc(5) by simp
      ultimately show ?thesis by simp
    next
      case 4
      then have "num b i = num c j" "i < length (outs g b)" "j < length (outs g c)" using bc assms(2) by auto
      then show ?thesis using 4 assms(1) by (auto simp: numbered_def)
    qed
  qed
qed

lemma rename_node_inv:
  assumes inv: "ren_inv h s" and a: "a < length h" "registered s a = None" and small: "out_count h {..<length h} \<le> 2 ^ 32"
    and run: "rename_node a ms s = (m, s')"
  shows "ren_inv h s' \<and> registered s' = (registered s)(a \<mapsto> m)"
proof -
  let ?A = "dom (registered s)" and ?g = "rheap s"
  let ?n = "out_count h ?A"
  have sh: "same_shape h ?g" and A: "?A \<subseteq> {..<length h}" and c: "counter s = of_nat ?n"
    using inv by (auto simp: ren_inv_def)
  obtain num where num: "numbered ?g ?A ?n num" using inv by (auto simp: ren_inv_def)
  have aA: "a \<notin> ?A" using a(2) by auto
  have l: "length ?g = length h" "length (outs ?g a) = length (outs h a)" using sh a(1) by (auto simp: same_shape_def)
  have cnt: "out_count h (insert a ?A) = ?n + length (outs h a)" by (rule out_count_insert [OF A a(1) aA])
  have "out_count h (insert a ?A) \<le> 2 ^ 32" using out_count_mono [of "insert a ?A" h] A a(1) small by simp
  then have bound: "?n + length (outs ?g a) \<le> 2 ^ 32" using cnt l(2) by simp
  obtain cs' m1 n1 where f: "fresh_outputs (of_nat ?n) (outs ?g a) Map.empty = (cs', m1, n1)" by (metis prod_cases3)
  note fs = fresh_outputs_spec [OF f bound]
  define ins where "ins = (if children_at ?g a = [] then inputColumns (data_at ?g a)
    else assign (candidates ms) (inputColumns (data_at ?g a)))"
  have f': "fresh_outputs (counter s) (outputCols (data_at ?g a)) Map.empty = (cs', m1, n1)"
    using f unfolding c outs_def .
  have "rename_node a ms s = (m1, s\<lparr>counter := n1, registered := (registered s)(a \<mapsto> m1),
      rheap := ?g[a := (?g ! a)\<lparr>cdata := (data_at ?g a)\<lparr>inputColumns := ins, outputCols := cs'\<rparr>\<rparr>]\<rparr>)"
    unfolding rename_node_def Let_def f' prod.case ins_def ..
  then have s': "s' = s\<lparr>counter := n1, registered := (registered s)(a \<mapsto> m1),
      rheap := ?g[a := (?g ! a)\<lparr>cdata := (data_at ?g a)\<lparr>inputColumns := ins, outputCols := cs'\<rparr>\<rparr>]\<rparr>"
    and m: "m = m1" unfolding run by (simp_all only: prod.inject)
  have ins: "length ins = length (inputColumns (data_at ?g a))" by (simp add: ins_def)
  let ?g' = "rheap s'"
  have al: "a < length ?g" using a(1) l(1) by simp
  have g': "?g' = ?g[a := (?g ! a)\<lparr>cdata := (data_at ?g a)\<lparr>inputColumns := ins, outputCols := cs'\<rparr>\<rparr>]"
    by (simp add: s')
  have o: "outs ?g' b = (if b = a then cs' else outs ?g b)" for b
    using al by (cases "b = a") (simp_all add: g' outs_def at_update)
  have ch: "children_at ?g' b = children_at ?g b" and op: "opInfo (data_at ?g' b) = opInfo (data_at ?g b)"
    and li: "length (inputColumns (data_at ?g' b)) = length (inputColumns (data_at ?g b))" for b
    using al ins by (cases "b = a"; simp add: g' at_update; simp add: children_at_def)+
  have shape: "same_shape h ?g'"
    using sh l fs by (simp add: same_shape_def ch op li o) (simp add: g')
  have "\<exists>p. columnName (outs ?g' a ! i) = render p (?n + i)" if "i < length (outs ?g' a)" for i
  proof -
    have i: "i < length cs'" "i < length (outs ?g a)" using that fs by (simp_all add: o)
    have "map columnName cs' ! i = map2 render (map columnName (outs ?g a)) [?n..<?n + length (outs ?g a)] ! i"
      using fs by simp
    then have "columnName (cs' ! i) = render (columnName (outs ?g a ! i)) (?n + i)" using i by simp
    then show ?thesis by (auto simp: o)
  qed
  then have "numbered ?g' (insert a ?A) (?n + length (outs ?g' a)) (num(a := \<lambda>i. ?n + i))"
    using numbered_new [OF num _ aA, of ?g'] o aA by auto
  moreover have "length (outs ?g' a) = length (outs h a)" using fs l(2) by (simp add: o)
  ultimately have "\<exists>num. numbered ?g' (insert a ?A) (out_count h (insert a ?A)) num"
    using cnt by auto
  moreover have "counter s' = of_nat (out_count h (insert a ?A))" using s' fs cnt l(2) by simp
  ultimately show ?thesis
    using shape A a(1) s' m by (simp add: ren_inv_def)
qed


text \<open>The children that count: a fetch node keeps its name and is not registered.\<close>

definition ops_done :: "heap \<Rightarrow> nat set \<Rightarrow> bool" where
  "ops_done h A \<longleftrightarrow> (\<forall>a \<in> A. \<forall>b \<in> set (children_at h a). is_fetch (data_at h b) \<or> b \<in> A)"

definition renamable :: "heap \<Rightarrow> bool" where
  "renamable h \<longleftrightarrow> acyclic_heap h \<and> out_count h {..<length h} \<le> 2 ^ 32 \<and>
     (\<forall>a < length h. is_fetch (data_at h a) \<longrightarrow> inputColumns (data_at h a) \<noteq> [])"

lemma shape_fetch:
  "same_shape h g \<Longrightarrow> a < length h \<Longrightarrow> is_fetch (data_at g a) = is_fetch (data_at h a)"
  by (auto simp: same_shape_def is_fetch_def)

lemma process_inv:
  "ren_inv h s \<Longrightarrow> renamable h \<Longrightarrow> a < length h \<Longrightarrow> ops_done h (dom (registered s)) \<Longrightarrow>
   \<exists>m s'. process a s = Some (m, s') \<and> ren_inv h s' \<and> ops_done h (dom (registered s')) \<and>
     dom (registered s) \<subseteq> dom (registered s') \<and> dom (registered s') \<subseteq> dom (registered s) \<union> {..a} \<and>
     (is_fetch (data_at h a) \<or> a \<in> dom (registered s'))"
  "ren_inv h s \<Longrightarrow> renamable h \<Longrightarrow> a < length h \<Longrightarrow> ops_done h (dom (registered s)) \<Longrightarrow> \<forall>b \<in> set bs. b < a \<Longrightarrow>
   \<exists>ms s'. process_children a bs s = Some (ms, s') \<and> ren_inv h s' \<and> ops_done h (dom (registered s')) \<and>
     dom (registered s) \<subseteq> dom (registered s') \<and> dom (registered s') \<subseteq> dom (registered s) \<union> {..<a} \<and>
     (\<forall>b \<in> set bs. is_fetch (data_at h b) \<or> b \<in> dom (registered s'))"
proof (induction a s and a bs s rule: process_process_children.induct)
  case (1 a s)
  have sh: "same_shape h (rheap s)" using "1.prems"(1) by (simp add: ren_inv_def)
  then have al: "a < length (rheap s)" and ch: "children_at (rheap s) a = children_at h a"
    using "1.prems"(3) by (auto simp: same_shape_def)
  show ?case
  proof (cases "registered s a")
    case (Some m)
    then show ?thesis using "1.prems" by (auto simp: process.simps [of a s])
  next
    case None
    show ?thesis
    proof (cases "is_fetch (data_at (rheap s) a)")
      case True
      have "inputColumns (data_at h a) \<noteq> []"
        using "1.prems"(2,3) True shape_fetch [OF sh "1.prems"(3)] by (auto simp: renamable_def)
      then have "inputColumns (data_at (rheap s) a) \<noteq> []"
        using sh "1.prems"(3) by (auto simp: same_shape_def)
      then obtain c where "at (inputColumns (data_at (rheap s) a)) 0 = Some c" by auto
      then have "process a s = Some ([columnName c \<mapsto> columnName c], s)"
        using True None al by (simp add: process.simps [of a s])
      then show ?thesis using "1.prems" True shape_fetch [OF sh "1.prems"(3)] by auto
    next
      case False
      have "\<forall>b \<in> set (children_at h a). b < a"
        using "1.prems"(2,3) by (auto simp: renamable_def acyclic_heap_def)
      with "1.IH" [OF None _ False] "1.prems" al ch obtain ms s1 where
        p: "process_children a (children_at h a) s = Some (ms, s1)" "ren_inv h s1" "ops_done h (dom (registered s1))"
          "dom (registered s) \<subseteq> dom (registered s1)" "dom (registered s1) \<subseteq> dom (registered s) \<union> {..<a}"
          "\<forall>b \<in> set (children_at h a). is_fetch (data_at h b) \<or> b \<in> dom (registered s1)"
        by auto
      have none: "registered s1 a = None" using p(5) None by (auto simp: domIff)
      obtain m s2 where r: "rename_node a ms s1 = (m, s2)" by (cases "rename_node a ms s1") auto
      have small: "out_count h {..<length h} \<le> 2 ^ 32" using "1.prems"(2) by (simp add: renamable_def)
      note rn = rename_node_inv [OF p(2) "1.prems"(3) none small r]
      have "process a s = Some (m, s2)"
        using None False al ch p(1) r by (simp add: process.simps [of a s])
      moreover have "ops_done h (dom (registered s2))"
        using p(3,6) rn by (auto simp: ops_done_def)
      ultimately show ?thesis using rn p(4,5) by auto
    qed
  qed
next
  case (2 a s)
  then show ?case by auto
next
  case (3 a b bs s)
  have b: "b < a" "b < length h" using "3.prems"(3,5) by auto
  from "3.IH"(1) [OF b(1) "3.prems"(1,2) b(2) "3.prems"(4)] obtain m s1 where
    one: "process b s = Some (m, s1)" "ren_inv h s1" "ops_done h (dom (registered s1))"
      "dom (registered s) \<subseteq> dom (registered s1)" "dom (registered s1) \<subseteq> dom (registered s) \<union> {..b}"
      "is_fetch (data_at h b) \<or> b \<in> dom (registered s1)" by auto
  have bs: "\<forall>b \<in> set bs. b < a" using "3.prems"(5) by simp
  from "3.IH"(2) [OF b(1) one(1) refl one(2) "3.prems"(2,3) one(3) bs] obtain ms s2 where
    two: "process_children a bs s1 = Some (ms, s2)" "ren_inv h s2" "ops_done h (dom (registered s2))"
      "dom (registered s1) \<subseteq> dom (registered s2)" "dom (registered s2) \<subseteq> dom (registered s1) \<union> {..<a}"
      "\<forall>b \<in> set bs. is_fetch (data_at h b) \<or> b \<in> dom (registered s2)" by auto
  have "dom (registered s2) \<subseteq> dom (registered s) \<union> {..<a}"
    using one(5) two(5) b(1) by fastforce
  moreover have "process_children a (b # bs) s = Some (m # ms, s2)"
    using b(1) one(1) two(1) by simp
  moreover have "dom (registered s) \<subseteq> dom (registered s2)"
    using one(4) two(4) by (rule order_trans)
  moreover have "is_fetch (data_at h b) \<or> b \<in> dom (registered s2)"
    using one(6) two(4) by blast
  ultimately show ?case
    using two(2,3,6) by (intro exI [of _ "m # ms"] exI [of _ s2]) (simp del: process_children.simps)
qed


definition fetch_leaves :: "heap \<Rightarrow> bool" where
  "fetch_leaves h \<longleftrightarrow> (\<forall>a < length h. is_fetch (data_at h a) \<longrightarrow> children_at h a = [])"

lemma reach_done:
  "reach h a x \<Longrightarrow> acyclic_heap h \<Longrightarrow> a < length h \<Longrightarrow> fetch_leaves h \<Longrightarrow> ops_done h A \<Longrightarrow>
   is_fetch (data_at h a) \<or> a \<in> A \<Longrightarrow> is_fetch (data_at h x) \<or> x \<in> A"
proof (induction rule: reach.induct)
  case (child b a c)
  have "\<not> is_fetch (data_at h a)" using child.hyps(1) child.prems(2,3) by (auto simp: fetch_leaves_def)
  then have "is_fetch (data_at h b) \<or> b \<in> A"
    using child.hyps(1) child.prems(4,5) by (auto simp: ops_done_def)
  moreover have "b < length h"
    using child.hyps(1) child.prems(1,2) by (meson acyclic_heap_def less_trans)
  ultimately show ?case using child by blast
qed blast

text \<open>C18 After renaming, no two output columns of the operators of a plan have the same name,
  neither within a node nor across nodes, as long as the plan has at most 2^32 output columns;
  the pass always terminates on an acyclic plan and keeps its operators and its edges.\<close>

theorem output_names_unique:
  assumes "renamable h" "fetch_leaves h" "root < length h"
  shows "\<exists>h'. uniqueColNames h root = Some h' \<and> same_shape h h' \<and>
    (\<forall>a b i j. reach h root a \<longrightarrow> reach h root b \<longrightarrow> \<not> is_fetch (data_at h a) \<longrightarrow> \<not> is_fetch (data_at h b) \<longrightarrow>
       i < length (outs h' a) \<longrightarrow> j < length (outs h' b) \<longrightarrow> (a, i) \<noteq> (b, j) \<longrightarrow>
       columnName (outs h' a ! i) \<noteq> columnName (outs h' b ! j))"
proof -
  let ?s = "\<lparr>counter = 0, registered = Map.empty, rheap = h\<rparr>"
  have "ren_inv h ?s" by (simp add: ren_inv_def same_shape_def numbered_def out_count_def)
  moreover have "ops_done h (dom (registered ?s))" by (simp add: ops_done_def)
  ultimately obtain m s' where p: "process root ?s = Some (m, s')" "ren_inv h s'"
    "ops_done h (dom (registered s'))" "is_fetch (data_at h root) \<or> root \<in> dom (registered s')"
    using process_inv(1) [OF _ assms(1,3)] by blast
  obtain num where num: "numbered (rheap s') (dom (registered s')) (out_count h (dom (registered s'))) num"
    using p(2) by (auto simp: ren_inv_def)
  have ac: "acyclic_heap h" using assms(1) by (simp add: renamable_def)
  have reg: "a \<in> dom (registered s')" if "reach h root a" "\<not> is_fetch (data_at h a)" for a
    using reach_done [OF that(1) ac assms(3,2) p(3,4)] that(2) by blast
  have "uniqueColNames h root = Some (rheap s')" using p(1) by (simp add: uniqueColNames_def)
  moreover have "same_shape h (rheap s')" using p(2) by (simp add: ren_inv_def)
  ultimately show ?thesis
    using numbered_distinct [OF num] reg by (intro exI [of _ "rheap s'"]) blast
qed

section \<open>Witnesses\<close>

definition key_col :: "string \<Rightarrow> TableColumn" where
  "key_col c = mkColumn (table_of ''t'') c TYPE_INTEGER None"

text \<open>Two filters of one column under a set operation.\<close>

definition two_filters :: heap where
  "two_filters = [\<lparr>cdata = fetch_create (key_col ''k'') True, cchildren = []\<rparr>,
     \<lparr>cdata = filter_create (key_col ''k'') COMP_EQ None [] (key_col ''k''), cchildren = [0]\<rparr>,
     \<lparr>cdata = filter_create (key_col ''k'') COMP_LT None [] (key_col ''k''), cchildren = [0]\<rparr>,
     \<lparr>cdata = setop_create (key_col ''k'') (key_col ''k'') (key_col ''u'') REL_UNION, cchildren = [1, 2]\<rparr>]"


lemma two_filters_checks:
  "acyclic_heap two_filters" "fetch_leaves two_filters" "3 < length two_filters"
  "out_count two_filters {..<length two_filters} = 4"
  "\<forall>a < length two_filters. is_fetch (data_at two_filters a) \<longrightarrow> inputColumns (data_at two_filters a) \<noteq> []"
  by code_simp+

lemma two_filters_ok: "renamable two_filters"
  unfolding renamable_def two_filters_checks(4) using two_filters_checks(1,5) by simp

theorem output_names_unique_witness:
  "\<exists>h'. uniqueColNames two_filters 3 = Some h' \<and> same_shape two_filters h' \<and>
    (\<forall>a b i j. reach two_filters 3 a \<longrightarrow> reach two_filters 3 b \<longrightarrow> \<not> is_fetch (data_at two_filters a) \<longrightarrow>
       \<not> is_fetch (data_at two_filters b) \<longrightarrow> i < length (outs h' a) \<longrightarrow> j < length (outs h' b) \<longrightarrow> (a, i) \<noteq> (b, j) \<longrightarrow>
       columnName (outs h' a ! i) \<noteq> columnName (outs h' b ! j))"
  by (rule output_names_unique [OF two_filters_ok two_filters_checks(2,3)])

end
