(* ===== verification/Name_Flow.thy ===== *)
theory Name_Flow
  imports Unique_Names Registry
begin

text \<open>
  What \<open>uniqueColNames\<close> leaves behind, node by node: every operator's inputs have been assigned from
  the renamings of its children, and the renaming of an operator leads from the old names of its
  outputs to the new ones. From the wiring of a plan it follows that every input of the renamed
  plan carries the name of a fetched column or of an output of a child.
\<close>

section \<open>The links\<close>

text \<open>The renaming a node offers to its parents: a fetch node keeps its column's name.\<close>

definition offer :: "heap \<Rightarrow> (nat \<rightharpoonup> (string \<rightharpoonup> string)) \<Rightarrow> nat \<Rightarrow> (string \<rightharpoonup> string)" where
  "offer h R b =
     (if is_fetch (data_at h b) then
        (case inputColumns (data_at h b) of c # _ \<Rightarrow> [columnName c \<mapsto> columnName c] | [] \<Rightarrow> Map.empty)
      else case R b of Some m \<Rightarrow> m | None \<Rightarrow> Map.empty)"

definition out_names :: "heap \<Rightarrow> nat \<Rightarrow> string set" where
  "out_names h a = columnName ` set (outs h a)"

definition new_inputs :: "heap \<Rightarrow> (nat \<rightharpoonup> (string \<rightharpoonup> string)) \<Rightarrow> nat \<Rightarrow> TableColumn list" where
  "new_inputs h R a =
     (if children_at h a = [] then inputColumns (data_at h a)
      else assign (candidates (map (offer h R) (children_at h a))) (inputColumns (data_at h a)))"

definition linked :: "heap \<Rightarrow> rstate \<Rightarrow> bool" where
  "linked h s \<longleftrightarrow>
     same_shape h (rheap s) \<and> dom (registered s) \<subseteq> {..<length h} \<and>
     (\<forall>a < length h. a \<notin> dom (registered s) \<longrightarrow> data_at (rheap s) a = data_at h a) \<and>
     (\<forall>a m. registered s a = Some m \<longrightarrow>
        \<not> is_fetch (data_at h a) \<and> dom m = out_names h a \<and> ran m \<subseteq> out_names (rheap s) a \<and>
        (\<forall>b \<in> set (children_at h a). is_fetch (data_at h b) \<or> b \<in> dom (registered s)) \<and>
        inputColumns (data_at (rheap s) a) = new_inputs h (registered s) a)"

lemma offer_mono:
  "R b \<noteq> None \<or> is_fetch (data_at h b) \<Longrightarrow> \<forall>x \<in> dom R. R' x = R x \<Longrightarrow> offer h R' b = offer h R b"
  by (auto simp: offer_def domIff split: option.splits)

lemma new_inputs_mono:
  assumes "\<forall>b \<in> set (children_at h a). is_fetch (data_at h b) \<or> b \<in> dom R" "\<forall>x \<in> dom R. R' x = R x"
  shows "new_inputs h R' a = new_inputs h R a"
proof -
  have "map (offer h R') (children_at h a) = map (offer h R) (children_at h a)"
    using assms by (intro map_cong refl offer_mono) auto
  then show ?thesis unfolding new_inputs_def by (simp only:)
qed

lemma fresh_outputs_names:
  "fresh_outputs n cs m = (cs', m', n') \<Longrightarrow>
   dom m' = dom m \<union> columnName ` set cs \<and> ran m' \<subseteq> ran m \<union> columnName ` set cs' \<and> length cs' = length cs"
proof (induction cs arbitrary: n m cs' m' n')
  case (Cons c cs)
  obtain nm n1 where nx: "next_name (columnName c) n = (nm, n1)" by (cases "next_name (columnName c) n")
  obtain cs1 m1 n2 where r: "fresh_outputs n1 cs (m(columnName c \<mapsto> nm)) = (cs1, m1, n2)" by (metis prod_cases3)
  have e: "cs' = c\<lparr>columnName := nm\<rparr> # cs1" "m' = m1" using Cons.prems nx r by simp_all
  let ?m = "m(columnName c \<mapsto> nm)"
  have up: "ran ?m \<subseteq> insert nm (ran m)" "dom ?m = insert (columnName c) (dom m)" by (auto simp: ran_def)
  have "dom m1 = dom ?m \<union> columnName ` set cs" "ran m1 \<subseteq> ran ?m \<union> columnName ` set cs1" "length cs1 = length cs"
    using Cons.IH [OF r] by blast+
  with up show ?case unfolding e by (auto simp del: fun_upd_apply)
qed simp

section \<open>The renamer establishes them\<close>

lemma rename_node_linked:
  assumes l: "linked h s" and a: "a < length h" "registered s a = None" "\<not> is_fetch (data_at h a)"
    and ch: "\<forall>b \<in> set (children_at h a). is_fetch (data_at h b) \<or> b \<in> dom (registered s)"
    and run: "rename_node a (map (offer h (registered s)) (children_at h a)) s = (m, s')"
  shows "linked h s' \<and> registered s' = (registered s)(a \<mapsto> m)"
proof -
  let ?g = "rheap s"
  have sh: "same_shape h ?g" and D: "dom (registered s) \<subseteq> {..<length h}" using l by (simp_all add: linked_def)
  have d: "data_at ?g a = data_at h a" using l a by (auto simp: linked_def)
  have al: "a < length ?g" and cha: "children_at ?g a = children_at h a" using sh a(1) by (simp_all add: same_shape_def)
  obtain cs' m1 n1 where f: "fresh_outputs (counter s) (outputCols (data_at h a)) Map.empty = (cs', m1, n1)" by (metis prod_cases3)
  note fn = fresh_outputs_names [OF f]
  have ni: "(if children_at ?g a = [] then inputColumns (data_at h a)
      else assign (candidates (map (offer h (registered s)) (children_at h a))) (inputColumns (data_at h a))) = new_inputs h (registered s) a"
    by (simp add: new_inputs_def cha)
  have r: "m = m1" "s' = s\<lparr>counter := n1, registered := (registered s)(a \<mapsto> m1),
      rheap := ?g[a := (?g ! a)\<lparr>cdata := (data_at h a)\<lparr>inputColumns := new_inputs h (registered s) a, outputCols := cs'\<rparr>\<rparr>]\<rparr>"
    using run unfolding rename_node_def Let_def d f prod.case ni by auto
  have reg: "registered s' = (registered s)(a \<mapsto> m)" using r by simp
  have g': "rheap s' = ?g[a := (?g ! a)\<lparr>cdata := (data_at h a)\<lparr>inputColumns := new_inputs h (registered s) a, outputCols := cs'\<rparr>\<rparr>]"
    using r by simp
  have da: "data_at (rheap s') a = (data_at h a)\<lparr>inputColumns := new_inputs h (registered s) a, outputCols := cs'\<rparr>"
    and db: "b \<noteq> a \<Longrightarrow> data_at (rheap s') b = data_at ?g b" for b
    using al by (simp_all add: g' at_update)
  have cb: "children_at (rheap s') b = children_at ?g b" for b
    using al by (cases "b = a") (simp_all add: g' at_update, simp add: children_at_def)
  have li: "length (new_inputs h (registered s) a) = length (inputColumns (data_at h a))" by (simp add: new_inputs_def)
  have len: "length (rheap s') = length h" using sh by (simp add: g' same_shape_def)
  have one: "children_at (rheap s') b = children_at h b \<and> opInfo (data_at (rheap s') b) = opInfo (data_at h b) \<and>
      length (outs (rheap s') b) = length (outs h b) \<and>
      length (inputColumns (data_at (rheap s') b)) = length (inputColumns (data_at h b))" if "b < length h" for b
  proof (cases "b = a")
    case True
    then show ?thesis using fn li cha by (simp add: cb da outs_def)
  next
    case False
    then show ?thesis using sh that by (simp add: cb db same_shape_def outs_def)
  qed
  then have shape: "same_shape h (rheap s')" using len by (simp add: same_shape_def)
  have keep: "\<forall>x \<in> dom (registered s). registered s' x = registered s x" using a(2) reg by auto
  have old: "registered s' b = Some mb \<Longrightarrow> b \<noteq> a \<Longrightarrow> registered s b = Some mb" for b mb using reg by simp
  have "\<not> is_fetch (data_at h b) \<and> dom mb = out_names h b \<and> ran mb \<subseteq> out_names (rheap s') b \<and>
      (\<forall>c \<in> set (children_at h b). is_fetch (data_at h c) \<or> c \<in> dom (registered s')) \<and>
      inputColumns (data_at (rheap s') b) = new_inputs h (registered s') b" if rb: "registered s' b = Some mb" for b mb
  proof (cases "b = a")
    case True
    have "new_inputs h (registered s') a = new_inputs h (registered s) a" by (rule new_inputs_mono [OF ch keep])
    then show ?thesis using True rb reg r fn a(3) ch da by (auto simp: out_names_def outs_def)
  next
    case False
    note o = old [OF rb False]
    have lb: "\<not> is_fetch (data_at h b)" "dom mb = out_names h b" "ran mb \<subseteq> out_names ?g b"
      "\<forall>c \<in> set (children_at h b). is_fetch (data_at h c) \<or> c \<in> dom (registered s)"
      "inputColumns (data_at ?g b) = new_inputs h (registered s) b"
      using l o unfolding linked_def by blast+
    have "new_inputs h (registered s') b = new_inputs h (registered s) b" by (rule new_inputs_mono [OF lb(4) keep])
    then show ?thesis using lb db [OF False] reg by (auto simp: out_names_def outs_def)
  qed
  moreover have "data_at (rheap s') b = data_at h b" if "b < length h" "b \<notin> dom (registered s')" for b
    using that l db [of b] reg by (auto simp: linked_def)
  ultimately show ?thesis using shape reg D a(1) by (auto simp: linked_def)
qed

definition grows :: "rstate \<Rightarrow> rstate \<Rightarrow> bool" where
  "grows s s' \<longleftrightarrow> (\<forall>x \<in> dom (registered s). registered s' x = registered s x)"

lemma grows_refl [simp]: "grows s s"
  by (simp add: grows_def)

lemma grows_trans: "grows s s1 \<Longrightarrow> grows s1 s2 \<Longrightarrow> grows s s2"
  unfolding grows_def by (metis domIff)

lemma grows_dom: "grows s s' \<Longrightarrow> dom (registered s) \<subseteq> dom (registered s')"
  by (auto simp: grows_def) (metis domI domIff)

definition available :: "heap \<Rightarrow> rstate \<Rightarrow> nat \<Rightarrow> bool" where
  "available h s b \<longleftrightarrow> is_fetch (data_at h b) \<or> b \<in> dom (registered s)"

lemma available_grows: "available h s b \<Longrightarrow> grows s s' \<Longrightarrow> available h s' b"
  unfolding available_def by (meson grows_dom subsetD)

lemma offer_grows: "available h s b \<Longrightarrow> grows s s' \<Longrightarrow> offer h (registered s') b = offer h (registered s) b"
  by (rule offer_mono) (auto simp: available_def grows_def)

lemma linked_fetch:
  assumes "linked h s" "a < length h" "is_fetch (data_at h a)"
  shows "registered s a = None" "data_at (rheap s) a = data_at h a"
proof -
  show n: "registered s a = None" using assms by (cases "registered s a") (auto simp: linked_def)
  then show "data_at (rheap s) a = data_at h a" using assms by (auto simp: linked_def domIff)
qed

lemma process_linked:
  "process a s = Some (m, s') \<Longrightarrow> linked h s \<Longrightarrow> acyclic_heap h \<Longrightarrow> a < length h \<Longrightarrow>
   linked h s' \<and> grows s s' \<and> available h s' a \<and> m = offer h (registered s') a \<and>
   (\<forall>x > a. registered s x = None \<longrightarrow> registered s' x = None)"
  "process_children a bs s = Some (ms, s') \<Longrightarrow> linked h s \<Longrightarrow> acyclic_heap h \<Longrightarrow> a < length h \<Longrightarrow>
   linked h s' \<and> grows s s' \<and> (\<forall>b \<in> set bs. available h s' b) \<and> ms = map (offer h (registered s')) bs \<and>
   (\<forall>x. a \<le> x \<longrightarrow> registered s x = None \<longrightarrow> registered s' x = None)"
proof (induction a s and a bs s arbitrary: m s' and ms s' rule: process_process_children.induct)
  case (1 a s)
  show ?case
  proof (cases "registered s a")
    case (Some r)
    then have "m = r" "s' = s" using "1.prems"(1) by (simp_all add: process.simps [of a s])
    moreover have "\<not> is_fetch (data_at h a)" using Some "1.prems"(2) by (simp add: linked_def)
    ultimately show ?thesis using "1.prems"(2) Some by (auto simp: available_def offer_def)
  next
    case None
    have al: "a < length (rheap s)" and ch: "children_at (rheap s) a = children_at h a"
      using "1.prems"(2,4) by (auto simp: linked_def same_shape_def)
    have d: "data_at (rheap s) a = data_at h a" using None "1.prems"(2,4) by (auto simp: linked_def domIff)
    show ?thesis
    proof (cases "is_fetch (data_at h a)")
      case True
      then obtain c where c: "at (inputColumns (data_at h a)) 0 = Some c" "m = [columnName c \<mapsto> columnName c]" "s' = s"
        using "1.prems"(1) None al d by (auto simp: process.simps [of a s])
      then show ?thesis
        using True "1.prems"(2) by (cases "inputColumns (data_at h a)") (auto simp: available_def offer_def)
    next
      case False
      obtain ms s1 where p: "process_children a (children_at h a) s = Some (ms, s1)" "rename_node a ms s1 = (m, s')"
        using "1.prems"(1) None False al d ch by (auto simp: process.simps [of a s] option_bind_eq_Some)
      have g: "linked h s1" "grows s s1" "\<forall>b \<in> set (children_at h a). available h s1 b"
        "ms = map (offer h (registered s1)) (children_at h a)" "registered s1 a = None"
        "\<forall>x. a \<le> x \<longrightarrow> registered s x = None \<longrightarrow> registered s1 x = None"
        using "1.IH" [OF None _ _ _ "1.prems"(2-4)] False al d ch p(1) None by auto
      have av: "\<forall>b \<in> set (children_at h a). is_fetch (data_at h b) \<or> b \<in> dom (registered s1)"
        using g(3) by (simp add: available_def)
      have "linked h s' \<and> registered s' = (registered s1)(a \<mapsto> m)"
        using rename_node_linked [OF g(1) "1.prems"(4) g(5) False av] p(2) g(4) by simp
      moreover from this have "grows s1 s'" using g(5) by (auto simp: grows_def)
      ultimately show ?thesis using g(2,6) False grows_trans by (auto simp: available_def offer_def)
    qed
  qed
next
  case (2 a s)
  then show ?case by simp
next
  case (3 a b bs s)
  obtain mb s1 mbs where p: "b < a" "process b s = Some (mb, s1)" "process_children a bs s1 = Some (mbs, s')" "ms = mb # mbs"
    using "3.prems"(1) by (auto simp: option_bind_eq_Some split: if_splits)
  have bl: "b < length h" using p(1) "3.prems"(4) by simp
  note one = "3.IH"(1) [OF p(1,2) "3.prems"(2,3) bl]
  note two = "3.IH"(2) [OF p(1,2) refl p(3) conjunct1 [OF one] "3.prems"(3,4)]
  have gr: "grows s s'" using one two grows_trans by blast
  moreover have "available h s' b" "offer h (registered s') b = mb"
    using one two available_grows offer_grows by auto
  moreover have "registered s1 x = None" if "a \<le> x" "registered s x = None" for x
    using one that p(1) by auto
  ultimately show ?case using two p(4) by simp
qed

lemma uniqueColNames_linked:
  assumes "renamable h" "fetch_leaves h" "root < length h"
  obtains s where "uniqueColNames h root = Some (rheap s)" "linked h s"
    "\<And>a. reach h root a \<Longrightarrow> available h s a"
    "\<And>a. a \<in> dom (registered s) \<Longrightarrow> [] \<notin> out_names (rheap s) a"
proof -
  let ?s = "\<lparr>counter = 0, registered = Map.empty, rheap = h\<rparr>"
  have inv: "ren_inv h ?s" by (simp add: ren_inv_def same_shape_def numbered_def out_count_def)
  have od: "ops_done h (dom (registered ?s))" by (simp add: ops_done_def)
  obtain m s' where p: "process root ?s = Some (m, s')" "ops_done h (dom (registered s'))"
    "is_fetch (data_at h root) \<or> root \<in> dom (registered s')" "ren_inv h s'"
    using process_inv(1) [OF inv assms(1,3) od] by blast
  have "[] \<notin> out_names (rheap s') a" if "a \<in> dom (registered s')" for a
    using p(4) that by (fastforce simp: ren_inv_def numbered_def out_names_def in_set_conv_nth render_def)
  have ac: "acyclic_heap h" using assms(1) by (simp add: renamable_def)
  have "linked h ?s" by (simp add: linked_def same_shape_def)
  then have "linked h s'" using process_linked(1) [OF p(1) _ ac assms(3)] by blast
  moreover have "available h s' a" if "reach h root a" for a
    using reach_done [OF that ac assms(3,2) p(2,3)] by (simp add: available_def)
  moreover have "uniqueColNames h root = Some (rheap s')" using p(1) by (simp add: uniqueColNames_def)
  ultimately show ?thesis using that \<open>\<And>a. a \<in> dom (registered s') \<Longrightarrow> [] \<notin> out_names (rheap s') a\<close> by blast
qed

section \<open>Inputs come from children\<close>

lemma assign_choice:
  "list_all2 (\<lambda>c c'. if cand (columnName c) = [] then c' = c else columnName c' \<in> set (cand (columnName c)))
     cs (assign cand cs)"
proof (induction cs arbitrary: cand)
  case (Cons c cs)
  show ?case
  proof (cases "cand (columnName c)")
    case (Cons n ns)
    show ?thesis
    proof (cases ns)
      case (Cons r rs)
      have "list_all2 (\<lambda>x x'. if (cand(columnName c := ns)) (columnName x) = [] then x' = x
          else columnName x' \<in> set ((cand(columnName c := ns)) (columnName x))) cs (assign (cand(columnName c := ns)) cs)"
        by (rule Cons.IH)
      then have "list_all2 (\<lambda>x x'. if cand (columnName x) = [] then x' = x else columnName x' \<in> set (cand (columnName x)))
          cs (assign (cand(columnName c := ns)) cs)"
        by (rule list_all2_mono) (use \<open>cand (columnName c) = n # ns\<close> Cons in \<open>auto split: if_splits\<close>)
      then show ?thesis using \<open>cand (columnName c) = n # ns\<close> Cons by simp
    qed (use Cons.IH \<open>cand (columnName c) = n # ns\<close> in simp)
  qed (use Cons.IH in simp)
qed simp

lemma candidates_in: "n \<in> set (candidates ms k) \<longleftrightarrow> (\<exists>m \<in> set ms. m k = Some n)"
  by (induction ms) (auto simp: candidates_def split: option.splits)

lemma fetch_column:
  assumes "heap_ok h" "b < length h" "is_fetch (data_at h b)"
  obtains c where "inputColumns (data_at h b) = [c]" "outputCols (data_at h b) = [c]"
  using assms ir_ok_fetch [of "data_at h b"] by (auto simp: heap_ok_def)

text \<open>The names a node may hand to its parents in the renamed plan.\<close>

definition handed :: "heap \<Rightarrow> heap \<Rightarrow> nat \<Rightarrow> string set" where
  "handed h h' b = (if is_fetch (data_at h b) then out_names h b else out_names h' b)"

lemma offer_handed:
  assumes "linked h s" "heap_ok h" "b < length h" "available h s b" "offer h (registered s) b k = Some n"
  shows "n \<in> handed h (rheap s) b"
proof (cases "is_fetch (data_at h b)")
  case True
  then obtain c where "inputColumns (data_at h b) = [c]" "outputCols (data_at h b) = [c]"
    using fetch_column [OF assms(2,3)] by blast
  then show ?thesis using assms(5) True by (auto simp: offer_def handed_def out_names_def outs_def split: if_splits)
next
  case False
  then obtain m where m: "registered s b = Some m" using assms(4) by (auto simp: available_def)
  then have "ran m \<subseteq> out_names (rheap s) b" using assms(1) by (simp add: linked_def)
  then show ?thesis using assms(5) m False by (auto simp: offer_def handed_def intro: ranI)
qed

lemma offer_defined:
  assumes "linked h s" "heap_ok h" "b < length h" "available h s b" "k \<in> out_names h b"
  shows "offer h (registered s) b k \<noteq> None"
proof (cases "is_fetch (data_at h b)")
  case True
  then obtain c where "inputColumns (data_at h b) = [c]" "outputCols (data_at h b) = [c]"
    using fetch_column [OF assms(2,3)] by blast
  then show ?thesis using assms(5) True by (auto simp: offer_def out_names_def outs_def)
next
  case False
  then obtain m where m: "registered s b = Some m" using assms(4) by (auto simp: available_def)
  then have "dom m = out_names h b" using assms(1) by (simp add: linked_def)
  then show ?thesis using assms(5) m False by (auto simp: offer_def)
qed

text \<open>Every input of a wired operator is an output of some child (the columns of a query have names).\<close>

definition named_inputs :: "heap \<Rightarrow> bool" where
  "named_inputs h \<longleftrightarrow> (\<forall>a < length h. \<forall>c \<in> set (inputColumns (data_at h a)). col_key c \<noteq> ([], []))"

lemma serves_out_name: "serves h b (col_key c) \<Longrightarrow> col_key c \<noteq> ([], []) \<Longrightarrow> columnName c \<in> out_names h b"
  by (auto simp: serves_def outputs_key_def out_names_def outs_def col_key_def)

lemma wired_input_served:
  assumes "wired h a" "\<not> is_fetch (data_at h a)" "c \<in> set (inputColumns (data_at h a))" "col_key c \<noteq> ([], [])"
  shows "\<exists>b \<in> set (children_at h a). columnName c \<in> out_names h b"
proof (cases "is_mat (data_at h a)")
  case True
  then obtain src child idx flt where w: "children_at h a = [src, child]" "inputColumns (data_at h a) = [idx, flt]"
    "serves h src (col_key idx)" "flt \<in> set (outputCols (data_at h child))"
    using assms(1) by (auto simp: wired_def mat_wired_def)
  then show ?thesis using assms(3,4) serves_out_name by (auto simp: out_names_def outs_def)
next
  case False
  then have "list_all2 (\<lambda>b c. serves h b (col_key c)) (children_at h a) (inputColumns (data_at h a))"
    using assms(1,2) by (auto simp: wired_def)
  then show ?thesis using assms(3,4) serves_out_name
    by (fastforce simp: list_all2_conv_all_nth in_set_conv_nth)
qed

lemma linked_input_handed:
  assumes "linked h s" "heap_ok h" "wired h a" "a < length h" "a \<in> dom (registered s)" "named_inputs h"
    "c' \<in> set (inputColumns (data_at (rheap s) a))"
  shows "\<exists>b \<in> set (children_at h a). columnName c' \<in> handed h (rheap s) b"
proof -
  let ?ms = "map (offer h (registered s)) (children_at h a)"
  obtain m where "registered s a = Some m" using assms(5) by auto
  then have l: "\<not> is_fetch (data_at h a)" "\<forall>b \<in> set (children_at h a). available h s b"
    "inputColumns (data_at (rheap s) a) = new_inputs h (registered s) a"
    using assms(1) by (auto simp: linked_def available_def)
  have bl: "\<forall>b \<in> set (children_at h a). b < length h"
    using assms(2,4) by (auto simp: heap_ok_def intro: less_trans)
  have sv: "\<exists>b \<in> set (children_at h a). columnName c \<in> out_names h b" if "c \<in> set (inputColumns (data_at h a))" for c
    using wired_input_served [OF assms(3) l(1) that] assms(4,6) that by (auto simp: named_inputs_def)
  have ne: "candidates ?ms (columnName c) \<noteq> []" if "c \<in> set (inputColumns (data_at h a))" for c
  proof -
    from sv [OF that] obtain b where b: "b \<in> set (children_at h a)" "columnName c \<in> out_names h b" by blast
    then obtain n where "offer h (registered s) b (columnName c) = Some n"
      using offer_defined [OF assms(1,2)] bl l(2) by blast
    then have "n \<in> set (candidates ?ms (columnName c))" using b(1) by (auto simp: candidates_in)
    then show ?thesis by auto
  qed
  have "children_at h a \<noteq> []"
    using sv assms(7) l(3) by (auto simp: new_inputs_def split: if_splits)
  then have "c' \<in> set (assign (candidates ?ms) (inputColumns (data_at h a)))"
    using assms(7) l(3) by (simp add: new_inputs_def)
  then obtain c where "c \<in> set (inputColumns (data_at h a))" "columnName c' \<in> set (candidates ?ms (columnName c))"
    using assign_choice [of "candidates ?ms" "inputColumns (data_at h a)"] ne
    by (fastforce simp: list_all2_conv_all_nth in_set_conv_nth)
  then obtain b where "b \<in> set (children_at h a)" "offer h (registered s) b (columnName c) = Some (columnName c')"
    by (auto simp: candidates_in)
  then show ?thesis using offer_handed [OF assms(1,2)] bl l(2) by blast
qed

end
