(* ===== verification/Ir_To_Api.thy ===== *)
theory Ir_To_Api
  imports Sequentializer
begin

text \<open>
  \<open>src/ir/ir_to_api.cpp\<close> with the node structs of \<open>include/translation/item_builder.hpp\<close>: every node
  of the renamed plan receives the operator description from which its work item is built, and the
  fetch nodes are erased from the child lists. The structs of the code point into the columns of
  the node; nothing changes those columns afterwards, so the model holds their values. A struct
  that reads \<open>inputColumns[i]\<close> or \<open>outputCols[i]\<close> of a shorter vector is undefined (\<open>None\<close>).
\<close>

section \<open>The descriptions\<close>

record FetchNode =
  fetchColumn :: TableColumn
  printToFile :: bool

record FilterNode =
  fnInput :: TableColumn
  fnOutput :: TableColumn
  fnType :: CompType
  fnArgs :: "Scalar list"

record JoinNode =
  jnInner :: TableColumn
  jnOuter :: TableColumn
  jnInnerOut :: TableColumn
  jnOuterOut :: TableColumn
  jnPredicate :: CompType

record MapNode =
  mnInput :: TableColumn
  mnOutput :: TableColumn
  mnOperator :: ArithOp
  mnPartner :: Partner

record MaterializeNode =
  matIdx :: TableColumn
  matFilter :: TableColumn
  matOutput :: TableColumn

record MultiGroupNode =
  gnColumns :: "TableColumn list"
  gnOutputIdx :: TableColumn
  gnOutputSortIndex :: TableColumn
  gnOutputCluster :: TableColumn
  gnAggColumn :: TableColumn
  gnAggResultColumn :: TableColumn
  gnStoreExtends :: bool
  gnSortOrders :: "bool list"

record SetOperationNode =
  onOperation :: RelOp
  onInner :: TableColumn
  onOuter :: TableColumn
  onOutput :: TableColumn

record SortNode =
  snInputs :: "TableColumn list"
  snIdxOutput :: TableColumn
  snExistingIdx :: TableColumn
  snOrders :: "bool list"

record AggNode =
  anInput :: TableColumn
  anOutput :: TableColumn
  anFunc :: AggFunc
  anGroupColumns :: "string list"

record ResultNode =
  rnFilename :: string
  rnColumns :: "TableColumn list"
  rnIdx :: TableColumn
  rnHeaders :: "string list"

text \<open>\<open>PlanNode::ApiData\<close>; \<open>NoApi\<close> is the variant's \<open>monostate\<close>. A semi join has the fields of a join.\<close>

datatype ApiData =
    NoApi
  | ApiFetch FetchNode
  | ApiFilter FilterNode
  | ApiJoin JoinNode
  | ApiSemiJoin JoinNode
  | ApiMap MapNode
  | ApiMaterialize MaterializeNode
  | ApiGroup MultiGroupNode
  | ApiSet SetOperationNode
  | ApiSort SortNode
  | ApiAgg AggNode
  | ApiResult ResultNode

section \<open>From operator data to descriptions\<close>

text \<open>\<open>missingCol\<close>, a static default-constructed column.\<close>

definition or_missing :: "TableColumn option \<Rightarrow> TableColumn" where
  "or_missing c = (case c of Some x \<Rightarrow> x | None \<Rightarrow> emptyColumn)"

definition join_api :: "IrData \<Rightarrow> CompType \<Rightarrow> JoinNode option" where
  "join_api d p =
     do { i \<leftarrow> at (inputColumns d) 0; u \<leftarrow> at (inputColumns d) 1;
          io \<leftarrow> at (outputCols d) 0; uo \<leftarrow> at (outputCols d) 1;
          Some \<lparr>jnInner = i, jnOuter = u, jnInnerOut = io, jnOuterOut = uo, jnPredicate = p\<rparr> }"

text \<open>\<open>groupingCols()\<close> is the whole input vector, so a group with an aggregation lists the aggregated
  column among its group columns.\<close>

definition group_api :: "IrData \<Rightarrow> GroupOp \<Rightarrow> MultiGroupNode option" where
  "group_api d g =
     do { x \<leftarrow> at (outputCols d) 0; s \<leftarrow> at (outputCols d) 1; c \<leftarrow> at (outputCols d) 2;
          Some \<lparr>gnColumns = inputColumns d, gnOutputIdx = x, gnOutputSortIndex = s, gnOutputCluster = c,
            gnAggColumn = or_missing (group_aggCol d), gnAggResultColumn = or_missing (group_aggResultCol d),
            gnStoreExtends = False, gnSortOrders = sortOrders g\<rparr> }"

text \<open>A sort and a map take their columns from the operator parameters, not from the input vector.\<close>

definition to_api :: "IrData \<Rightarrow> ApiData option" where
  "to_api d = (case opInfo d of
       NoOp \<Rightarrow> Some NoApi
     | OpFetch _ \<Rightarrow> Some NoApi
     | OpFilter f \<Rightarrow>
         do { i \<leftarrow> at (inputColumns d) 0; out \<leftarrow> at (outputCols d) 0;
              Some (ApiFilter \<lparr>fnInput = i, fnOutput = out, fnType = filterType f, fnArgs = filterArgs f\<rparr>) }
     | OpJoin j \<Rightarrow> map_option ApiJoin (join_api d (joinPredicate j))
     | OpSemiJoin j \<Rightarrow> map_option ApiSemiJoin (join_api d (semiJoinPredicate j))
     | OpMap m \<Rightarrow>
         do { i \<leftarrow> at (inputColumns d) 0; out \<leftarrow> at (outputCols d) 0;
              Some (ApiMap \<lparr>mnInput = i, mnOutput = out, mnOperator = operatorType m, mnPartner = partnerVal m\<rparr>) }
     | OpGroup g \<Rightarrow> map_option ApiGroup (group_api d g)
     | OpAgg g \<Rightarrow>
         do { i \<leftarrow> at (inputColumns d) 0; out \<leftarrow> at (outputCols d) 0;
              Some (ApiAgg \<lparr>anInput = i, anOutput = out, anFunc = aggFunc g, anGroupColumns = []\<rparr>) }
     | OpSort s \<Rightarrow>
         do { out \<leftarrow> at (outputCols d) 0;
              Some (ApiSort \<lparr>snInputs = map column (columnList s), snIdxOutput = out,
                snExistingIdx = or_missing (existingIdx s), snOrders = map orderType (columnList s)\<rparr>) }
     | OpSet s \<Rightarrow>
         do { i \<leftarrow> at (inputColumns d) 0; u \<leftarrow> at (inputColumns d) 1; out \<leftarrow> at (outputCols d) 0;
              Some (ApiSet \<lparr>onOperation = operation s, onInner = i, onOuter = u, onOutput = out\<rparr>) }
     | OpMat _ \<Rightarrow>
         do { i \<leftarrow> at (inputColumns d) 0; f \<leftarrow> at (inputColumns d) 1; out \<leftarrow> at (outputCols d) 0;
              Some (ApiMaterialize \<lparr>matIdx = i, matFilter = f, matOutput = out\<rparr>) }
     | OpSelect s \<Rightarrow>
         Some (ApiResult \<lparr>rnFilename = ''result.csv'', rnColumns = inputColumns d,
           rnIdx = or_missing (resultIdx s), rnHeaders = resultHeaders s\<rparr>))"

lemma to_api_total: "ir_ok d \<Longrightarrow> to_api d \<noteq> None"
  by (cases "opInfo d")
     (auto simp: to_api_def join_api_def group_api_def ir_ok_def is_mat_def at_def split: if_splits)

section \<open>The traversal\<close>

record astate =
  aheap :: heap
  api :: "nat \<Rightarrow> ApiData"

text \<open>\<open>Erase FetchNodes\<close>.\<close>

definition drop_fetches :: "heap \<Rightarrow> nat list \<Rightarrow> nat list" where
  "drop_fetches h bs = filter (\<lambda>b. \<not> is_fetch (data_at h b)) bs"

definition convert_node :: "nat \<Rightarrow> astate \<Rightarrow> astate option" where
  "convert_node a s =
     (if length (aheap s) \<le> a then None
      else map_option (\<lambda>x. s\<lparr>api := (api s)(a := x),
             aheap := (aheap s)[a := (aheap s ! a)\<lparr>cchildren := drop_fetches (aheap s) (children_at (aheap s) a)\<rparr>]\<rparr>)
           (to_api (data_at (aheap s) a)))"

text \<open>\<open>irToApiDataSub\<close>. The recursive call goes through \<open>irToApiData\<close>, which starts with an empty set of
  visited nodes, and no node is ever inserted: a shared node is converted once per path.\<close>

function convert :: "nat \<Rightarrow> astate \<Rightarrow> astate option"
and convert_children :: "nat \<Rightarrow> nat list \<Rightarrow> astate \<Rightarrow> astate option" where
  "convert a s = do { s' \<leftarrow> convert_node a s; convert_children a (children_at (aheap s') a) s' }"
| "convert_children a [] s = Some s"
| "convert_children a (b # bs) s =
     (if b < a then do { s' \<leftarrow> convert b s; convert_children a bs s' } else None)"
  by pat_completeness auto
termination
  by (relation "measures [\<lambda>x. case x of Inl (a, s) \<Rightarrow> 2 * a + 1 | Inr (a, bs, s) \<Rightarrow> 2 * a,
      \<lambda>x. case x of Inl _ \<Rightarrow> 0 | Inr (a, bs, s) \<Rightarrow> length bs]") auto

declare convert.simps [simp del]

definition irToApiData :: "heap \<Rightarrow> nat \<Rightarrow> astate option" where
  "irToApiData h root = convert root \<lparr>aheap = h, api = (\<lambda>_. NoApi)\<rparr>"

section \<open>What is converted\<close>

text \<open>What the conversion needs: an acyclic plan whose operators have the columns they promise.\<close>

definition describable :: "heap \<Rightarrow> bool" where
  "describable h \<longleftrightarrow> acyclic_heap h \<and> (\<forall>a < length h. to_api (data_at h a) \<noteq> None)"

lemma heap_ok_describable: "heap_ok h \<Longrightarrow> describable h"
  using to_api_total heap_ok_acyclic by (fastforce simp: describable_def heap_ok_def)

text \<open>The plan without its fetch nodes, as a specification: every child list at once.\<close>

definition without_fetches :: "heap \<Rightarrow> heap" where
  "without_fetches h = map (\<lambda>c. c\<lparr>cchildren := filter (\<lambda>b. \<not> is_fetch (data_at h b)) (cchildren c)\<rparr>) h"

definition live :: "heap \<Rightarrow> nat \<Rightarrow> nat set" where
  "live h a = {b. reach (without_fetches h) a b}"

text \<open>The state in which exactly the nodes of \<open>D\<close> are converted.\<close>

definition converted :: "heap \<Rightarrow> nat set \<Rightarrow> astate" where
  "converted h D =
     \<lparr>aheap = map (\<lambda>a. if a \<in> D then without_fetches h ! a else h ! a) [0..<length h],
      api = (\<lambda>a. if a \<in> D \<and> a < length h then the (to_api (data_at h a)) else NoApi)\<rparr>"

lemma without_fetches_simps [heap_simps]:
  "length (without_fetches h) = length h"
  "a < length h \<Longrightarrow> data_at (without_fetches h) a = data_at h a"
  "a < length h \<Longrightarrow> children_at (without_fetches h) a = drop_fetches h (children_at h a)"
  by (simp_all add: without_fetches_def data_at_def children_at_def drop_fetches_def)

lemma converted_simps [heap_simps]:
  "length (aheap (converted h D)) = length h"
  "a < length h \<Longrightarrow> data_at (aheap (converted h D)) a = data_at h a"
  "a < length h \<Longrightarrow> children_at (aheap (converted h D)) a =
     (if a \<in> D then drop_fetches h (children_at h a) else children_at h a)"
  by (simp_all add: converted_def data_at_def children_at_def without_fetches_def drop_fetches_def)

lemma drop_fetches_subset: "set (drop_fetches h bs) \<subseteq> set bs"
  by (auto simp: drop_fetches_def)

lemma drop_fetches_twice:
  "drop_fetches h (drop_fetches h bs) = drop_fetches h bs"
  by (simp add: drop_fetches_def)

lemma drop_fetches_converted:
  "\<forall>b \<in> set bs. b < length h \<Longrightarrow> drop_fetches (aheap (converted h D)) bs = drop_fetches h bs"
  by (induction bs) (auto simp: drop_fetches_def heap_simps)

lemma without_fetches_acyclic: "acyclic_heap h \<Longrightarrow> acyclic_heap (without_fetches h)"
  using drop_fetches_subset by (fastforce simp: acyclic_heap_def heap_simps)

lemma astate_replace: "s\<lparr>api := api t, aheap := aheap t\<rparr> = (t :: astate)"
  by (cases s, cases t) simp

lemma convert_node_step:
  assumes "describable h" "a < length h"
  shows "convert_node a (converted h D) = Some (converted h (insert a D))"
proof -
  have b: "\<forall>b \<in> set (children_at h a). b < length h"
    using assms by (auto simp: describable_def acyclic_heap_def intro: less_trans)
  obtain x where x: "to_api (data_at h a) = Some x"
    using assms unfolding describable_def by blast
  let ?s = "converted h D"
  have ch: "drop_fetches (aheap ?s) (children_at (aheap ?s) a) = drop_fetches h (children_at h a)"
    using assms(2) b drop_fetches_subset [of h "children_at h a"]
    by (auto simp: heap_simps drop_fetches_converted drop_fetches_twice subset_iff)
  have cell: "(aheap ?s ! a)\<lparr>cchildren := drop_fetches h (children_at h a)\<rparr> = without_fetches h ! a"
    using assms(2) by (simp add: converted_def without_fetches_def children_at_def drop_fetches_def)
  have "(aheap ?s)[a := without_fetches h ! a] = aheap (converted h (insert a D))"
    using assms(2) by (intro nth_equalityI) (auto simp: converted_def nth_list_update)
  moreover have "(api ?s)(a := x) = api (converted h (insert a D))"
    using assms(2) x by (auto simp: converted_def fun_eq_iff)
  moreover have "convert_node a ?s = Some (?s\<lparr>api := (api ?s)(a := x), aheap := (aheap ?s)[a := without_fetches h ! a]\<rparr>)"
    using assms(2) unfolding convert_node_def ch cell by (simp add: heap_simps x)
  ultimately show ?thesis
    using astate_replace by simp
qed

lemma live_unfold:
  "a < length h \<Longrightarrow> live h a = insert a (\<Union>b \<in> set (drop_fetches h (children_at h a)). live h b)"
  by (auto simp: live_def heap_simps intro: reach.intros elim: reachE)

lemma convert_correct:
  "describable h \<Longrightarrow> a < length h \<Longrightarrow> s = converted h D \<Longrightarrow> convert a s = Some (converted h (D \<union> live h a))"
  "describable h \<Longrightarrow> a < length h \<Longrightarrow> \<forall>b \<in> set bs. b < a \<Longrightarrow> s = converted h D \<Longrightarrow>
   convert_children a bs s = Some (converted h (D \<union> (\<Union>b \<in> set bs. live h b)))"
proof (induction a s and a bs s arbitrary: D and D rule: convert_convert_children.induct)
  case (1 a s)
  let ?s = "converted h (insert a D)"
  have n: "convert_node a s = Some ?s"
    using convert_node_step [OF "1.prems"(1,2)] "1.prems"(3) by simp
  have ch: "children_at (aheap ?s) a = drop_fetches h (children_at h a)"
    using "1.prems"(2) by (simp add: heap_simps)
  have "\<forall>b \<in> set (children_at (aheap ?s) a). b < a"
    using "1.prems"(1,2) drop_fetches_subset unfolding ch by (fastforce simp: describable_def acyclic_heap_def)
  from "1.IH" [OF n "1.prems"(1,2) this refl] show ?case
    using live_unfold [OF "1.prems"(2)] by (simp add: convert.simps [of a s] n ch)
next
  case (2 a s)
  then show ?case by simp
next
  case (3 a b bs s)
  have b: "b < a" "b < length h" using "3.prems"(2,3) by auto
  note one = "3.IH"(1) [OF b(1) "3.prems"(1) b(2) "3.prems"(4)]
  have bs: "\<forall>b \<in> set bs. b < a" using "3.prems"(3) by simp
  from "3.IH"(2) [OF b(1) one "3.prems"(1,2) bs refl] show ?case
    using b(1) one by (simp add: Un_assoc)
qed

lemma irToApiData_converted:
  assumes "describable h" "root < length h"
  shows "irToApiData h root = Some (converted h (live h root))"
proof -
  have e: "\<lparr>aheap = h, api = (\<lambda>_. NoApi)\<rparr> = converted h {}"
    by (simp add: converted_def map_nth)
  show ?thesis
    unfolding irToApiData_def e using convert_correct(1) [OF assms refl, of "{}"] by simp
qed

text \<open>C19 The conversion to operator descriptions succeeds on every well-formed plan. It describes
  exactly the nodes that are reachable without going through a fetch node, each by its own data,
  erases their fetch children and leaves every other node alone.\<close>

theorem irToApiData_correct:
  assumes "heap_ok h" "root < length h"
  shows "irToApiData h root = Some (converted h (live h root))"
  by (rule irToApiData_converted [OF heap_ok_describable [OF assms(1)] assms(2)])

text \<open>A filter over a base table, described and cut off from its fetch node.\<close>

definition api_heap :: heap where
  "api_heap = (let c = mkColumn (table_of ''t'') ''k'' TYPE_INTEGER None in
     [\<lparr>cdata = fetch_create c True, cchildren = []\<rparr>,
      \<lparr>cdata = filter_create c COMP_EQ None [] c, cchildren = [0]\<rparr>,
      \<lparr>cdata = select_create [c] None [], cchildren = [1]\<rparr>])"

lemma api_heap_ok: "heap_ok api_heap" "2 < length api_heap"
  by (auto simp: api_heap_def Let_def heap_ok_def data_at_def children_at_def less_Suc_eq numeral_3_eq_3)

theorem irToApiData_correct_witness:
  "irToApiData api_heap 2 = Some (converted api_heap (live api_heap 2))"
  by (rule irToApiData_correct [OF api_heap_ok])

end
