(* ===== verification/Item_Builder.thy ===== *)
theory Item_Builder
  imports Ir_To_Api
begin

text \<open>
  \<open>src/translation/item_builder.cpp\<close>: the work item messages of \<open>proto/WorkItem.proto\<close> and the builder
  that fills one per described plan node. A message is a record of the fields the builder sets,
  a \<open>oneof\<close> is a datatype. The builder's two file-scope counters are explicit state.
\<close>

section \<open>Messages\<close>

record ColumnMessage =
  tabname :: string
  colname :: string
  coltype :: ColumnType

text \<open>\<open>setTableColumnType\<close>.\<close>

definition column_message :: "TableColumn \<Rightarrow> ColumnMessage" where
  "column_message c = \<lparr>tabname = tname (ctable c), colname = columnName c, coltype = columnType c\<rparr>"

text \<open>\<open>ScalarValue\<close>; the protocol's \<open>double\<close> holds a widened \<open>float\<close>, kept here by its 32-bit pattern.\<close>

datatype ScalarValue = IntVal "64 word" | FloatVal "32 word" | StringVal string

fun scalar_message :: "Scalar \<Rightarrow> ScalarValue" where
  "scalar_message (ScalarInt n) = IntVal n"
| "scalar_message (ScalarFloat f) = FloatVal f"
| "scalar_message (ScalarString s) = StringVal s"

record FilterItem =
  fiInput :: ColumnMessage
  fiOutput :: ColumnMessage
  fiType :: CompType
  fiValues :: "ScalarValue list"

record JoinItem =
  jiInner :: ColumnMessage
  jiOuter :: ColumnMessage
  jiInnerOut :: ColumnMessage
  jiOuterOut :: ColumnMessage
  jiPredicate :: CompType

text \<open>The \<open>oneof\<close> of a map: writing one alternative clears the other.\<close>

datatype MapPartner = PartnerColumn ColumnMessage | StaticVal ScalarValue

record MapItem =
  miInput :: ColumnMessage
  miOutput :: ColumnMessage
  miOperator :: ArithOp
  miPartner :: MapPartner

record MaterializeItem =
  matiIndex :: ColumnMessage
  matiFilter :: ColumnMessage
  matiOutput :: ColumnMessage

record MultiGroupItem =
  giColumns :: "ColumnMessage list"
  giOutputIndex :: ColumnMessage
  giOutputSortIndex :: ColumnMessage
  giOutputClusters :: ColumnMessage
  giAggColumn :: ColumnMessage
  giAggResult :: ColumnMessage
  giStoreExtends :: bool
  giSortOrders :: "bool list"

record SetOperationItem =
  oiOperation :: RelOp
  oiInner :: ColumnMessage
  oiOuter :: ColumnMessage
  oiOutput :: ColumnMessage

record SortItem =
  siInputs :: "ColumnMessage list"
  siOrders :: "bool list"
  siIndexOutput :: ColumnMessage
  siExistingIndex :: ColumnMessage

record AggItem =
  aiInput :: ColumnMessage
  aiOutput :: ColumnMessage
  aiFunc :: AggFunc
  aiGroupColumns :: "string list"

record FetchItem =
  fetiInput :: ColumnMessage
  fetiPrint :: bool

record ResultItem =
  riFilename :: string
  riColumns :: "ColumnMessage list"
  riHeaders :: "string list"

datatype OpData =
    NoOpData
  | FilterData FilterItem
  | JoinData JoinItem
  | AggData AggItem
  | SortData SortItem
  | MapData MapItem
  | MaterializeData MaterializeItem
  | SetData SetOperationItem
  | FetchData FetchItem
  | MultiGroupData MultiGroupItem
  | ResultData ResultItem

record WorkItem =
  planId :: "32 word"
  itemId :: "32 word"
  operatorId :: OperatorType
  opData :: OpData

section \<open>The builder\<close>

text \<open>\<open>currentPlanId\<close> and \<open>currentItemId\<close>.\<close>

record builder =
  currentPlanId :: "32 word"
  currentItemId :: "32 word"

type_synonym 'a build = "builder \<Rightarrow> 'a \<times> builder"

definition createWorkItem :: "OperatorType \<Rightarrow> WorkItem build" where
  "createWorkItem op g =
     (\<lparr>planId = currentPlanId g, itemId = currentItemId g, operatorId = op, opData = NoOpData\<rparr>,
      g\<lparr>currentItemId := currentItemId g + 1\<rparr>)"

text \<open>\<open>mutable_\<dots>data\<close> on the fresh item; the parameterless \<open>createWorkItem\<close> uses operator 1.\<close>

definition with_data :: "OperatorType \<Rightarrow> OpData \<Rightarrow> WorkItem build" where
  "with_data op x g = (let (w, g') = createWorkItem op g in (w\<lparr>opData := x\<rparr>, g'))"

definition createFetchItem :: "FetchNode \<Rightarrow> WorkItem build" where
  "createFetchItem n = with_data OP_FILTER
     (FetchData \<lparr>fetiInput = column_message (fetchColumn n), fetiPrint = printToFile n\<rparr>)"

definition createFilterItem :: "FilterNode \<Rightarrow> WorkItem build" where
  "createFilterItem n = with_data OP_FILTER
     (FilterData \<lparr>fiInput = column_message (fnInput n), fiOutput = column_message (fnOutput n),
        fiType = fnType n, fiValues = map scalar_message (fnArgs n)\<rparr>)"

definition createJoinItem :: "JoinNode \<Rightarrow> WorkItem build" where
  "createJoinItem n = with_data OP_HASHJOIN
     (JoinData \<lparr>jiInner = column_message (jnInner n), jiOuter = column_message (jnOuter n),
        jiInnerOut = column_message (jnInnerOut n), jiOuterOut = column_message (jnOuterOut n),
        jiPredicate = jnPredicate n\<rparr>)"

fun map_partner :: "Partner \<Rightarrow> MapPartner" where
  "map_partner (PartnerCol c) = PartnerColumn (column_message c)"
| "map_partner (PartnerVal v) = StaticVal (scalar_message v)"

definition createMapItem :: "MapNode \<Rightarrow> WorkItem build" where
  "createMapItem n = with_data OP_MAP
     (MapData \<lparr>miInput = column_message (mnInput n), miOutput = column_message (mnOutput n),
        miOperator = mnOperator n, miPartner = map_partner (mnPartner n)\<rparr>)"

definition createMaterializeItem :: "MaterializeNode \<Rightarrow> WorkItem build" where
  "createMaterializeItem n = with_data OP_MATERIALIZE
     (MaterializeData \<lparr>matiIndex = column_message (matIdx n), matiFilter = column_message (matFilter n),
        matiOutput = column_message (matOutput n)\<rparr>)"

definition createMultiGroupItem :: "MultiGroupNode \<Rightarrow> WorkItem build" where
  "createMultiGroupItem n = with_data OP_GROUPBY
     (MultiGroupData \<lparr>giColumns = map column_message (gnColumns n),
        giOutputIndex = column_message (gnOutputIdx n),
        giOutputSortIndex = column_message (gnOutputSortIndex n),
        giOutputClusters = column_message (gnOutputCluster n),
        giAggColumn = column_message (gnAggColumn n), giAggResult = column_message (gnAggResultColumn n),
        giStoreExtends = gnStoreExtends n, giSortOrders = gnSortOrders n\<rparr>)"

definition createSetOperationItem :: "SetOperationNode \<Rightarrow> WorkItem build" where
  "createSetOperationItem n = with_data OP_SETOPERATION
     (SetData \<lparr>oiOperation = onOperation n, oiInner = column_message (onInner n),
        oiOuter = column_message (onOuter n), oiOutput = column_message (onOutput n)\<rparr>)"

definition createSortItem :: "SortNode \<Rightarrow> WorkItem build" where
  "createSortItem n = with_data OP_SORT
     (SortData \<lparr>siInputs = map column_message (snInputs n), siOrders = snOrders n,
        siIndexOutput = column_message (snIdxOutput n), siExistingIndex = column_message (snExistingIdx n)\<rparr>)"

definition createAggItem :: "AggNode \<Rightarrow> WorkItem build" where
  "createAggItem n = with_data OP_AGGREGATE
     (AggData \<lparr>aiInput = column_message (anInput n), aiOutput = column_message (anOutput n),
        aiFunc = anFunc n, aiGroupColumns = anGroupColumns n\<rparr>)"

text \<open>The result item drops the node's index column.\<close>

definition createResultItem :: "ResultNode \<Rightarrow> WorkItem build" where
  "createResultItem n = with_data OP_FILTER
     (ResultData \<lparr>riFilename = rnFilename n, riColumns = map column_message (rnColumns n),
        riHeaders = rnHeaders n\<rparr>)"

text \<open>The dispatch of \<open>createWorkItems\<close>; nothing is built for a semi join.\<close>

fun build_item :: "ApiData \<Rightarrow> WorkItem build option" where
  "build_item NoApi = None"
| "build_item (ApiFetch n) = Some (createFetchItem n)"
| "build_item (ApiFilter n) = Some (createFilterItem n)"
| "build_item (ApiJoin n) = Some (createJoinItem n)"
| "build_item (ApiSemiJoin n) = None"
| "build_item (ApiMap n) = Some (createMapItem n)"
| "build_item (ApiMaterialize n) = Some (createMaterializeItem n)"
| "build_item (ApiGroup n) = Some (createMultiGroupItem n)"
| "build_item (ApiSet n) = Some (createSetOperationItem n)"
| "build_item (ApiSort n) = Some (createSortItem n)"
| "build_item (ApiAgg n) = Some (createAggItem n)"
| "build_item (ApiResult n) = Some (createResultItem n)"

text \<open>The loop; \<open>n\<close> is \<open>itemId\<close>, an \<open>int\<close> counting nodes, \<open>pid\<close> the \<open>int\<close> plan id as its 32 bits.\<close>

fun build_items :: "nat \<Rightarrow> 32 word \<Rightarrow> ApiData list \<Rightarrow> WorkItem list build" where
  "build_items n pid [] g = ([], g)"
| "build_items n pid (x # xs) g = (case build_item x of
     None \<Rightarrow> build_items (Suc n) pid xs g
   | Some b \<Rightarrow>
       (let (w, g1) = b g; (ws, g2) = build_items (Suc n) pid xs g1
        in (w\<lparr>itemId := of_nat n, planId := pid\<rparr> # ws, g2)))"

definition createWorkItems :: "ApiData list \<Rightarrow> 32 word \<Rightarrow> WorkItem list build" where
  "createWorkItems xs pid = build_items 1 pid xs"

section \<open>What is built\<close>

text \<open>The payload of a description, whatever the builder's counters.\<close>

definition payload :: "ApiData \<Rightarrow> (OperatorType \<times> OpData) option" where
  "payload x = map_option (\<lambda>b. let w = fst (b \<lparr>currentPlanId = 0, currentItemId = 0\<rparr>) in (operatorId w, opData w))
     (build_item x)"

lemmas create_item_defs = createFetchItem_def createFilterItem_def createJoinItem_def createMapItem_def
  createMaterializeItem_def createMultiGroupItem_def createSetOperationItem_def createSortItem_def
  createAggItem_def createResultItem_def

lemma with_data_simp:
  "with_data op x g = (\<lparr>planId = currentPlanId g, itemId = currentItemId g, operatorId = op, opData = x\<rparr>,
     g\<lparr>currentItemId := currentItemId g + 1\<rparr>)"
  by (simp add: with_data_def createWorkItem_def)

lemma build_item_payload:
  "build_item x = Some b \<Longrightarrow> payload x = Some (op, y) \<Longrightarrow>
   b g = (\<lparr>planId = currentPlanId g, itemId = currentItemId g, operatorId = op, opData = y\<rparr>,
     g\<lparr>currentItemId := currentItemId g + 1\<rparr>)"
  by (cases x) (auto simp: payload_def create_item_defs with_data_simp)

text \<open>The items as a function of the positions: the one of the \<open>i\<close>-th node has number \<open>i + 1\<close>.\<close>

definition numbered_items :: "nat \<Rightarrow> 32 word \<Rightarrow> ApiData list \<Rightarrow> WorkItem list" where
  "numbered_items n pid xs = List.map_filter (\<lambda>(i, x).
     map_option (\<lambda>(op, y). \<lparr>planId = pid, itemId = of_nat i, operatorId = op, opData = y\<rparr>) (payload x))
     (zip [n..<n + length xs] xs)"

lemma numbered_items_Nil [simp]: "numbered_items n pid [] = []"
  by (simp add: numbered_items_def)

lemma numbered_items_Cons:
  "numbered_items n pid (x # xs) = (case payload x of None \<Rightarrow> []
     | Some (op, y) \<Rightarrow> [\<lparr>planId = pid, itemId = of_nat n, operatorId = op, opData = y\<rparr>]) @ numbered_items (Suc n) pid xs"
proof -
  have "[n..<n + length (x # xs)] = n # [Suc n..<Suc n + length xs]"
    by (simp add: upt_conv_Cons del: upt_Suc)
  then show ?thesis by (auto simp: numbered_items_def split: option.splits)
qed

lemma build_items_spec: "fst (build_items n pid xs g) = numbered_items n pid xs"
proof (induction xs arbitrary: n g)
  case Nil
  then show ?case by (simp add: numbered_items_def)
next
  case (Cons x xs)
  show ?case
  proof (cases "build_item x")
    case None
    then show ?thesis using Cons by (simp add: numbered_items_Cons payload_def)
  next
    case (Some b)
    then obtain op y where p: "payload x = Some (op, y)" by (auto simp: payload_def Let_def)
    show ?thesis
      using Cons Some by (simp add: numbered_items_Cons p build_item_payload [OF Some p] split_beta Let_def)
  qed
qed

lemma payload_item: "payload x = None \<Longrightarrow> build_item x = None" "payload x = Some y \<Longrightarrow> \<exists>b. build_item x = Some b"
  by (auto simp: payload_def)

lemma numbered_items_ids:
  "n + length xs \<le> 2 ^ 32 \<Longrightarrow> map (unat \<circ> itemId) (numbered_items n pid xs) =
     map ((+) n) (filter (\<lambda>i. build_item (xs ! i) \<noteq> None) [0..<length xs])"
proof (induction xs arbitrary: n)
  case (Cons x xs)
  have u: "unat (of_nat n :: 32 word) = n" using Cons.prems by (simp add: unat_of_nat)
  have up: "[0..<length (x # xs)] = 0 # map Suc [0..<length xs]"
    by (simp add: upt_conv_Cons map_Suc_upt del: upt_Suc)
  have IH: "map (unat \<circ> itemId) (numbered_items (Suc n) pid xs) =
      map ((+) (Suc n)) (filter (\<lambda>i. build_item (xs ! i) \<noteq> None) [0..<length xs])"
    using Cons.prems by (intro Cons.IH) simp
  show ?case
    unfolding up numbered_items_Cons using IH u
    by (auto simp: filter_map comp_def payload_item split: option.splits)
qed simp

lemma numbered_items_payload:
  "map (\<lambda>w. (operatorId w, opData w)) (numbered_items n pid xs) = List.map_filter payload xs"
  "\<forall>w \<in> set (numbered_items n pid xs). planId w = pid"
  by (induction xs arbitrary: n)
     (auto simp: numbered_items_Cons payload_item split: option.splits)


definition sample_nodes :: "ApiData list" where
  "sample_nodes = (let c = mkColumn (table_of ''t'') ''k'' TYPE_INTEGER None in
     [ApiFilter \<lparr>fnInput = c, fnOutput = c, fnType = COMP_EQ, fnArgs = [ScalarInt 3]\<rparr>,
      ApiSemiJoin \<lparr>jnInner = c, jnOuter = c, jnInnerOut = c, jnOuterOut = c, jnPredicate = COMP_EQ\<rparr>,
      ApiResult \<lparr>rnFilename = ''result.csv'', rnColumns = [c], rnIdx = emptyColumn, rnHeaders = [''k'']\<rparr>])"

lemma sample_nodes_length: "length sample_nodes < 2 ^ 32"
  by (simp add: sample_nodes_def Let_def)


end
