(* ===== verification/Pipeline.thy ===== *)
theory Pipeline
  imports Client_Config Ast_To_Ir Column_Setup Tree_Optimizations Late_Materialize Grand_Children
    Name_Flow Item_Builder
begin

text \<open>
  \<open>DBClient::runOptimizerPipeline\<close> (\<open>src/client/DBClient.cpp\<close>): the passes in the order the client
  runs them, under the flags of its configuration. The front half works on the plan tree, the
  materialization pass turns the tree into a graph, the back half works on the graph and ends in
  work items. A step without a value (an undefined access in the code) makes the pipeline \<open>None\<close>.
\<close>

section \<open>The two halves\<close>

definition tree_passes :: "ClientConfiguration \<Rightarrow> plan \<Rightarrow> plan option" where
  "tree_passes cfg p =
     (let p1 = ensureCorrectColumnSetup p (Map.empty, Map.empty);
          p2 = (if cfg_semiJoins cfg then placeSemiJoins p1 {} else p1);
          p3 = (if cfg_mergeSubsetSort cfg then mergeSortIntoGroupIfSubset p2 else p2)
      in map_option snd (moveAggIntoGroup p3))"

definition materialize_pass :: "ClientConfiguration \<Rightarrow> plan \<Rightarrow> (nat \<times> TableColumn list \<times> heap) option" where
  "materialize_pass cfg p = (case cfg_matType cfg of
       FillMaterializes \<Rightarrow> fillMaterializes p
     | PutLateMaterialization \<Rightarrow> putLateMaterializationV2 p
     | PutLateMaterializationsHybrid \<Rightarrow> putLateMaterializationHybrid p)"

definition graph_passes :: "ClientConfiguration \<Rightarrow> heap \<Rightarrow> nat \<Rightarrow> (nat list \<times> astate) option" where
  "graph_passes cfg h root =
     do { h1 \<leftarrow> (if cfg_grandChildOpt cfg then grandChildrenOptimization h root else Some h);
          h2 \<leftarrow> uniqueColNames h1 root;
          s \<leftarrow> irToApiData h2 root;
          L \<leftarrow> to_sequence_children_list (aheap s) root;
          Some (L, s) }"

text \<open>The plan id is a 64-bit number that \<open>createWorkItems\<close> takes as an \<open>int\<close>.\<close>

definition work_items :: "ClientConfiguration \<Rightarrow> heap \<Rightarrow> nat \<Rightarrow> 64 word \<Rightarrow> WorkItem list build option" where
  "work_items cfg h root pid =
     map_option (\<lambda>(L, s). createWorkItems (map (api s) L) (ucast pid)) (graph_passes cfg h root)"

definition runOptimizerPipeline :: "ClientConfiguration \<Rightarrow> plan \<Rightarrow> 64 word \<Rightarrow> builder \<Rightarrow> WorkItem list option" where
  "runOptimizerPipeline cfg ir_root pid g =
     do { p \<leftarrow> tree_passes cfg ir_root;
          (root, _, h) \<leftarrow> materialize_pass cfg p;
          f \<leftarrow> work_items cfg h root pid;
          Some (fst (f g)) }"

section \<open>What a work item reads and writes\<close>

text \<open>The column messages an item names as its inputs and as its outputs. The default column stands
  for an absent aggregation or index.\<close>

definition present :: "ColumnMessage list \<Rightarrow> ColumnMessage list" where
  "present = filter (\<lambda>c. c \<noteq> column_message emptyColumn)"

fun partner_reads :: "MapPartner \<Rightarrow> ColumnMessage list" where
  "partner_reads (PartnerColumn c) = [c]"
| "partner_reads (StaticVal _) = []"

fun item_reads :: "OpData \<Rightarrow> ColumnMessage list" where
  "item_reads NoOpData = []"
| "item_reads (FilterData x) = [fiInput x]"
| "item_reads (JoinData x) = [jiInner x, jiOuter x]"
| "item_reads (AggData x) = [aiInput x]"
| "item_reads (SortData x) = siInputs x @ present [siExistingIndex x]"
| "item_reads (MapData x) = miInput x # partner_reads (miPartner x)"
| "item_reads (MaterializeData x) = [matiIndex x, matiFilter x]"
| "item_reads (SetData x) = [oiInner x, oiOuter x]"
| "item_reads (FetchData x) = [fetiInput x]"
| "item_reads (MultiGroupData x) = giColumns x"
| "item_reads (ResultData x) = riColumns x"

fun item_writes :: "OpData \<Rightarrow> ColumnMessage list" where
  "item_writes (FilterData x) = [fiOutput x]"
| "item_writes (JoinData x) = [jiInnerOut x, jiOuterOut x]"
| "item_writes (AggData x) = [aiOutput x]"
| "item_writes (SortData x) = [siIndexOutput x]"
| "item_writes (MapData x) = [miOutput x]"
| "item_writes (MaterializeData x) = [matiOutput x]"
| "item_writes (SetData x) = [oiOutput x]"
| "item_writes (MultiGroupData x) =
     [giOutputIndex x, giOutputSortIndex x, giOutputClusters x] @ present [giAggResult x]"
| "item_writes _ = []"

section \<open>From node data to items\<close>

text \<open>Operators whose item is built from the renamed columns of its node and that have an item. The
  others are the subject of the findings: a sort and a map with a column partner read columns that
  were never renamed, a semi join has no item.\<close>

definition faithful_op :: "IrData \<Rightarrow> bool" where
  "faithful_op d = (case opInfo d of
       OpSort _ \<Rightarrow> False
     | OpSemiJoin _ \<Rightarrow> False
     | OpMap m \<Rightarrow> (case partnerVal m of PartnerCol _ \<Rightarrow> False | PartnerVal _ \<Rightarrow> True)
     | _ \<Rightarrow> True)"

lemma item_reads_inputs:
  assumes "to_api d = Some x" "payload x = Some (op, y)" "faithful_op d"
  shows "colname ` set (item_reads y) \<subseteq> columnName ` set (inputColumns d)"
  using assms
  by (cases "opInfo d")
     (auto simp: to_api_def join_api_def group_api_def payload_def create_item_defs with_data_simp faithful_op_def
        column_message_def option_bind_eq_Some image_image split: Partner.splits)

text \<open>Every output of an operator other than a selection is written by its item.\<close>

lemma item_writes_outputs:
  assumes "to_api d = Some x" "op_ok (opInfo d) ins (outputCols d)" "faithful_op d"
    "\<not> is_fetch d" "\<not> is_select d" "c \<in> set (outputCols d)" "columnName c \<noteq> []"
  shows "\<exists>op y. payload x = Some (op, y) \<and> columnName c \<in> colname ` set (item_writes y)"
proof (cases "opInfo d")
  case (OpGroup g)
  then show ?thesis
    using assms
    by (auto simp: to_api_def group_api_def payload_def create_item_defs with_data_simp column_message_def
        group_aggResultCol_def present_def emptyColumn_def or_missing_def length_Suc_conv numeral_eq_Suc option_bind_eq_Some
        split: if_splits)
qed (use assms in \<open>auto simp: to_api_def join_api_def payload_def create_item_defs with_data_simp faithful_op_def
        column_message_def is_fetch_def is_select_def length_Suc_conv numeral_2_eq_2 option_bind_eq_Some split: Partner.splits\<close>)

section \<open>Lists and graphs\<close>

lemma map_filter_before:
  assumes "i < length (List.map_filter f L)"
  shows "\<exists>k < length L. f (L ! k) = Some (List.map_filter f L ! i) \<and>
    (\<forall>l < k. \<forall>y. f (L ! l) = Some y \<longrightarrow> (\<exists>j < i. List.map_filter f L ! j = y))"
  using assms
proof (induction L arbitrary: i)
  case (Cons x L)
  show ?case
  proof (cases "f x")
    case None
    then have "i < length (List.map_filter f L)" using Cons.prems by simp
    from Cons.IH [OF this] obtain k where k: "k < length L" "f (L ! k) = Some (List.map_filter f L ! i)"
      "\<forall>l < k. \<forall>y. f (L ! l) = Some y \<longrightarrow> (\<exists>j < i. List.map_filter f L ! j = y)"
      by blast
    then show ?thesis using None by (intro exI [of _ "Suc k"]) (auto simp: less_Suc_eq_0_disj)
  next
    case (Some z)
    show ?thesis
    proof (cases i)
      case 0
      then show ?thesis using Some by (intro exI [of _ 0]) simp
    next
      case (Suc i')
      then have "i' < length (List.map_filter f L)" using Cons.prems Some by simp
      from Cons.IH [OF this] obtain k where k: "k < length L" "f (L ! k) = Some (List.map_filter f L ! i')"
        "\<forall>l < k. \<forall>y. f (L ! l) = Some y \<longrightarrow> (\<exists>j < i'. List.map_filter f L ! j = y)"
        by blast
      have "\<exists>j < Suc i'. (z # List.map_filter f L) ! j = y" if lk: "l < Suc k" "f ((x # L) ! l) = Some y" for l y
      proof (cases l)
        case (Suc l')
        then obtain j where "j < i'" "List.map_filter f L ! j = y" using k(3) lk by auto
        then show ?thesis by (intro exI [of _ "Suc j"]) simp
      qed (use lk Some in auto)
      then show ?thesis using k(1,2) Some Suc by (intro exI [of _ "Suc k"]) simp
    qed
  qed
qed simp

lemma reach_agree1: "reach h a x \<Longrightarrow> (\<And>y. reach h a y \<Longrightarrow> children_at g y = children_at h y) \<Longrightarrow> reach g a x"
proof (induction rule: reach.induct)
  case (child b a c)
  have "reach g b c" using child.IH child.prems child.hyps(1) by (meson reach.child)
  moreover have "b \<in> set (children_at g a)" using child.hyps(1) child.prems reach.here by metis
  ultimately show ?case by (rule reach.child [rotated])
qed (rule reach.here)

lemma reach_agree2: "reach g a x \<Longrightarrow> (\<And>y. reach h a y \<Longrightarrow> children_at g y = children_at h y) \<Longrightarrow> reach h a x"
proof (induction rule: reach.induct)
  case (child b a c)
  have b: "b \<in> set (children_at h a)" using child.hyps(1) child.prems reach.here by metis
  then have "reach h b c" using child.IH child.prems by (meson reach.child)
  then show ?case using b by (rule reach.child [rotated])
qed (rule reach.here)

lemma reach_agree:
  "(\<And>y. reach h a y \<Longrightarrow> children_at g y = children_at h y) \<Longrightarrow> reach g a x = reach h a x"
  using reach_agree1 [of h a x g] reach_agree2 [of g a x h] by blast

lemma reach_subset:
  "reach g a x \<Longrightarrow> acyclic_heap g \<Longrightarrow> a < length g \<Longrightarrow>
   (\<And>y. y < length g \<Longrightarrow> set (children_at g y) \<subseteq> set (children_at h y)) \<Longrightarrow> reach h a x"
proof (induction rule: reach.induct)
  case (child b a c)
  have "b < length g" using child.hyps(1) child.prems(1,2) by (meson acyclic_heap_def less_trans)
  then have "reach h b c" using child by blast
  then show ?case using child.hyps(1) child.prems(2,3) by (meson reach.child subsetD)
qed (rule reach.here)

section \<open>Every column is written before it is read\<close>

definition base_names :: "heap \<Rightarrow> string set" where
  "base_names h = (\<Union>b \<in> {b. b < length h \<and> is_fetch (data_at h b)}. out_names h b)"

text \<open>What the back half needs of the plan it is given: wired, with named columns and few enough
  outputs for the 32-bit name counter, fetch nodes only as leaves, the selection only at the root, and only operators that have an item
  built from renamed columns.\<close>

definition executable :: "heap \<Rightarrow> nat \<Rightarrow> bool" where
  "executable h root \<longleftrightarrow> mats_wired h \<and> root < length h \<and> renamable h \<and> fetch_leaves h \<and> named_inputs h \<and>
     (\<forall>a < length h. faithful_op (data_at h a) \<and> (is_select (data_at h a) \<longrightarrow> a = root))"

lemma faithful_op_cong: "opInfo d' = opInfo d \<Longrightarrow> faithful_op d' = faithful_op d"
  by (simp add: faithful_op_def)

lemma to_api_lengths:
  "to_api d \<noteq> None \<Longrightarrow> opInfo d' = opInfo d \<Longrightarrow> length (inputColumns d') = length (inputColumns d) \<Longrightarrow>
   length (outputCols d') = length (outputCols d) \<Longrightarrow> to_api d' \<noteq> None"
  by (cases "opInfo d") (auto simp: to_api_def join_api_def group_api_def at_def split: if_splits)

lemma op_ok_lengths:
  "op_ok p is os \<Longrightarrow> length is' = length is \<Longrightarrow> length os' = length os \<Longrightarrow>
   \<not> is_OpFetch p \<Longrightarrow> \<not> is_OpSelect p \<Longrightarrow> op_ok p is' os'"
  by (cases p) auto

lemma renamed_describable:
  assumes "heap_ok h" "same_shape h g"
  shows "describable g"
proof -
  have "acyclic_heap g"
    using assms by (auto simp: acyclic_heap_def heap_ok_def same_shape_def)
  moreover have "to_api (data_at g a) \<noteq> None" if "a < length g" for a
    using assms that to_api_lengths [OF to_api_total [of "data_at h a"], of "data_at g a"]
    by (auto simp: heap_ok_def same_shape_def outs_def)
  ultimately show ?thesis by (simp add: describable_def)
qed

text \<open>The sequence over the described plan: the live nodes, every described child before its parent.\<close>

lemma described_sequence:
  assumes ds: "describable g" and root: "root < length g"
  obtains L where "irToApiData g root = Some (converted g (live g root))"
    "to_sequence_children_list (aheap (converted g (live g root))) root = Some L"
    "\<And>a. a \<in> set L \<Longrightarrow> a \<le> root \<and> reach g root a \<and> to_api (data_at g a) = Some (api (converted g (live g root)) a)"
    "\<And>k b. k < length L \<Longrightarrow> b \<in> set (children_at g (L ! k)) \<Longrightarrow> \<not> is_fetch (data_at g b) \<Longrightarrow> \<exists>l < k. L ! l = b"
proof -
  let ?A = "converted g (live g root)" and ?w = "without_fetches g"
  have acw: "acyclic_heap ?w" using ds by (simp add: describable_def without_fetches_acyclic)
  have rl: "root < length ?w" using root by (simp add: heap_simps)
  have live: "x \<le> root" if "reach ?w root x" for x by (rule reach_bound [OF that acw rl])
  have agree: "children_at (aheap ?A) x = children_at ?w x" if "reach ?w root x" for x
    using live [OF that] root that by (simp add: heap_simps live_def)
  have acA: "acyclic_heap (aheap ?A)"
    using ds drop_fetches_subset by (fastforce simp: acyclic_heap_def describable_def heap_simps)
  have rA: "root < length (aheap ?A)" using root by (simp add: heap_simps)
  obtain L where L: "to_sequence_children_list (aheap ?A) root = Some L" "set L = {a. reach (aheap ?A) root a}"
    "\<forall>i < length L. \<forall>b \<in> set (children_at (aheap ?A) (L ! i)). \<exists>j < i. L ! j = b"
    using reachable_sequence [OF acA rA] by blast
  have setL: "set L = {a. reach ?w root a}" using L(2) reach_agree [OF agree] by simp
  have in_g: "reach g root a" if "reach ?w root a" for a
    by (rule reach_subset [OF that acw rl]) (simp add: heap_simps drop_fetches_subset)
  have "a \<le> root \<and> reach g root a \<and> to_api (data_at g a) = Some (api ?A a)" if "a \<in> set L" for a
  proof -
    have r: "reach ?w root a" using that setL by simp
    then have "a < length g" using live root by fastforce
    then show ?thesis using r live in_g ds by (auto simp: converted_def live_def describable_def)
  qed
  moreover have "\<exists>l < k. L ! l = b" if k: "k < length L" "b \<in> set (children_at g (L ! k))" "\<not> is_fetch (data_at g b)" for k b
  proof -
    have r: "reach ?w root (L ! k)" using k(1) setL nth_mem by blast
    then have "b \<in> set (children_at ?w (L ! k))"
      using k(2,3) live [OF r] root by (simp add: heap_simps drop_fetches_def)
    then show ?thesis using L(3) k(1) agree [OF r] by metis
  qed
  ultimately show ?thesis using that irToApiData_converted [OF ds root] L(1) by blast
qed

text \<open>What the item of a node reads is handed to it by a child.\<close>

lemma read_handed:
  assumes ex: "executable h root" and l: "linked h s" and a: "a < length h" "available h s a"
    and x: "to_api (data_at (rheap s) a) = Some x" "payload x = Some y" "n \<in> colname ` set (item_reads (snd y))"
  shows "\<exists>b \<in> set (children_at h a). n \<in> handed h (rheap s) b"
proof -
  have hk: "heap_ok h" and wd: "wired h a" and nm: "named_inputs h" and fo: "faithful_op (data_at h a)"
    using ex a(1) by (auto simp: executable_def mats_wired_def)
  have op: "opInfo (data_at (rheap s) a) = opInfo (data_at h a)"
    using l a(1) by (auto simp: linked_def same_shape_def)
  have "\<not> is_fetch (data_at h a)"
    using x(1,2) op by (auto simp: is_fetch_def to_api_def payload_def split: OpInfo.splits)
  then have reg: "a \<in> dom (registered s)" using a(2) by (simp add: available_def)
  have "n \<in> columnName ` set (inputColumns (data_at (rheap s) a))"
    using item_reads_inputs [OF x(1), of "fst y" "snd y"] x(2,3) fo faithful_op_cong [OF op] by auto
  then show ?thesis using linked_input_handed [OF l hk wd a(1) reg nm] by auto
qed

text \<open>What an operator below the root hands out is written by its item.\<close>

lemma handed_written:
  assumes ex: "executable h root" and l: "linked h s" "[] \<notin> out_names (rheap s) b"
    and b: "b < root" "\<not> is_fetch (data_at h b)" "n \<in> handed h (rheap s) b"
    and x: "to_api (data_at (rheap s) b) = Some x"
  shows "\<exists>z. payload x = Some z \<and> n \<in> colname ` set (item_writes (snd z))"
proof -
  have bh: "b < length h" using ex b(1) by (simp add: executable_def)
  have hk: "heap_ok h" and fo: "faithful_op (data_at h b)" and "is_select (data_at h b) \<longrightarrow> b = root"
    using ex bh by (simp_all add: executable_def mats_wired_def)
  then have ns: "\<not> is_select (data_at h b)" using b(1) by auto
  have sh: "same_shape h (rheap s)" using l(1) by (simp add: linked_def)
  then have op: "opInfo (data_at (rheap s) b) = opInfo (data_at h b)" using bh by (auto simp: same_shape_def)
  have "op_ok (opInfo (data_at h b)) (inputColumns (data_at h b)) (outputCols (data_at h b))"
    using hk bh by (simp add: heap_ok_def ir_ok_def)
  then have ok: "op_ok (opInfo (data_at (rheap s) b)) (inputColumns (data_at (rheap s) b)) (outputCols (data_at (rheap s) b))"
    using sh bh b(2) ns op op_ok_lengths by (simp add: same_shape_def outs_def is_fetch_def is_select_def)
  have no: "n \<in> out_names (rheap s) b" using b(2,3) by (simp add: handed_def)
  then have "n \<noteq> []" using l(2) by metis
  with no obtain c where "c \<in> set (outputCols (data_at (rheap s) b))" "n = columnName c" "columnName c \<noteq> []"
    by (auto simp: out_names_def outs_def)
  then show ?thesis
    using item_writes_outputs [OF x ok] fo faithful_op_cong [OF op] b(2) ns op by (auto simp: is_fetch_def is_select_def)
qed

text \<open>What a node of the sequence reads is a base column or written by a node before it.\<close>

definition described_reads :: "string set \<Rightarrow> (nat \<Rightarrow> ApiData) \<Rightarrow> nat list \<Rightarrow> bool" where
  "described_reads B f L \<longleftrightarrow> (\<forall>k < length L. \<forall>y n. payload (f (L ! k)) = Some y \<longrightarrow>
     n \<in> colname ` set (item_reads (snd y)) \<longrightarrow> n \<in> B \<or>
       (\<exists>l < k. \<exists>z. payload (f (L ! l)) = Some z \<and> n \<in> colname ` set (item_writes (snd z))))"

text \<open>The back half on a plan that needs no further rewiring.\<close>

lemma graph_tail:
  assumes ex: "executable h root"
  obtains h2 A L where "uniqueColNames h root = Some h2" "irToApiData h2 root = Some A"
    "to_sequence_children_list (aheap A) root = Some L" "described_reads (base_names h) (api A) L"
proof -
  have hk: "heap_ok h" and root: "root < length h" and ren: "renamable h" "fetch_leaves h"
    using ex by (auto simp: executable_def mats_wired_def)
  from uniqueColNames_linked [OF ren root] obtain s where s: "uniqueColNames h root = Some (rheap s)" "linked h s"
    "\<And>a. reach h root a \<Longrightarrow> available h s a" "\<And>a. a \<in> dom (registered s) \<Longrightarrow> [] \<notin> out_names (rheap s) a" by blast
  let ?g = "rheap s" and ?A = "converted (rheap s) (live (rheap s) root)"
  have sh: "same_shape h ?g" using s(2) by (simp add: linked_def)
  have rg: "root < length ?g" using sh root by (simp add: same_shape_def)
  have ds: "describable ?g" by (rule renamed_describable [OF hk sh])
  from described_sequence [OF ds rg] obtain L where L: "irToApiData ?g root = Some ?A"
    "to_sequence_children_list (aheap ?A) root = Some L"
    "\<And>a. a \<in> set L \<Longrightarrow> a \<le> root \<and> reach ?g root a \<and> to_api (data_at ?g a) = Some (api ?A a)"
    "\<And>k b. k < length L \<Longrightarrow> b \<in> set (children_at ?g (L ! k)) \<Longrightarrow> \<not> is_fetch (data_at ?g b) \<Longrightarrow> \<exists>l < k. L ! l = b"
    by blast
  have av: "available h s a" if "a \<in> set L" for a
  proof (rule s(3) [OF reach_agree1 [of ?g]])
    show "reach ?g root a" using L(3) [OF that] by blast
    show "children_at h y = children_at ?g y" if "reach ?g root y" for y
      using reach_bound [OF that] ds rg sh by (auto simp: describable_def same_shape_def)
  qed
  have main: "n \<in> base_names h \<or> (\<exists>l < k. \<exists>z. payload (api ?A (L ! l)) = Some z \<and> n \<in> colname ` set (item_writes (snd z)))"
    if k: "k < length L" "payload (api ?A (L ! k)) = Some y" "n \<in> colname ` set (item_reads (snd y))" for k y n
  proof -
    have aL: "L ! k \<in> set L" using k(1) by simp
    then have a: "L ! k \<le> root" "L ! k < length h" using L(3) root by force+
    obtain b where b: "b \<in> set (children_at h (L ! k))" "n \<in> handed h ?g b"
      using read_handed [OF ex s(2) a(2) av [OF aL] _ k(2,3)] L(3) [OF aL] by blast
    have bl: "b < L ! k" using hk a(2) b(1) by (auto simp: heap_ok_def)
    then have bh: "b < root" "b < length h" using a by simp_all
    show ?thesis
    proof (cases "is_fetch (data_at h b)")
      case True
      then show ?thesis using b(2) bh(2) by (auto simp: handed_def base_names_def)
    next
      case False
      obtain l where l: "l < k" "L ! l = b"
        using L(4) [OF k(1), of b] b(1) False sh a(2) bh(2) by (auto simp: same_shape_def is_fetch_def)
      then have bL: "b \<in> set L" using k(1) nth_mem [of l L] by simp
      have "b \<in> dom (registered s)" using av [OF bL] False by (simp add: available_def)
      then obtain z where "payload (api ?A b) = Some z" "n \<in> colname ` set (item_writes (snd z))"
        using handed_written [OF ex s(2) s(4) bh(1) False b(2)] L(3) [OF bL] by blast
      then show ?thesis using l by blast
    qed
  qed
  then have "described_reads (base_names h) (api ?A) L"
    unfolding described_reads_def by (intro allI impI) (rule main; assumption)
  then show ?thesis by (rule that [OF s(1) L(1,2)])
qed

text \<open>Rewiring to grandchildren keeps a plan executable.\<close>

lemma shortcut_inputs:
  assumes "mats_wired h" "named_inputs h" "a < length h" "c \<in> set (inputColumns (data_at (shortcuts h D) a))"
  shows "col_key c \<noteq> ([], [])"
proof -
  have old: "col_key x \<noteq> ([], [])" if "x \<in> set (inputColumns (data_at h b))" "b < length h" for x b
    using assms(2) that by (simp add: named_inputs_def)
  have "shortcuts h D ! a = h ! a \<or> shortcuts h D ! a = the (shortcut h a)"
    using assms(3) by (cases "a \<in> D") (simp_all add: heap_simps)
  then consider "shortcuts h D ! a = h ! a" | "shortcuts h D ! a = the (shortcut h a)" "shortcut h a \<noteq> Some (h ! a)"
    using shortcut_some [OF assms(1,3)] by fastforce
  then show ?thesis
  proof cases
    case 1
    then show ?thesis using assms(3,4) old by (simp add: data_at_def)
  next
    case 2
    then obtain f idx flt idx2 flt2 b c2 ff where s: "inputColumns (data_at h a) = [idx, flt]"
      "inputColumns (data_at h f) = [idx2, flt2]" "column_eq c2 idx" "f < a"
      "shortcut h a = Some ((h ! a)\<lparr>cdata := (data_at h a)\<lparr>inputColumns := [c2, flt2]\<rparr>, cchildren := [b, ff]\<rparr>)"
      using shortcut_cases [OF assms(1,3)] by metis
    then have "c = c2 \<or> c = flt2" using 2(1) assms(4) by (simp add: data_at_def)
    moreover have "col_key c2 = col_key idx" by (rule column_eq_key [OF s(3)])
    ultimately show ?thesis using old [of idx a] old [of flt2 f] s assms(3) by auto
  qed
qed

lemma grand_executable:
  assumes "executable h root" "grandChildrenOptimization h root = Some h1"
  shows "executable h1 root \<and> base_names h1 = base_names h"
proof -
  have ex: "mats_wired h" "root < length h" "renamable h" "fetch_leaves h" "named_inputs h"
    "\<And>a. a < length h \<Longrightarrow> faithful_op (data_at h a)" "\<And>a. a < length h \<Longrightarrow> is_select (data_at h a) \<Longrightarrow> a = root"
    using assms(1) by (auto simp: executable_def)
  let ?D = "{a. reach h root a}"
  have h1: "h1 = shortcuts h ?D" using simultaneous [OF ex(1,2)] assms(2) by simp
  have w: "mats_wired h1" using shortcuts_mats_wired [OF ex(1)] by (simp add: h1)
  have so: "same_outputs (data_at h a) (data_at h1 a)" if "a < length h" for a
    using shortcuts_frame(1) [OF ex(1) that] by (simp add: h1)
  have len: "length h1 = length h" by (simp add: h1 heap_simps)
  have keep: "h1 ! a = h ! a" if "a < length h" "is_fetch (data_at h a)" for a
    using shortcuts_frame(2) [OF ex(1) that(1)] that(2)
    by (cases "opInfo (data_at h a)") (simp_all add: h1 mat_data_node_def is_mat_def is_fetch_def)
  have fe: "is_fetch (data_at h1 a) = is_fetch (data_at h a)" "out_names h1 a = out_names h a"
    "is_select (data_at h1 a) = is_select (data_at h a)" "faithful_op (data_at h1 a) = faithful_op (data_at h a)"
    "outs h1 a = outs h a" if "a < length h" for a
    using so [OF that] by (simp_all add: same_outputs_def is_fetch_def is_select_def faithful_op_def out_names_def outs_def)
  have cnt: "out_count h1 {..<length h1} = out_count h {..<length h}"
    unfolding out_count_def len by (rule sum.cong) (simp_all add: fe)
  have "renamable h1"
    using ex(3) w keep fe(1) unfolding renamable_def cnt
    by (auto simp: mats_wired_def heap_ok_acyclic len data_at_def)
  moreover have "fetch_leaves h1"
    using ex(4) keep fe(1) by (auto simp: fetch_leaves_def len children_at_def)
  moreover have "named_inputs h1"
    using shortcut_inputs [OF ex(1,5)] len by (auto simp: named_inputs_def h1)
  ultimately have "executable h1 root"
    using ex w fe by (auto simp: executable_def len)
  moreover have "base_names h1 = base_names h"
    unfolding base_names_def using fe len by auto
  ultimately show ?thesis ..
qed

lemma grand_runs: "mats_wired h \<Longrightarrow> root < length h \<Longrightarrow> \<exists>h1. grandChildrenOptimization h root = Some h1"
  using simultaneous by blast

lemma pipeline_reads:
  assumes "executable h root"
  obtains A L where "graph_passes cfg h root = Some (L, A)" "described_reads (base_names h) (api A) L"
proof -
  obtain hg where g: "grandChildrenOptimization h root = Some hg"
    using assms grand_runs unfolding executable_def by blast
  define h1 where "h1 = (if cfg_grandChildOpt cfg then hg else h)"
  have h1: "(if cfg_grandChildOpt cfg then grandChildrenOptimization h root else Some h) = Some h1"
    "executable h1 root" "base_names h1 = base_names h"
    using assms g grand_executable [OF assms g] by (simp_all add: h1_def)
  from graph_tail [OF h1(2)] obtain h2 A L where "uniqueColNames h1 root = Some h2" "irToApiData h2 root = Some A"
    "to_sequence_children_list (aheap A) root = Some L" "described_reads (base_names h1) (api A) L" by blast
  then show ?thesis using that h1 by (simp add: graph_passes_def)
qed

text \<open>A list of items in which every column is written before it is read.\<close>

definition reads_written :: "string set \<Rightarrow> OpData list \<Rightarrow> bool" where
  "reads_written B xs \<longleftrightarrow> (\<forall>i < length xs. \<forall>n \<in> colname ` set (item_reads (xs ! i)).
     n \<in> B \<or> (\<exists>j < i. n \<in> colname ` set (item_writes (xs ! j))))"

lemma described_reads_written:
  assumes "described_reads B f L"
  shows "reads_written B (map snd (List.map_filter (payload \<circ> f) L))"
proof -
  let ?P = "List.map_filter (payload \<circ> f) L"
  have "n \<in> B \<or> (\<exists>j < i. n \<in> colname ` set (item_writes (map snd ?P ! j)))"
    if i: "i < length ?P" and n: "n \<in> colname ` set (item_reads (snd (?P ! i)))" for i n
  proof -
    obtain k where k: "k < length L" "payload (f (L ! k)) = Some (?P ! i)"
      "\<forall>l < k. \<forall>z. payload (f (L ! l)) = Some z \<longrightarrow> (\<exists>j < i. ?P ! j = z)"
      using map_filter_before [OF i] by auto
    from assms k(1,2) n consider "n \<in> B"
      | l z where "l < k" "payload (f (L ! l)) = Some z" "n \<in> colname ` set (item_writes (snd z))"
      unfolding described_reads_def by blast
    then show ?thesis
    proof cases
      case 2
      then obtain j where "j < i" "?P ! j = z" using k(3) by blast
      then show ?thesis using i 2(3) by (intro disjI2 exI [of _ j]) simp
    qed simp
  qed
  then show ?thesis by (simp add: reads_written_def)
qed

lemma map_filter_map: "List.map_filter f (map g L) = List.map_filter (f \<circ> g) L"
  by (induction L) (simp_all split: option.split)

lemma item_data: "map opData (fst (createWorkItems xs pid g)) = map snd (List.map_filter payload xs)"
proof -
  have "map opData (fst (createWorkItems xs pid g)) = map snd (map (\<lambda>w. (operatorId w, opData w)) (fst (createWorkItems xs pid g)))"
    by simp
  then show ?thesis by (simp only: createWorkItems_def build_items_spec numbered_items_payload)
qed

text \<open>The work items of an executable plan can be run in the order they are created.\<close>

lemma executable_items:
  assumes "executable h root"
  shows "\<exists>f. work_items cfg h root pid = Some f \<and> (\<forall>g. reads_written (base_names h) (map opData (fst (f g))))"
proof -
  obtain A L where L: "graph_passes cfg h root = Some (L, A)" "described_reads (base_names h) (api A) L"
    using pipeline_reads [OF assms] by blast
  then show ?thesis
    using described_reads_written [OF L(2)] by (simp add: work_items_def item_data map_filter_map)
qed

end
