(* ===== verification/Runnable.thy ===== *)
theory Runnable
  imports Pipeline
begin

text \<open>
  From a plan tree to an executable graph: which plan trees the three materialization passes turn into
  a graph that the rest of the pipeline can execute, and which of the passes over the tree keep a plan
  one of these. Together with the safety of the work items this makes the pipeline correct from the
  tree on, with one hypothesis left that the program reports itself, that no column is missing.
\<close>

section \<open>Good cells\<close>

definition keyed :: "TableColumn \<Rightarrow> bool" where
  "keyed c \<longleftrightarrow> col_key c \<noteq> ([], [])"

text \<open>\<open>M\<close> is the set of the names that the fetch nodes may have.\<close>

definition good_data :: "string set \<Rightarrow> IrData \<Rightarrow> bool" where
  "good_data M d \<longleftrightarrow> faithful_op d \<and> (\<forall>c \<in> set (inputColumns d) \<union> set (outputCols d). keyed c) \<and>
     (is_fetch d \<longrightarrow> columnName ` (set (inputColumns d) \<union> set (outputCols d)) \<subseteq> M)"

definition good_cell :: "string set \<Rightarrow> cell \<Rightarrow> bool" where
  "good_cell M c \<longleftrightarrow> good_data M (cdata c) \<and> \<not> is_select (cdata c) \<and> (is_fetch (cdata c) \<longrightarrow> cchildren c = [])"

definition good_heap :: "string set \<Rightarrow> heap \<Rightarrow> bool" where
  "good_heap M h \<longleftrightarrow> (\<forall>c \<in> set h. good_cell M c)"

definition wanted :: "string set \<Rightarrow> TableColumn list \<Rightarrow> bool" where
  "wanted M cs \<longleftrightarrow> (\<forall>c \<in> set cs. keyed c \<and> columnName c \<in> M)"

fun part_good :: "string set \<Rightarrow> plan \<Rightarrow> bool" where
  "part_good M (Plan d cs) \<longleftrightarrow> ir_ok d \<and> \<not> is_mat d \<and> good_data M d \<and> wanted M (inputColumns d) \<and> \<not> is_select d \<and>
     (is_fetch d \<longrightarrow> cs = []) \<and> (\<forall>c \<in> set cs. part_good M c)"

definition plan_good :: "string set \<Rightarrow> plan \<Rightarrow> bool" where
  "plan_good M p \<longleftrightarrow> ir_ok (irData p) \<and> \<not> is_mat (irData p) \<and> good_data M (irData p) \<and> wanted M (inputColumns (irData p)) \<and>
     (is_fetch (irData p) \<longrightarrow> children p = []) \<and> (\<forall>c \<in> set (children p). part_good M c)"

lemma part_good_in: "part_good M p \<Longrightarrow> plan_in p"
  by (induction p rule: part_good.induct) auto

lemma plan_good_in: "plan_good M p \<Longrightarrow> plan_in p"
  by (cases p) (auto simp: plan_good_def part_good_in)

lemma good_heap_simps [simp]:
  "good_heap M []" "good_heap M (c # h) \<longleftrightarrow> good_cell M c \<and> good_heap M h"
  "good_heap M (h @ g) \<longleftrightarrow> good_heap M h \<and> good_heap M g"
  by (auto simp: good_heap_def)

lemma good_output:
  "good_heap M h \<Longrightarrow> a < length h \<Longrightarrow> c \<in> set (outputCols (data_at h a)) \<Longrightarrow> keyed c"
  using nth_mem by (fastforce simp: good_heap_def good_cell_def good_data_def data_at_def)

lemma fetch_cell_good: "keyed c \<Longrightarrow> columnName c \<in> M \<Longrightarrow> good_cell M (fetch_cell c)"
  by (simp add: good_cell_def good_data_def fetch_cell_def fetch_create_def faithful_op_def is_select_def)

lemma mat_cell_good: "keyed idx \<Longrightarrow> keyed flt \<Longrightarrow> keyed out \<Longrightarrow> good_cell M (mat_cell idx flt out pos s b)"
  by (simp add: good_cell_def good_data_def mat_cell_def mat_create_def faithful_op_def is_select_def is_fetch_def)

lemma wanted_insert: "wanted M cs \<Longrightarrow> wanted M N \<Longrightarrow> wanted M (columns_insert (column_set cs) N)"
  using column_set_subset [of cs] insert_all_by_subset [of col_key "column_set cs" N]
  by (fastforce simp: wanted_def columns_insert_def)

lemma wanted_set: "wanted M cs \<Longrightarrow> wanted M (column_set cs)"
  using column_set_subset [of cs] by (auto simp: wanted_def)

lemma at_mem: "at xs i = Some x \<Longrightarrow> x \<in> set xs"
  by (auto simp: at_def split: if_splits)

section \<open>Early materialization\<close>

lemma materialize_columns_good:
  "materialize_columns child T cs m h = Some (m', h') \<Longrightarrow> good_heap M h \<Longrightarrow> wanted M cs \<Longrightarrow> child < length h \<Longrightarrow> good_heap M h'"
proof (induction cs arbitrary: m h)
  case (Cons c cs)
  show ?case
  proof (cases "ctable c \<in> T")
    case True
    obtain s h1 where p: "(case m (col_key c) of Some a \<Rightarrow> (a, h) | None \<Rightarrow> alloc (fetch_cell c) h) = (s, h1)" by fastforce
    from Cons.prems(1) True p obtain idx flt where f: "at (outputCols (data_at h child)) idx = Some flt"
      and r: "materialize_columns child T cs (m(col_key c \<mapsto> length h1)) (h1 @ [mat_cell c flt c False s child]) = Some (m', h')"
      by (auto simp: option_bind_eq_Some alloc_def Let_def)
    have c: "keyed c" "columnName c \<in> M" using Cons.prems(3) by (simp_all add: wanted_def)
    have h1: "good_heap M h1" "child < length h1"
      using p Cons.prems(2,4) fetch_cell_good [OF c] by (auto simp: alloc_def split: option.splits)
    have "keyed flt" using good_output [OF Cons.prems(2,4) at_mem [OF f]] .
    then show ?thesis
      using Cons.IH [OF r] h1 mat_cell_good c Cons.prems(3) by (simp add: wanted_def)
  qed (use Cons in \<open>simp add: wanted_def\<close>)
qed simp

lemma set_column_name_good:
  assumes "leaf_ok d" "good_data M d" "tname (ctable c) = tname (input_table d)" "keyed c" "columnName c \<in> M"
  shows "good_data M (set_column_name (columnName c) d)"
proof -
  obtain x where x: "inputColumns d = [x]" "outputCols d = [x]" using assms(1) ir_ok_fetch by (auto simp: leaf_ok_def)
  then show ?thesis
    using assms by (simp add: good_data_def set_column_name_def faithful_op_def keyed_def col_key_def input_table_def)
qed

lemma leaf_not_select: "leaf_ok d \<Longrightarrow> \<not> is_select d"
  by (auto simp: leaf_ok_def is_fetch_def is_select_def is_OpFetch_def)

lemma leaf_cell_good: "leaf_ok d \<Longrightarrow> good_data M d \<Longrightarrow> good_cell M \<lparr>cdata = d, cchildren = []\<rparr>"
  by (simp add: good_cell_def leaf_not_select)

lemma copy_base_good:
  "copy_base ps [] d m h = (d', m', h') \<Longrightarrow> good_heap M h \<Longrightarrow> leaf_ok d \<Longrightarrow> good_data M d \<Longrightarrow> wanted M ps \<Longrightarrow>
   good_heap M h' \<and> leaf_ok d' \<and> good_data M d'"
proof (induction ps arbitrary: d m h)
  case (Cons c ps)
  show ?case
  proof (cases "tname (ctable c) = tname (input_table d)")
    case True
    let ?d = "set_column_name (columnName c) d"
    have d: "leaf_ok ?d" "good_data M ?d"
      using set_column_name_leaf [OF Cons.prems(3)] set_column_name_good [OF Cons.prems(3,4) True] Cons.prems(5)
      by (simp_all add: wanted_def)
    have "copy_base ps [] ?d (m(col_key c \<mapsto> length h)) (h @ [\<lparr>cdata = ?d, cchildren = []\<rparr>]) = (d', m', h')"
      using Cons.prems(1) True by (simp add: alloc_def Let_def)
    then show ?thesis
      by (rule Cons.IH) (use Cons.prems d leaf_cell_good in \<open>simp_all add: wanted_def\<close>)
  qed (use Cons in \<open>simp add: wanted_def\<close>)
qed simp

text \<open>The end of a call adds the node itself last; before it there are only good cells.\<close>

lemma finish_node_good:
  assumes fin: "finish_node d par ch T m h = (a, T', m', miss, h')" and h: "good_heap M h"
    and d: "ir_ok d" "good_data M d" "is_fetch d \<longrightarrow> ch = []" and par: "wanted M par"
  shows "\<exists>h1 as e. h' = h1 @ [\<lparr>cdata = e, cchildren = as\<rparr>] \<and> good_heap M h1 \<and> good_data M e \<and> opInfo e = opInfo d \<and>
    (is_fetch e \<longrightarrow> as = []) \<and> a = length h1"
proof -
  consider (base) "is_fetch d" "base_fetch d" | (fetch) "is_fetch d" "\<not> base_fetch d" | (op) "\<not> is_fetch d" by blast
  then show ?thesis
  proof cases
    case base
    obtain d1 m1 h1 where c: "copy_base par ch d m h = (d1, m1, h1)" by (metis prod_cases3)
    have leaf: "leaf_ok d" using base d by (simp add: leaf_ok_def)
    have "h' = h1 @ [\<lparr>cdata = d1, cchildren = ch\<rparr>]" "a = length h1" using fin base c by (auto simp: finish_node_def alloc_def)
    moreover have "good_heap M h1" "good_data M d1"
      using copy_base_good [OF _ h leaf d(2) par] c base(1) d(3) by blast+
    moreover have "opInfo d1 = opInfo d" using c
    proof (induction par arbitrary: d m h)
      case (Cons x par)
      then show ?case by (auto simp: Let_def alloc_def split: if_splits)
    qed simp
    ultimately show ?thesis using base(1) d(3) by blast
  next
    case fetch
    then show ?thesis using fin h d by (auto simp: finish_node_def alloc_def)
  next
    case op
    then show ?thesis using fin h d by (auto simp: finish_node_def alloc_def)
  qed
qed

lemma finish_node_good_cell:
  assumes "finish_node d par ch T m h = (a, T', m', miss, h')" "good_heap M h"
    and "ir_ok d" "good_data M d" "is_fetch d \<longrightarrow> ch = []" "wanted M par" "\<not> is_select d"
  shows "good_heap M h'"
proof -
  obtain h1 as e where e: "h' = h1 @ [\<lparr>cdata = e, cchildren = as\<rparr>]" "good_heap M h1" "good_data M e" "opInfo e = opInfo d"
    "is_fetch e \<longrightarrow> as = []"
    using finish_node_good [OF assms(1-6)] by blast
  then have "\<not> is_select e" using assms(7) by (simp add: is_select_def)
  then show ?thesis using e by (simp add: good_cell_def)
qed

lemma fill_split:
  assumes "fill (Plan d cs) N par h = Some (a, T, m, miss, h')"
  obtains ch T1 m1 miss1 h1 miss2 where
    "fill_children cs (columns_insert (column_set (inputColumns d)) N) (column_set (inputColumns d)) {} Map.empty h =
      Some (ch, T1, m1, miss1, h1)"
    "finish_node d par ch T1 m1 h1 = (a, T, m, miss2, h')"
proof -
  let ?own = "column_set (inputColumns d)"
  from assms obtain r where "fill_children cs (columns_insert ?own N) ?own {} Map.empty h = Some r"
    by (auto simp: Let_def option_bind_eq_Some)
  then obtain ch T1 m1 miss1 h1 where
    c: "fill_children cs (columns_insert ?own N) ?own {} Map.empty h = Some (ch, T1, m1, miss1, h1)"
    by (metis prod_cases5)
  obtain a2 T2 m2 miss2 h2 where f: "finish_node d par ch T1 m1 h1 = (a2, T2, m2, miss2, h2)"
    by (metis prod_cases5)
  have "finish_node d par ch T1 m1 h1 = (a, T, m, miss2, h')" using assms f by (simp add: c)
  with c show thesis by (rule that)
qed

lemma fill_good:
  "fill p N par h = Some (a, T, m, miss, h') \<Longrightarrow> part_good M p \<Longrightarrow> heap_ok h \<Longrightarrow> good_heap M h \<Longrightarrow> wanted M N \<Longrightarrow>
   wanted M par \<Longrightarrow> good_heap M h'"
  "fill_children cs N this Ts ms h = Some (as, T', m', miss', h'') \<Longrightarrow> \<forall>c \<in> set cs. part_good M c \<Longrightarrow>
   heap_ok h \<Longrightarrow> mat_inv h h ms \<Longrightarrow> good_heap M h \<Longrightarrow> wanted M N \<Longrightarrow> wanted M this \<Longrightarrow> good_heap M h''"
proof (induction p N par h and cs N this Ts ms h arbitrary: a T m miss h' and as T' m' miss' h''
    rule: fill_fill_children.induct)
  case (1 d cs N par h)
  let ?own = "column_set (inputColumns d)"
  from "1.prems"(1) obtain ch T1 m1 miss1 h1 miss2 where
    c: "fill_children cs (columns_insert ?own N) ?own {} Map.empty h = Some (ch, T1, m1, miss1, h1)"
    and f: "finish_node d par ch T1 m1 h1 = (a, T, m, miss2, h')" by (rule fill_split)
  have own: "wanted M (inputColumns d)" and below: "\<forall>c \<in> set cs. part_good M c" using "1.prems"(2) by auto
  have "mat_inv h h Map.empty" using "1.prems"(3) by (simp add: mat_inv_def)
  with "1.IH" [OF refl refl c below "1.prems"(3)] have "good_heap M h1"
    using "1.prems"(4,5) wanted_insert [OF own] wanted_set [OF own] by blast
  moreover have "is_fetch d \<longrightarrow> ch = []" using "1.prems"(2) c by auto
  ultimately show ?case
    using finish_node_good_cell [OF f] "1.prems"(2,6) by simp
next
  case (2 N this Ts ms h)
  then show ?case by simp
next
  case (3 c cs N this Ts ms h)
  from "3.prems"(1) obtain a Tc mc miss1 h1 m2 h2 m3 as2 miss2 where
    c: "fill c N this h = Some (a, Tc, mc, miss1, h1)"
    and m: "(if outputsPosList (data_at h1 a) then materialize_columns a Tc N (mc ++ ms) h1
        else Some (mc ++ ms, h1)) = Some (m2, h2)"
    and r: "register_values (data_at h1 a) a m2 = Some m3"
    and cs: "fill_children cs N this (Ts \<union> Tc) m3 h2 = Some (as2, T', m', miss2, h'')"
    by (auto simp: Let_def option_bind_eq_Some)
  have one: "mat_inv h h1 mc" "a < length h1"
    using fill_inv(1) [OF c] part_good_in "3.prems"(2,3) by auto
  have "mat_inv h h2 m3" using child_step [OF "3.prems"(4) one _ m r, of False] by simp
  then have st: "heap_ok h2" "mat_inv h2 h2 m3" by (auto simp: mat_inv_def)
  have "good_heap M h1" using "3.IH"(1) [OF c] "3.prems" by simp
  then have "good_heap M h2"
    using m materialize_columns_good [OF _ _ "3.prems"(6) one(2)] by (auto split: if_splits)
  then show ?case
    using "3.IH"(2) [OF c refl refl refl refl refl m refl r cs] "3.prems" st by simp
qed

text \<open>A graph whose last cell, the only one that may be the selection, is its root.\<close>

definition good_graph :: "string set \<Rightarrow> heap \<Rightarrow> nat \<Rightarrow> bool" where
  "good_graph M h root \<longleftrightarrow> (\<exists>h1 e as. h = h1 @ [\<lparr>cdata = e, cchildren = as\<rparr>] \<and> good_heap M h1 \<and> good_data M e \<and>
     (is_fetch e \<longrightarrow> as = []) \<and> root = length h1)"

lemma fillMaterializes_good:
  assumes "fillMaterializes p = Some (root, miss, h)" "plan_good M p"
  shows "good_graph M h root"
proof -
  obtain d cs where p: "p = Plan d cs" by (cases p)
  let ?own = "column_set (inputColumns d)"
  obtain T m where "fill (Plan d cs) [] [] [] = Some (root, T, m, miss, h)"
    using assms(1) p by (auto simp: fillMaterializes_def)
  then obtain ch T1 m1 miss1 h1 miss2 where
    c: "fill_children cs (columns_insert ?own []) ?own {} Map.empty [] = Some (ch, T1, m1, miss1, h1)"
    and f: "finish_node d [] ch T1 m1 h1 = (root, T, m, miss2, h)" by (rule fill_split)
  have r: "ir_ok d" "good_data M d" "wanted M (inputColumns d)" "is_fetch d \<longrightarrow> cs = []" "\<forall>c \<in> set cs. part_good M c"
    using assms(2) p by (simp_all add: plan_good_def)
  have start: "heap_ok []" "mat_inv [] [] Map.empty" "good_heap M []" and none: "wanted M []"
    by (simp_all add: mat_inv_def heap_ok_def wanted_def)
  have "good_heap M h1"
    by (rule fill_good(2) [OF c r(5) start wanted_insert [OF r(3) none] wanted_set [OF r(3)]])
  moreover have "is_fetch d \<longrightarrow> ch = []" using r(4) c by auto
  ultimately obtain h2 as e where e: "h = h2 @ [\<lparr>cdata = e, cchildren = as\<rparr>]" "good_heap M h2" "good_data M e"
    "is_fetch e \<longrightarrow> as = []" "root = length h2"
    using finish_node_good [OF f _ r(1,2) _ none] by blast
  then show ?thesis unfolding good_graph_def by blast
qed

section \<open>Late materialization\<close>

lemma late_column_good:
  assumes run: "late_column keep child T pPos prevMat c s = Some s'" and h: "good_heap M (lheap s)" "keyed c"
    and ch: "child < length (lheap s)" and pr: "poss.reg_ok (lheap s) (look pPos)"
  shows "good_heap M (lheap s')"
proof -
  have flt: "keyed f" if "filter_column (lheap s) c child = Some f" for f
    using good_output [OF h(1) ch filter_column_in [OF that]] .
  have pc: "keyed pc" if "look pPos t = Some prev" "column_of_table (data_at (lheap s) prev) t = Some pc" for t prev pc
    using good_output [OF h(1) poss.reg_bound [OF pr that(1)] column_of_table_in [OF that(2)]] .
  show ?thesis
    using run h flt pc
    by (auto simp: late_column_def late_alloc_def option_bind_eq_Some set_mat_def set_pos_def mat_cell_good
        split: option.splits bool.splits if_splits)
qed

lemma late_columns_good:
  assumes "late_columns keep child T pPos prevMat cs s = Some s'" "late_inv h0 n w s"
    and "child < length (lheap s)" "outputsPosList (data_at (lheap s) child)"
    and "cols.reg_ok (lheap s) (look prevMat)" "poss.reg_ok (lheap s) (look pPos)"
    and "good_heap M (lheap s)" "wanted M cs"
  shows "good_heap M (lheap s')"
  using assms
proof (induction cs arbitrary: s)
  case (Cons c cs)
  from Cons.prems(1) obtain s1 where s1: "late_column (keep c) child T pPos prevMat c s = Some s1"
    "late_columns keep child T pPos prevMat cs s1 = Some s'" by (auto simp: option_bind_eq_Some)
  have i: "late_inv h0 n w s1" "extends (lheap s) (lheap s1)"
    using late_column_inv [OF s1(1) Cons.prems(2-6)] by auto
  have "child < length (lheap s1)" "outputsPosList (data_at (lheap s1) child)"
    using i(2) Cons.prems(3,4) extends_length extends_at by fastforce+
  moreover have "good_heap M (lheap s1)"
    using late_column_good [OF s1(1) Cons.prems(7) _ Cons.prems(3,6)] Cons.prems(8) by (simp add: wanted_def)
  ultimately show ?case
    using Cons.IH [OF s1(2) i(1)] Cons.prems(5,6,8) cols.reg_extends [OF _ i(2)] poss.reg_extends [OF _ i(2)]
    by (simp add: wanted_def)
qed simp

lemma late_rewire_good:
  "late_rewire ins s = Some (as, ms, s') \<Longrightarrow> \<forall>t p. look (curPos s) t = Some p \<longrightarrow> p < length (lheap s) \<Longrightarrow>
   good_heap M (lheap s) \<Longrightarrow> wanted M ins \<Longrightarrow> good_heap M (lheap s')"
proof (induction ins arbitrary: s as ms)
  case (Cons c ins)
  let ?s = "s\<lparr>curMat := touch (col_key c) (curMat s)\<rparr>"
  let ?s1 = "?s\<lparr>curPos := touch (ctable c) (curPos s)\<rparr>"
  have c: "keyed c" "columnName c \<in> M" "wanted M ins" using Cons.prems(4) by (simp_all add: wanted_def)
  consider (kept) a where "look (curMat s) (col_key c) = Some a"
    | (none) "look (curMat s) (col_key c) = None" "look (curPos s) (ctable c) = None"
    | (new) p where "look (curMat s) (col_key c) = None" "look (curPos s) (ctable c) = Some p" by fastforce
  then show ?case
  proof cases
    case kept
    with Cons.prems(1) obtain as1 where "late_rewire ins ?s = Some (as1, ms, s')"
      by (auto simp: Let_def option_bind_eq_Some)
    then show ?thesis by (rule Cons.IH) (use Cons.prems c in simp_all)
  next
    case none
    with Cons.prems(1) obtain ms1 where "late_rewire ins ?s1 = Some (as, ms1, s')"
      by (auto simp: Let_def option_bind_eq_Some)
    then show ?thesis by (rule Cons.IH) (use Cons.prems c in simp_all)
  next
    case new
    let ?h1 = "lheap s @ [fetch_cell c]"
    from new Cons.prems(1) obtain pc as1 where pc: "column_of_table (data_at (lheap s) p) (ctable c) = Some pc"
      and r: "late_rewire ins (set_mat c (length ?h1)
          (?s1\<lparr>lheap := ?h1 @ [mat_cell c pc c False (length (lheap s)) p]\<rparr>)) = Some (as1, ms, s')"
      by (auto simp: Let_def option_bind_eq_Some late_alloc_def heap_simps)
    have p: "p < length (lheap s)" using Cons.prems(2) new(2) by blast
    have "keyed pc" using good_output [OF Cons.prems(3) p column_of_table_in [OF pc]] .
    then have "good_heap M (?h1 @ [mat_cell c pc c False (length (lheap s)) p])"
      using Cons.prems(3) fetch_cell_good [OF c(1,2)] mat_cell_good c(1) by simp
    moreover have "\<forall>t p. look (curPos s) t = Some p \<longrightarrow> p < Suc (Suc (length (lheap s)))"
      using Cons.prems(2) by fastforce
    ultimately show ?thesis using Cons.IH [OF r] c by (simp add: set_mat_def)
  qed
qed simp

lemma name_base_good:
  "leaf_ok d \<Longrightarrow> good_data M d \<Longrightarrow> wanted M ps \<Longrightarrow> good_data M (name_base ps d) \<and> opInfo (name_base ps d) = opInfo d"
  by (induction ps arbitrary: d) (auto simp: set_column_name_leaf set_column_name_good wanted_def)

lemma late_finish_good:
  assumes fin: "late_finish d par ch T s = Some (a, T', miss, s')" and h: "good_heap M (lheap s)" and inv: "late_inv h0 n w s"
    and d: "ir_ok d" "good_data M d" "is_fetch d \<longrightarrow> ch = []" "wanted M (inputColumns d)" and par: "wanted M par"
  shows "\<exists>h1 as e. lheap s' = h1 @ [\<lparr>cdata = e, cchildren = as\<rparr>] \<and> good_heap M h1 \<and> good_data M e \<and> opInfo e = opInfo d \<and>
    (is_fetch e \<longrightarrow> as = []) \<and> a = length h1"
proof -
  consider (base) "is_fetch d" "base_fetch d" | (fetch) "is_fetch d" "\<not> base_fetch d" | (op) "\<not> is_fetch d" by blast
  then show ?thesis
  proof cases
    case base
    then have "leaf_ok d" using d(1) by (simp add: leaf_ok_def)
    from name_base_good [OF this d(2) par] show ?thesis using fin base h d(3) by (auto simp: late_finish_def late_alloc_def Let_def)
  next
    case fetch
    then show ?thesis using fin h d by (auto simp: late_finish_def late_alloc_def)
  next
    case op
    with fin obtain as s1 where r: "late_rewire (inputColumns d) s = Some (as, miss, s1)"
      and s': "lheap s' = lheap s1 @ [\<lparr>cdata = d, cchildren = as\<rparr>]" "a = length (lheap s1)"
      by (auto simp: late_finish_def option_bind_eq_Some late_alloc_def)
    have "\<forall>t p. look (curPos s) t = Some p \<longrightarrow> p < length (lheap s)"
      using poss.reg_bound [OF late_invD(4) [OF inv]] by blast
    then have "good_heap M (lheap s1)" by (rule late_rewire_good [OF r _ h d(4)])
    then show ?thesis using s' op d(2) by auto
  qed
qed

lemma late_split:
  assumes "late_node keep (Plan d cs) N par h = Some (a, T, miss, s')"
  obtains ch T1 miss1 s1 miss2 where
    "late_children keep cs (columns_insert (inputColumns d) N) (inputColumns d) {}
      \<lparr>curMat = Map.empty, curPos = Map.empty, lheap = h\<rparr> = Some (ch, T1, miss1, s1)"
    "late_finish d par ch T1 s1 = Some (a, T, miss2, s')"
  using assms by (auto simp: Let_def option_bind_eq_Some)

lemma late_start: "heap_ok h \<Longrightarrow> late_inv h (length h) True \<lparr>curMat = Map.empty, curPos = Map.empty, lheap = h\<rparr>"
  by (simp add: late_inv_def)

lemma wanted_columns: "wanted M cs \<Longrightarrow> wanted M N \<Longrightarrow> wanted M (columns_insert cs N)"
  using insert_all_by_subset [of col_key cs N] by (fastforce simp: wanted_def columns_insert_def)

lemma late_good:
  "late_node keep p N par h = Some (a, T, miss, s') \<Longrightarrow> part_good M p \<Longrightarrow> heap_ok h \<Longrightarrow> good_heap M h \<Longrightarrow> wanted M N \<Longrightarrow>
   wanted M par \<Longrightarrow> good_heap M (lheap s')"
  "late_children keep cs N this Ts s = Some (as, T', miss', s'') \<Longrightarrow> \<forall>c \<in> set cs. part_good M c \<Longrightarrow>
   late_inv h0 n w s \<Longrightarrow> good_heap M (lheap s) \<Longrightarrow> wanted M N \<Longrightarrow> wanted M this \<Longrightarrow> good_heap M (lheap s'')"
proof (induction keep p N par h and keep cs N this Ts s arbitrary: a T miss s' and as T' miss' s'' h0 n w
    rule: late_node_late_children.induct)
  case (1 keep d cs N par h)
  from "1.prems"(1) obtain ch T1 miss1 s1 miss2 where
    c: "late_children keep cs (columns_insert (inputColumns d) N) (inputColumns d) {}
      \<lparr>curMat = Map.empty, curPos = Map.empty, lheap = h\<rparr> = Some (ch, T1, miss1, s1)"
    and f: "late_finish d par ch T1 s1 = Some (a, T, miss2, s')" by (rule late_split)
  have own: "wanted M (inputColumns d)" and below: "\<forall>c \<in> set cs. part_good M c" using "1.prems"(2) by auto
  have d: "ir_ok d" "good_data M d" using "1.prems"(2) by simp_all
  have inp: "\<forall>c \<in> set cs. plan_in c" using below part_good_in by blast
  note i = late_inv(2) [OF c inp late_start [OF "1.prems"(3)]]
  have "good_heap M (lheap s1)"
    using "1.IH" [OF refl c below late_start [OF "1.prems"(3)]] "1.prems"(4,5) wanted_columns [OF own] own by simp
  moreover have "is_fetch d \<longrightarrow> ch = []" using "1.prems"(2) c by auto
  ultimately obtain h1 as e where e: "lheap s' = h1 @ [\<lparr>cdata = e, cchildren = as\<rparr>]" "good_heap M h1" "good_data M e"
    "opInfo e = opInfo d" "is_fetch e \<longrightarrow> as = []"
    using late_finish_good [OF f _ conjunct1 [OF i] d _ own "1.prems"(6)] by blast
  moreover have "\<not> is_select e" using "1.prems"(2) e(4) by (simp add: is_select_def)
  ultimately show ?case by (simp add: good_cell_def)
next
  case (2 keep N this Ts s)
  then show ?case by simp
next
  case (3 keep c cs N this Ts s)
  from "3.prems"(1) obtain a Tc miss1 r s2 s3 as2 miss2 where
    c: "late_node keep c N this (lheap s) = Some (a, Tc, miss1, r)"
    and m: "(if outputsPosList (data_at (lheap r) a)
        then late_columns (keep N) a Tc (curPos r) (curMat r) N (s\<lparr>lheap := lheap r\<rparr>)
        else Some (s\<lparr>lheap := lheap r, curPos := curPos r ++ curPos s\<rparr>)) = Some s2"
    and g: "late_register (data_at (lheap r) a) a s2 = Some s3"
    and cs: "late_children keep cs N this (Ts \<union> Tc) s3 = Some (as2, T', miss2, s'')"
    by (auto simp: Let_def option_bind_eq_Some)
  have hok: "heap_ok (lheap s)" using "3.prems"(3) by (rule late_invD)
  have one: "late_inv (lheap s) (length (lheap s)) (miss1 = []) r" "a < length (lheap r)"
    using late_inv(1) [OF c] "3.prems"(2) hok part_good_in by auto
  note st = late_child_step [OF "3.prems"(3) one m g]
  have r: "good_heap M (lheap r)" using "3.IH"(1) [OF c _ hok] "3.prems"(2,4-6) by simp
  have "good_heap M (lheap s2)"
  proof (cases "outputsPosList (data_at (lheap r) a)")
    case True
    have "late_inv h0 n False (s\<lparr>lheap := lheap r\<rparr>)"
      using late_invD [OF one(1)] late_invD [OF "3.prems"(3)] extends_trans cols.reg_extends poss.reg_extends
      by (simp add: late_inv_def)
    with True m show ?thesis
      using late_columns_good [of "keep N" a Tc "curPos r" "curMat r" N _ s2 h0 n False M] one r "3.prems"(5) late_invD(3,4) [OF one(1)]
      by simp
  next
    case False
    then show ?thesis using m r by auto
  qed
  moreover have "lheap s3 = lheap s2" using g by (auto simp: late_register_def set_mat_def split: if_splits option.splits)
  ultimately show ?case
    using "3.IH"(2) [OF c refl refl refl refl refl m g cs _ conjunct1 [OF st]] "3.prems"(2,5,6) by simp
qed

lemma late_graph:
  assumes "late_node keep p [] [] [] = Some (root, T, miss, s)" "plan_good M p"
  shows "good_graph M (lheap s) root"
proof -
  obtain d cs where p: "p = Plan d cs" by (cases p)
  from assms(1) [unfolded p] obtain ch T1 miss1 s1 miss2 where
    c: "late_children keep cs (columns_insert (inputColumns d) []) (inputColumns d) {}
      \<lparr>curMat = Map.empty, curPos = Map.empty, lheap = []\<rparr> = Some (ch, T1, miss1, s1)"
    and f: "late_finish d [] ch T1 s1 = Some (root, T, miss2, s)" by (rule late_split)
  have r: "ir_ok d" "good_data M d" "wanted M (inputColumns d)" "is_fetch d \<longrightarrow> cs = []" "\<forall>c \<in> set cs. part_good M c"
    using assms(2) p by (simp_all add: plan_good_def)
  have none: "heap_ok []" "wanted M []" by (simp_all add: heap_ok_def wanted_def)
  have inp: "\<forall>c \<in> set cs. plan_in c" using r(5) part_good_in by blast
  note i = late_inv(2) [OF c inp late_start [OF none(1)]]
  have "good_heap M (lheap s1)"
    by (rule late_good(2) [OF c r(5) late_start [OF none(1)] _ wanted_columns [OF r(3) none(2)] r(3)]) simp
  moreover have "is_fetch d \<longrightarrow> ch = []" using r(4) c by auto
  ultimately obtain h1 as e where "lheap s = h1 @ [\<lparr>cdata = e, cchildren = as\<rparr>]" "good_heap M h1" "good_data M e"
    "is_fetch e \<longrightarrow> as = []" "root = length h1"
    using late_finish_good [OF f _ conjunct1 [OF i] r(1,2) _ r(3) none(2)] by blast
  then show ?thesis unfolding good_graph_def by blast
qed

section \<open>The pipeline on a plan tree\<close>

lemma materialized_graph:
  assumes "materialize_pass cfg p = Some (root, miss, h)" "plan_good M p"
  shows "good_graph M h root \<and> heap_ok h \<and> root < length h \<and> (miss = [] \<longrightarrow> (\<forall>b < length h. wired h b))"
proof (cases "cfg_matType cfg")
  case FillMaterializes
  then show ?thesis
    using assms fillMaterializes_good fill_wired [OF _ plan_good_in [OF assms(2)]] by (simp add: materialize_pass_def)
next
  case PutLateMaterialization
  then have "putLateMaterializationV2 p = Some (root, miss, h)" using assms(1) by (simp add: materialize_pass_def)
  then show ?thesis
    using late_graph [OF _ assms(2)] late_wired [OF _ plan_good_in [OF assms(2)], of root miss h]
    by (fastforce simp: putLateMaterializationV2_def)
next
  case PutLateMaterializationsHybrid
  then have "putLateMaterializationHybrid p = Some (root, miss, h)" using assms(1) by (simp add: materialize_pass_def)
  then show ?thesis
    using late_graph [OF _ assms(2)] late_wired [OF _ plan_good_in [OF assms(2)], of root miss h]
    by (fastforce simp: putLateMaterializationHybrid_def)
qed

lemma good_graph_cell:
  assumes "good_graph M h root" "a < length h"
  shows "good_data M (data_at h a)" "is_fetch (data_at h a) \<Longrightarrow> children_at h a = []"
    "is_select (data_at h a) \<Longrightarrow> a = root"
proof -
  obtain h1 e as where h: "h = h1 @ [\<lparr>cdata = e, cchildren = as\<rparr>]" "good_heap M h1" "good_data M e"
    "is_fetch e \<longrightarrow> as = []" "root = length h1"
    using assms(1) by (auto simp: good_graph_def)
  have "good_cell M (h1 ! a)" if "a < length h1" using h(2) nth_mem [OF that] by (simp add: good_heap_def)
  then show "good_data M (data_at h a)" "is_fetch (data_at h a) \<Longrightarrow> children_at h a = []"
    "is_select (data_at h a) \<Longrightarrow> a = root"
    using h assms(2) by (auto simp: good_cell_def data_at_def children_at_def nth_append less_Suc_eq split: if_splits)
qed

section \<open>Runnable plans\<close>

text \<open>What a plan tree has to be: well-formed operators with items that are built from renamed columns,
  columns with a name or a table, fetch nodes as leaves, and a selection at the root at most.\<close>

definition op_good :: "IrData \<Rightarrow> bool" where
  "op_good d \<longleftrightarrow> ir_ok d \<and> \<not> is_mat d \<and> faithful_op d \<and> (\<forall>c \<in> set (inputColumns d) \<union> set (outputCols d). keyed c)"

fun runs_below :: "plan \<Rightarrow> bool" where
  "runs_below (Plan d cs) \<longleftrightarrow> op_good d \<and> \<not> is_select d \<and> (is_fetch d \<longrightarrow> cs = []) \<and> (\<forall>c \<in> set cs. runs_below c)"

definition runnable :: "plan \<Rightarrow> bool" where
  "runnable p \<longleftrightarrow> op_good (irData p) \<and> (is_fetch (irData p) \<longrightarrow> children p = []) \<and> (\<forall>c \<in> set (children p). runs_below c)"

text \<open>The names of the columns that the nodes of a plan read.\<close>

definition columns_read :: "plan \<Rightarrow> string set" where
  "columns_read p = (\<Union>d \<in> set (nodes p). columnName ` set (inputColumns d))"

lemma columns_read_node: "columns_read (Plan d cs) = columnName ` set (inputColumns d) \<union> (\<Union>c \<in> set cs. columns_read c)"
  by (auto simp: columns_read_def)

lemma op_good_data:
  assumes "op_good d" "columnName ` set (inputColumns d) \<subseteq> M"
  shows "good_data M d \<and> wanted M (inputColumns d)"
proof -
  have "outputCols d = inputColumns d" if "is_fetch d"
    using assms(1) ir_ok_fetch [OF _ that] by (auto simp: op_good_def)
  then show ?thesis using assms by (auto simp: op_good_def good_data_def wanted_def)
qed

lemma runs_below_good: "runs_below p \<Longrightarrow> columns_read p \<subseteq> M \<Longrightarrow> part_good M p"
proof (induction p rule: runs_below.induct)
  case (1 d cs)
  have "part_good M c" if "c \<in> set cs" for c
    using "1.IH" [OF that] "1.prems" that by (simp add: columns_read_node UN_subset_iff)
  moreover have "columnName ` set (inputColumns d) \<subseteq> M" using "1.prems"(2) by (simp add: columns_read_node)
  ultimately show ?case using op_good_data [of d M] "1.prems"(1) by (simp add: op_good_def)
qed

lemma runnable_good: "runnable p \<Longrightarrow> plan_good (columns_read p) p"
proof -
  assume r: "runnable p"
  obtain d cs where p: "p = Plan d cs" by (cases p)
  have "part_good (columns_read p) c" if "c \<in> set cs" for c
    using r that p by (intro runs_below_good) (auto simp: runnable_def columns_read_node)
  then show ?thesis
    using r p op_good_data [of d "columns_read p"] by (auto simp: runnable_def plan_good_def op_good_def columns_read_node)
qed

lemma materialized_executable:
  assumes "runnable p" "materialize_pass cfg p = Some (root, [], h)" "out_count h {..<length h} \<le> 2 ^ 32"
  shows "executable h root \<and> base_names h \<subseteq> columns_read p"
proof -
  let ?M = "columns_read p"
  have g: "good_graph ?M h root" "heap_ok h" "root < length h" "\<forall>b < length h. wired h b"
    using materialized_graph [OF assms(2) runnable_good [OF assms(1)]] by auto
  note cell = good_graph_cell [OF g(1)]
  have "acyclic_heap h" by (rule heap_ok_acyclic [OF g(2)])
  moreover have "inputColumns (data_at h a) \<noteq> []" if "a < length h" "is_fetch (data_at h a)" for a
    using ir_ok_fetch [OF _ that(2)] g(2) that(1) by (fastforce simp: heap_ok_def)
  moreover have "fetch_leaves h" using cell(2) by (simp add: fetch_leaves_def)
  moreover have "named_inputs h" using cell(1) by (fastforce simp: named_inputs_def good_data_def keyed_def)
  ultimately have "executable h root"
    using g assms(3) cell(1,3) by (auto simp: executable_def mats_wired_def renamable_def good_data_def)
  moreover have "base_names h \<subseteq> ?M" using cell(1) by (fastforce simp: base_names_def out_names_def outs_def good_data_def)
  ultimately show ?thesis ..
qed

section \<open>The passes over the tree\<close>

text \<open>Alias resolution gives a column another name only if that is the name of a result column.\<close>

definition named_results :: "names \<times> names \<Rightarrow> bool" where
  "named_results m \<longleftrightarrow> (\<forall>a n. fst m a = Some n \<longrightarrow> n \<noteq> [])"

lemma collect_aliases_named:
  "named_results m \<Longrightarrow> \<forall>c \<in> set cs. columnName c \<noteq> [] \<Longrightarrow> named_results (collect_aliases cs m)"
proof (induction cs m rule: collect_aliases.induct)
  case (2 c cs a2n n2a)
  have "named_results (a2n(al \<mapsto> columnName c), n2a(columnName c \<mapsto> al))" for al
    using "2.prems" by (simp add: named_results_def)
  then show ?case using 2 by (cases "calias c") auto
qed simp

lemma applyAlias_keyed: "keyed c \<Longrightarrow> named_results m \<Longrightarrow> keyed (applyAlias m c)"
proof -
  assume k: "keyed c" and m: "named_results m"
  have t: "tname (ctable (applyAlias m c)) = [] \<Longrightarrow> tname (ctable c) = []"
    by (auto simp: applyAlias_def set_pseudo_table_def set_known_alias_def resolve_alias_def
        split: option.splits if_splits)
  have "columnName (applyAlias m c) = [] \<Longrightarrow> columnName c = []"
    using m by (auto simp: applyAlias_name named_results_def split: option.splits)
  with t k show ?thesis by (auto simp: keyed_def col_key_def)
qed

lemma apply_aliases_good: "op_good d \<Longrightarrow> named_results m \<Longrightarrow> op_good (apply_aliases m d)"
  using apply_aliases_ok [of d m] applyAlias_keyed [of _ m] faithful_op_cong [of "apply_aliases m d" d]
  by (auto simp: op_good_def is_mat_def) (auto simp: apply_aliases_def)

lemma apply_aliases_fetch [simp]: "is_fetch (apply_aliases m d) = is_fetch d"
  by (simp add: is_fetch_def)

lemma ensure_runs_below: "runs_below p \<Longrightarrow> named_results m \<Longrightarrow> runs_below (ensureCorrectColumnSetup p m)"
proof (induction p m rule: ensureCorrectColumnSetup.induct)
  case (1 d cs m)
  then have m: "node_aliases d m = m" by (simp add: node_aliases_def)
  have "runs_below (if is_select (irData c) then ensureCorrectColumnSetup c (Map.empty, Map.empty) else ensureCorrectColumnSetup c m)"
    if "c \<in> set cs" for c
    using "1.IH" [OF refl that] "1.prems" that m by (simp add: named_results_def)
  then have "\<forall>q \<in> (\<lambda>c. if is_select (irData c) then ensureCorrectColumnSetup c (Map.empty, Map.empty)
      else ensureCorrectColumnSetup c m) ` set cs. runs_below q" by blast
  then show ?case using "1.prems" apply_aliases_good by (simp only: ensureCorrectColumnSetup.simps Let_def m) simp
qed

lemma ensure_runnable:
  assumes "runnable p" "\<forall>c \<in> set (inputColumns (irData p)). is_select (irData p) \<longrightarrow> columnName c \<noteq> []"
  shows "runnable (ensureCorrectColumnSetup p (Map.empty, Map.empty))"
proof -
  obtain d cs where p: "p = Plan d cs" by (cases p)
  let ?m = "node_aliases d (Map.empty, Map.empty)"
  have e: "named_results (Map.empty, Map.empty)" by (simp add: named_results_def)
  then have m: "named_results ?m" using assms(2) p by (simp add: node_aliases_def collect_aliases_named)
  show ?thesis
    using assms(1) p apply_aliases_good [OF _ m] ensure_runs_below [OF _ m] ensure_runs_below [OF _ e]
    by (auto simp: runnable_def Let_def)
qed

lemma merge_no_sort: "\<forall>d \<in> set (nodes p). \<not> is_sort d \<Longrightarrow> mergeSortIntoGroupIfSubset p = p"
proof (induction p rule: plan_induct)
  case (Plan d cs)
  then have "\<not> mergeable d g" for g by (auto simp: mergeable_def)
  then have "map (merge_child d) cs = cs" "filter (\<lambda>(c, c'). mergeable d (irData c)) (zip cs cs) = []"
    by (auto simp: merge_child_def intro!: map_idI)
  moreover have "map mergeSortIntoGroupIfSubset cs = cs" using Plan by (intro map_idI) auto
  ultimately show ?case by (simp add: mergeSortIntoGroupIfSubset.simps [of d cs] Let_def)
qed

lemma runs_below_nodes: "runs_below p \<Longrightarrow> d \<in> set (nodes p) \<Longrightarrow> op_good d"
  by (induction p rule: runs_below.induct) auto

lemma runnable_nodes: "runnable p \<Longrightarrow> d \<in> set (nodes p) \<Longrightarrow> op_good d"
  by (cases p) (auto simp: runnable_def runs_below_nodes)

lemma op_good_no_sort: "op_good d \<Longrightarrow> \<not> is_sort d"
  by (auto simp: op_good_def faithful_op_def elim!: is_sortE)

lemma setAgg_good:
  assumes "op_good d" "keyed i" "keyed r" "is_group d"
  shows "op_good (group_setAgg i r d)"
proof -
  obtain g where g: "opInfo d = OpGroup g" using assms(4) by (rule is_groupE)
  have "set (butlast xs) \<subseteq> set xs" for xs :: "TableColumn list" by (auto dest: in_set_butlastD)
  then show ?thesis
    using assms group_setAgg_ok [of d i r] g
    by (auto simp: op_good_def group_setAgg_def is_mat_def faithful_op_def)
qed

lemma absorb_runs:
  "absorb_sums d cs = Some (d', cs') \<Longrightarrow> op_good d \<Longrightarrow> is_group d \<Longrightarrow> \<forall>c \<in> set cs. runs_below c \<Longrightarrow>
   op_good d' \<and> is_group d' \<and> (\<forall>c \<in> set cs'. runs_below c)"
proof (induction cs arbitrary: d cs')
  case (Cons c cs)
  show ?case
  proof (cases "\<exists>a. opInfo (irData c) = OpAgg a \<and> aggFunc a = AGG_SUM")
    case True
    then obtain i r c' cs2 where a: "at (inputColumns (irData c)) 0 = Some i" "at (outputCols (irData c)) 0 = Some r"
      "at (children c) 0 = Some c'" "absorb_sums (group_setAgg i r d) cs = Some (d', cs2)" "cs' = c' # cs2"
      using Cons.prems(1) by (auto simp: option_bind_eq_Some)
    obtain e ds where c: "c = Plan e ds" by (cases c)
    then have "op_good e" "\<forall>x \<in> set ds. runs_below x" using Cons.prems(4) by auto
    then have "keyed i" "keyed r" "runs_below c'" using a(1-3) c at_mem by (fastforce simp: op_good_def)+
    then show ?thesis
      using Cons.IH [OF a(4) setAgg_good group_setAgg_is_group] Cons.prems(2-4) a(5) by simp
  next
    case False
    then obtain cs2 where "absorb_sums d cs = Some (d', cs2)" "cs' = c # cs2"
      using Cons.prems(1) by (cases "opInfo (irData c)") (auto simp: option_bind_eq_Some)
    then show ?thesis using Cons.IH Cons.prems by auto
  qed
qed simp

lemma moveAgg_cases:
  assumes "moveAggIntoGroup (Plan d cs) = Some (n, p')"
  obtains k cs1 where "moveAgg_list cs = Some (k, cs1)" "p' = Plan d cs1"
  | k cs1 d' cs2 where "moveAgg_list cs = Some (k, cs1)" "is_group d" "absorb_sums d cs1 = Some (d', cs2)" "p' = Plan d' cs2"
  using assms by (auto simp: option_bind_eq_Some split: if_splits)

lemma group_no_leaf: "is_group d \<Longrightarrow> \<not> is_select d \<and> \<not> is_fetch d"
  by (auto elim!: is_groupE simp: is_select_def is_fetch_def)

lemma moveAgg_runs:
  "moveAggIntoGroup p = Some (n, p') \<Longrightarrow> runs_below p \<Longrightarrow> runs_below p'"
  "moveAgg_list cs = Some (n, cs') \<Longrightarrow> \<forall>c \<in> set cs. runs_below c \<Longrightarrow> (\<forall>c \<in> set cs'. runs_below c) \<and> (cs = [] \<longrightarrow> cs' = [])"
proof (induction p and cs arbitrary: n p' and n cs' rule: moveAggIntoGroup_moveAgg_list.induct)
  case (1 d cs)
  have p: "op_good d" "\<not> is_select d" "\<forall>c \<in> set cs. runs_below c" "is_fetch d \<longrightarrow> cs = []" using "1.prems"(2) by auto
  from "1.prems"(1) show ?case
  proof (cases rule: moveAgg_cases)
    case (1 k cs1)
    then show ?thesis using "1.IH" [OF 1(1) p(3)] p by simp
  next
    case (2 k cs1 d' cs2)
    have "op_good d' \<and> is_group d' \<and> (\<forall>c \<in> set cs2. runs_below c)"
      by (rule absorb_runs [OF 2(3) p(1) 2(2)]) (use "1.IH" [OF 2(1) p(3)] in blast)
    then show ?thesis using 2(4) group_no_leaf by simp
  qed
next
  case (3 c cs)
  then show ?case by (fastforce simp: option_bind_eq_Some)
qed simp

lemma moveAgg_runnable: "moveAggIntoGroup p = Some (n, p') \<Longrightarrow> runnable p \<Longrightarrow> runnable p'"
proof -
  assume run: "moveAggIntoGroup p = Some (n, p')" and r: "runnable p"
  obtain d cs where p: "p = Plan d cs" by (cases p)
  then have r: "op_good d" "\<forall>c \<in> set cs. runs_below c" "is_fetch d \<longrightarrow> cs = []" using r by (simp_all add: runnable_def)
  from run [unfolded p] show ?thesis
  proof (cases rule: moveAgg_cases)
    case (1 k cs1)
    then show ?thesis using moveAgg_runs(2) [OF 1(1) r(2)] r by (simp add: runnable_def)
  next
    case (2 k cs1 d' cs2)
    have "op_good d' \<and> is_group d' \<and> (\<forall>c \<in> set cs2. runs_below c)"
      by (rule absorb_runs [OF 2(3) r(1) 2(2)]) (use moveAgg_runs(2) [OF 2(1) r(2)] in blast)
    then show ?thesis using 2(4) group_no_leaf by (simp add: runnable_def)
  qed
qed

lemma ensure_fed: "agg_fed p \<Longrightarrow> agg_fed (ensureCorrectColumnSetup p m)"
proof (induction p m rule: ensureCorrectColumnSetup.induct)
  case (1 d cs m)
  let ?f = "\<lambda>c. if is_select (irData c) then ensureCorrectColumnSetup c (Map.empty, Map.empty)
    else ensureCorrectColumnSetup c (node_aliases d m)"
  have "agg_fed (?f c)" if "c \<in> set cs" for c
    using "1.IH" [OF refl that] "1.prems" that by simp
  then have "\<forall>q \<in> ?f ` set cs. agg_fed q" by blast
  then show ?case using "1.prems" by (simp only: ensureCorrectColumnSetup.simps Let_def) simp
qed

lemma tree_passes_runnable:
  assumes "runnable q" "\<forall>c \<in> set (inputColumns (irData q)). is_select (irData q) \<longrightarrow> columnName c \<noteq> []"
    and "agg_fed q" "\<not> cfg_semiJoins cfg"
  shows "\<exists>p. tree_passes cfg q = Some p \<and> runnable p"
proof -
  let ?e = "ensureCorrectColumnSetup q (Map.empty, Map.empty)"
  have e: "runnable ?e" by (rule ensure_runnable [OF assms(1,2)])
  then have ok: "plan_ok ?e" "\<forall>d \<in> set (nodes ?e). \<not> is_sort d"
    using runnable_nodes op_good_no_sort by (auto simp: plan_ok_def op_good_def)
  obtain p where m: "moveAggIntoGroup ?e = Some (scope_aggs ?e, p)"
    using moveAgg_ok(1) [OF ok(1) ensure_fed [OF assms(3)]] by blast
  have "tree_passes cfg q = Some p"
    using merge_no_sort [OF ok(2)] assms(4) m by (simp add: tree_passes_def Let_def)
  with moveAgg_runnable [OF m e] show ?thesis by blast
qed

section \<open>The pipeline\<close>

lemma reads_written_mono: "reads_written B xs \<Longrightarrow> B \<subseteq> C \<Longrightarrow> reads_written C xs"
  unfolding reads_written_def by blast

lemma pipeline_items:
  assumes "tree_passes cfg q = Some p" "runnable p" "materialize_pass cfg p = Some (root, [], h)"
    and "out_count h {..<length h} \<le> 2 ^ 32"
  shows "\<exists>items. runOptimizerPipeline cfg q pid g = Some items \<and> reads_written (columns_read p) (map opData items)"
proof -
  from materialized_executable [OF assms(2-4)] have e: "executable h root" "base_names h \<subseteq> columns_read p" by auto
  obtain f where f: "work_items cfg h root pid = Some f" "reads_written (base_names h) (map opData (fst (f g)))"
    using executable_items [OF e(1)] by blast
  then show ?thesis
    using assms(1,3) reads_written_mono [OF _ e(2)] by (simp add: runOptimizerPipeline_def)
qed

end
