(* ===== verification/Complete_Plans.thy ===== *)
theory Complete_Plans
  imports Runnable
begin

text \<open>
  Which plan trees the early materialization serves completely. The columns that are available at a
  node are computed from the tree alone; when they cover the columns that every operator reads, the pass
  runs to its end, reports nothing as missing, and the plan can be executed.
\<close>

section \<open>Columns that are available\<close>

fun tables_below :: "plan \<Rightarrow> Table set" where
  "tables_below (Plan d cs) = (\<Union>c \<in> set cs. tables_below c) \<union> (if base_fetch d then {input_table d} else {})"

text \<open>A base table gives the columns of its parent that are its own.\<close>

definition base_keys :: "IrData \<Rightarrow> TableColumn list \<Rightarrow> colkey list" where
  "base_keys d par =
     (if base_fetch d then map col_key (filter (\<lambda>c. tname (ctable c) = tname (input_table d)) par) else [])"

text \<open>What a child adds: all needed columns of the tables below it when it gives a position list, and the
  column of its materialized values.\<close>

definition list_keys :: "plan \<Rightarrow> TableColumn list \<Rightarrow> colkey list" where
  "list_keys c needed =
     (if outputsPosList (irData c) then map col_key (filter (\<lambda>x. ctable x \<in> tables_below c) needed) else [])"

definition val_keys :: "IrData \<Rightarrow> colkey list" where
  "val_keys d = (if outputsMatVals d \<and> \<not> is_fetch d then (case value_column d of Some v \<Rightarrow> [col_key v] | None \<Rightarrow> []) else [])"

fun on_offer :: "plan \<Rightarrow> TableColumn list \<Rightarrow> TableColumn list \<Rightarrow> colkey list" where
  "on_offer (Plan d cs) N par =
     (let this = column_set (inputColumns d); needed = columns_insert this N
      in base_keys d par @
         concat (map (\<lambda>c. on_offer c needed this @ list_keys c needed @ val_keys (irData c)) cs))"

fun complete :: "plan \<Rightarrow> TableColumn list \<Rightarrow> TableColumn list \<Rightarrow> bool" where
  "complete (Plan d cs) N par \<longleftrightarrow>
     (let this = column_set (inputColumns d); needed = columns_insert this N
      in (is_fetch d \<or> (\<forall>c \<in> set (inputColumns d). col_key c \<in> set (on_offer (Plan d cs) N par))) \<and>
         (\<forall>c \<in> set cs. (is_select (irData c) \<longrightarrow> inputColumns (irData c) \<noteq> []) \<and> complete c needed this))"

definition served :: "plan \<Rightarrow> bool" where
  "served p \<longleftrightarrow> complete p [] []"

section \<open>The steps succeed\<close>

lemma extends_children: "extends h h' \<Longrightarrow> a < length h \<Longrightarrow> children_at h' a = children_at h a"
  by (auto simp: extends_def children_at_def nth_append)

definition join_wired :: "heap \<Rightarrow> nat \<Rightarrow> bool" where
  "join_wired h a \<longleftrightarrow> a < length h \<and> outputsPosList (data_at h a) \<and> (is_join (data_at h a) \<longrightarrow> 2 \<le> length (children_at h a))"

lemma join_wired_extends: "join_wired h a \<Longrightarrow> extends h h' \<Longrightarrow> join_wired h' a"
  using extends_children extends_at extends_length by (fastforce simp: join_wired_def)

lemma materialize_total:
  assumes "mat_inv h0 h m" "join_wired h child"
  shows "\<exists>m' h'. materialize_columns child T cs m h = Some (m', h') \<and> dom m \<subseteq> dom m' \<and>
    col_key ` {c \<in> set cs. ctable c \<in> T} \<subseteq> dom m'"
  using assms
proof (induction cs arbitrary: m h)
  case (Cons c cs)
  show ?case
  proof (cases "ctable c \<in> T")
    case False
    then show ?thesis using Cons by (simp add: conj_disj_distribR Collect_disj_eq cong: conj_cong)
  next
    case True
    obtain s h1 where p: "(case m (col_key c) of Some a \<Rightarrow> (a, h) | None \<Rightarrow> alloc (fetch_cell c) h) = (s, h1)" by fastforce
    have h1: "mat_inv h0 h1 m \<and> extends h h1 \<and> s < length h1 \<and> serves h1 s (col_key c)"
    proof (cases "m (col_key c)")
      case None
      then have "h1 = h @ [fetch_cell c]" "s = length h" using p by (auto simp: alloc_def)
      then show ?thesis using Cons.prems(1) mat_inv_fetch fetch_cell_serves by simp
    next
      case (Some a)
      then show ?thesis
        using p Cons.prems(1) cols.reg_lookup [OF mat_invD(3) [OF Cons.prems(1)] Some] by (auto simp: serves_def)
    qed
    then have w: "join_wired h1 child" using Cons.prems(2) join_wired_extends by blast
    have ok: "heap_ok h" using Cons.prems(1) by (rule mat_invD)
    obtain idx where i: "detFilterColIdx h c child = Some idx"
      using detFilterColIdx_total [OF ok, of child c] Cons.prems(2) by (auto simp: join_wired_def)
    then obtain flt where f: "at (outputCols (data_at h child)) idx = Some flt"
      using detFilterColIdx_bound [OF ok _ i] Cons.prems(2) by (auto simp: join_wired_def at_def)
    let ?h = "h1 @ [mat_cell c flt c False s child]"
    have ch: "child < length h1" "outputsPosList (data_at h1 child)" "flt \<in> set (outputCols (data_at h1 child))"
      using w h1 f at_mem extends_at [of h h1 child] Cons.prems(2) by (auto simp: join_wired_def)
    have st: "mat_inv h0 ?h (m(col_key c \<mapsto> length h1))"
      using mat_step [OF _ wired_from_refl ch, of h0 m s c] h1 by blast
    obtain m' h' where r: "materialize_columns child T cs (m(col_key c \<mapsto> length h1)) ?h = Some (m', h')"
      "dom (m(col_key c \<mapsto> length h1)) \<subseteq> dom m'" "col_key ` {c \<in> set cs. ctable c \<in> T} \<subseteq> dom m'"
      using Cons.IH [OF st join_wired_extends [OF w extends_append]] by blast
    from r(2) have k: "insert (col_key c) (dom m) \<subseteq> dom m'" by (simp only: dom_fun_upd option.distinct if_False)
    have "materialize_columns child T (c # cs) m h = Some (m', h')"
      using True p i f r(1) by (auto simp: alloc_def option_bind_eq_Some)
    then show ?thesis using k r(3) by (intro exI [of _ m'] exI [of _ h']) auto
  qed
qed simp

text \<open>What a node keeps of its operator when it is put into the heap.\<close>

definition same_op :: "IrData \<Rightarrow> IrData \<Rightarrow> bool" where
  "same_op d e \<longleftrightarrow> opInfo e = opInfo d \<and> outputsPosList e = outputsPosList d \<and> outputsMatVals e = outputsMatVals d \<and>
     (\<not> is_fetch d \<longrightarrow> e = d)"

lemma same_op_refl [simp]: "same_op d d"
  by (simp add: same_op_def)

lemma same_op_name: "is_fetch d \<Longrightarrow> same_op d e \<Longrightarrow> same_op d (set_column_name n e)"
  by (simp add: same_op_def set_column_name_def)

lemma copy_base_keys:
  "copy_base ps ch e m h = (d', m', h') \<Longrightarrow> leaf_ok e \<Longrightarrow> same_op d e \<Longrightarrow> is_fetch d \<Longrightarrow>
   dom m \<subseteq> dom m' \<and> col_key ` {c \<in> set ps. tname (ctable c) = tname (input_table e)} \<subseteq> dom m' \<and>
   input_table d' = input_table e \<and> same_op d d' \<and> length h \<le> length h'"
proof (induction ps arbitrary: e m h)
  case (Cons c ps)
  show ?case
  proof (cases "tname (ctable c) = tname (input_table e)")
    case True
    let ?e = "set_column_name (columnName c) e"
    note leaf = set_column_name_leaf [OF Cons.prems(2), of "columnName c"]
    have r: "copy_base ps ch ?e (m(col_key c \<mapsto> length h)) (h @ [\<lparr>cdata = ?e, cchildren = ch\<rparr>]) = (d', m', h')"
      using Cons.prems(1) True by (simp add: alloc_def Let_def)
    note ih = Cons.IH [OF r conjunct1 [OF leaf] same_op_name [OF Cons.prems(4,3)] Cons.prems(4)]
    from ih have "insert (col_key c) (dom m) \<subseteq> dom m'" by (simp only: dom_fun_upd option.distinct if_False)
    then show ?thesis using ih leaf True by auto
  next
    case False
    then have "{x \<in> set (c # ps). tname (ctable x) = tname (input_table e)} = {x \<in> set ps. tname (ctable x) = tname (input_table e)}"
      by auto
    then show ?thesis using Cons False by simp
  qed
qed simp

lemma finish_total:
  assumes "ir_ok d" "is_fetch d \<or> (\<forall>c \<in> set (inputColumns d). col_key c \<in> dom m)"
  shows "\<exists>a T' m' h'. finish_node d par ch T m h = (a, T', m', [], h') \<and> T \<union> (if base_fetch d then {input_table d} else {}) \<subseteq> T' \<and>
    dom m \<union> set (base_keys d par) \<subseteq> dom m' \<and> length h \<le> a \<and> a < length h' \<and> same_op d (data_at h' a)"
proof -
  have fb: "base_fetch d \<Longrightarrow> is_fetch d" by (simp add: base_fetch_def is_fetch_def split: OpInfo.splits)
  consider (base) "is_fetch d" "base_fetch d" | (fetch) "is_fetch d" "\<not> base_fetch d" | (op) "\<not> is_fetch d" "\<not> base_fetch d"
    using fb by blast
  then show ?thesis
  proof cases
    case base
    obtain d1 m1 h1 where c: "copy_base par ch d m h = (d1, m1, h1)" by (metis prod_cases3)
    have "leaf_ok d" using base assms(1) by (simp add: leaf_ok_def)
    from copy_base_keys [OF c this same_op_refl base(1)] show ?thesis
      using base c by (auto simp: finish_node_def alloc_def base_keys_def data_at_def)
  next
    case fetch
    then show ?thesis by (simp add: finish_node_def alloc_def base_keys_def data_at_def)
  next
    case op
    then have "missing (inputColumns d) m = []" using assms(2) by (auto simp: missing_def filter_empty_conv)
    then show ?thesis using op by (simp add: finish_node_def alloc_def base_keys_def data_at_def)
  qed
qed

lemma value_column_ex: "ir_ok d \<Longrightarrow> outputsMatVals d \<Longrightarrow> is_select d \<longrightarrow> inputColumns d \<noteq> [] \<Longrightarrow> \<not> is_mat d \<Longrightarrow> \<exists>v. value_column d = Some v"
  by (cases "opInfo d"; cases "outputCols d") (auto simp: value_column_def ir_ok_def is_mat_def is_group_def is_select_def at_def)

lemma val_keys_column: "value_column d = Some v \<Longrightarrow> set (val_keys d) \<subseteq> {col_key v}"
  by (cases "outputsMatVals d \<and> \<not> is_fetch d") (simp_all only: val_keys_def if_True if_False option.case list.set empty_subsetI subset_refl simp_thms)

lemma register_total:
  assumes "ir_ok e" "same_op d e" "ir_ok d" "is_select d \<longrightarrow> inputColumns d \<noteq> []" "\<not> is_mat d"
  shows "\<exists>m'. register_values e a m = Some m' \<and> dom m \<union> set (val_keys d) \<subseteq> dom m'"
proof -
  have f: "is_fetch e = is_fetch d" "is_mat e = is_mat d" "is_select e = is_select d" "outputsMatVals e = outputsMatVals d"
    using assms(2) by (auto simp: same_op_def is_fetch_def is_mat_def is_select_def)
  have v: "\<exists>v. value_column e = Some v" if "outputsMatVals e"
  proof (cases "is_fetch d")
    case True
    then show ?thesis using value_column_ex [OF assms(1) that] f assms(5) by (auto simp: is_select_def is_fetch_def is_OpFetch_def)
  next
    case False
    then have "e = d" using assms(2) by (simp add: same_op_def)
    then show ?thesis using value_column_ex [OF assms(1) that] assms(4,5) by simp
  qed
  show ?thesis
  proof (cases "outputsMatVals d")
    case True
    then obtain v where v: "value_column e = Some v" using v f by blast
    have "set (val_keys d) \<subseteq> {col_key v}"
    proof (cases "is_fetch d")
      case False
      then have "e = d" using assms(2) unfolding same_op_def by blast
      then have "value_column d = Some v" using v by (simp only:)
      then show ?thesis by (rule val_keys_column)
    qed (simp add: val_keys_def)
    moreover have "register_values e a m = Some (m(col_key v \<mapsto> a))" using v True f(4) by (simp add: register_values_def)
    ultimately show ?thesis by auto
  next
    case False
    then have "register_values e a m = Some m" "val_keys d = []" using f by (simp_all add: register_values_def val_keys_def)
    then show ?thesis by simp
  qed
qed

section \<open>The pass succeeds\<close>

lemma tables_below_node: "tables_below (Plan d cs) = (\<Union>c \<in> set cs. tables_below c) \<union> (if base_fetch d then {input_table d} else {})"
  by simp

declare tables_below.simps [simp del]

definition filled :: "plan \<Rightarrow> TableColumn list \<Rightarrow> TableColumn list \<Rightarrow> heap \<Rightarrow> bool" where
  "filled p N par h \<longleftrightarrow> (\<exists>a T m h'. fill p N par h = Some (a, T, m, [], h') \<and> tables_below p \<subseteq> T \<and>
     set (on_offer p N par) \<subseteq> dom m \<and> length h \<le> a \<and> a < length h' \<and> same_op (irData p) (data_at h' a))"

definition given :: "plan \<Rightarrow> TableColumn list \<Rightarrow> TableColumn list \<Rightarrow> colkey list" where
  "given c needed this = on_offer c needed this @ list_keys c needed @ val_keys (irData c)"

text \<open>One child, from its own call to its registration.\<close>

lemma child_total:
  assumes call: "fill c needed this h = Some (a, Tc, mc, [], h1)" "tables_below c \<subseteq> Tc" "set (on_offer c needed this) \<subseteq> dom mc"
      "length h \<le> a" "a < length h1" "same_op (irData c) (data_at h1 a)"
    and c: "plan_in c" "is_select (irData c) \<longrightarrow> inputColumns (irData c) \<noteq> []" and inv: "mat_inv h0 h ms"
  shows "\<exists>m2 h2 m3. (if outputsPosList (data_at h1 a) then materialize_columns a Tc needed (mc ++ ms) h1
      else Some (mc ++ ms, h1)) = Some (m2, h2) \<and> register_values (data_at h1 a) a m2 = Some m3 \<and>
    dom ms \<union> set (given c needed this) \<subseteq> dom m3 \<and> mat_inv h0 h2 m3"
proof -
  let ?d = "irData c" and ?e = "data_at h1 a"
  have hok: "heap_ok h" using inv by (rule mat_invD)
  have i: "mat_inv h h1 mc" "wired_from (length h) h1" using fill_inv(1) [OF call(1) c(1) hok] by simp_all
  have e: "ir_ok ?e" using mat_invD(2) [OF i(1)] call(5) by (simp add: heap_ok_def)
  have d: "ir_ok ?d" "\<not> is_mat ?d" using c(1) by (cases c; simp)+
  have m1: "mat_inv h0 h1 (mc ++ ms)"
    using i(1) inv unfolding mat_inv_def by (blast intro: extends_trans cols.reg_add cols.reg_extends)
  have flags: "outputsPosList ?e = outputsPosList ?d" using call(6) by (simp add: same_op_def)
  have jw: "join_wired h1 a" if "outputsPosList ?e"
  proof -
    have "2 \<le> length (children_at h1 a)" if j: "is_join ?e"
    proof -
      have "wired h1 a" using i(2) call(4,5) by (simp add: wired_from_def)
      then have "length (children_at h1 a) = length (inputColumns ?e)"
        using j by (auto simp: wired_def is_join_def is_mat_def is_fetch_def is_OpJoin_def dest: list_all2_lengthD)
      moreover have "length (inputColumns ?e) = 2" using e j by (auto simp: ir_ok_def is_mat_def is_join_def is_OpJoin_def)
      ultimately show ?thesis by simp
    qed
    then show ?thesis using that call(5) by (simp add: join_wired_def)
  qed
  obtain m2 h2 where m2: "(if outputsPosList ?e then materialize_columns a Tc needed (mc ++ ms) h1
      else Some (mc ++ ms, h1)) = Some (m2, h2)" "dom (mc ++ ms) \<union> set (list_keys c needed) \<subseteq> dom m2"
  proof (cases "outputsPosList ?e")
    case True
    obtain m2 h2 where r: "materialize_columns a Tc needed (mc ++ ms) h1 = Some (m2, h2)" "dom (mc ++ ms) \<subseteq> dom m2"
      "col_key ` {x \<in> set needed. ctable x \<in> Tc} \<subseteq> dom m2"
      using materialize_total [OF m1 jw [OF True], of Tc needed] by blast
    have "set (list_keys c needed) \<subseteq> dom m2" using r(3) call(2) True flags by (auto simp: list_keys_def)
    then show ?thesis using that r True by simp
  qed (use that flags in \<open>simp add: list_keys_def\<close>)
  obtain m3 where m3: "register_values ?e a m2 = Some m3" "dom m2 \<union> set (val_keys ?d) \<subseteq> dom m3"
    using register_total [OF e call(6) d(1) c(2) d(2)] by blast
  have "mat_inv h0 h2 m3" using child_step [OF inv i(1) call(5) _ m2(1) m3(1), of False] by simp
  moreover have "dom ms \<union> set (given c needed this) \<subseteq> dom m3"
    using m2(2) m3(2) call(3) unfolding given_def set_append dom_map_add by blast
  ultimately show ?thesis using m2(1) m3(1) by blast
qed

lemma fill_total:
  "plan_in p \<Longrightarrow> heap_ok h \<Longrightarrow> complete p N par \<Longrightarrow> filled p N par h"
  "\<forall>c \<in> set cs. plan_in c \<and> complete c N this \<and> (is_select (irData c) \<longrightarrow> inputColumns (irData c) \<noteq> []) \<Longrightarrow> mat_inv h0 h ms \<Longrightarrow>
   \<exists>as T' m' h''. fill_children cs N this Ts ms h = Some (as, T', m', [], h'') \<and> Ts \<union> (\<Union>c \<in> set cs. tables_below c) \<subseteq> T' \<and>
     dom ms \<union> (\<Union>c \<in> set cs. set (given c N this)) \<subseteq> dom m' \<and> length h \<le> length h''"
proof (induction p N par h and cs N this Ts ms h arbitrary: and h0 rule: fill_fill_children.induct)
  case (1 d cs N par h)
  let ?own = "column_set (inputColumns d)"
  let ?needed = "columns_insert ?own N"
  have d: "ir_ok d" and below: "\<forall>c \<in> set cs. plan_in c \<and> complete c ?needed ?own \<and> (is_select (irData c) \<longrightarrow> inputColumns (irData c) \<noteq> [])"
    using "1.prems"(1,3) by (simp_all add: Let_def)
  have start: "mat_inv h h Map.empty" using "1.prems"(2) by (simp add: mat_inv_def)
  obtain ch T1 m1 h1 where c: "fill_children cs ?needed ?own {} Map.empty h = Some (ch, T1, m1, [], h1)"
    "(\<Union>c \<in> set cs. tables_below c) \<subseteq> T1" "(\<Union>c \<in> set cs. set (given c ?needed ?own)) \<subseteq> dom m1" "length h \<le> length h1"
    using "1.IH" [OF refl refl below start] by auto
  have offer: "set (on_offer (Plan d cs) N par) = set (base_keys d par) \<union> (\<Union>c \<in> set cs. set (given c ?needed ?own))"
    by (simp add: Let_def given_def)
  have "is_fetch d \<or> (\<forall>c \<in> set (inputColumns d). col_key c \<in> dom m1)"
  proof (cases "is_fetch d")
    case False
    then have "base_keys d par = []" by (auto simp: base_keys_def base_fetch_def is_fetch_def split: OpInfo.splits)
    moreover have "\<forall>c \<in> set (inputColumns d). col_key c \<in> set (on_offer (Plan d cs) N par)"
      using "1.prems"(3) False by (simp only: complete.simps Let_def) blast
    ultimately show ?thesis using c(3) unfolding offer by auto
  qed simp
  from finish_total [OF d this, of par ch T1 h1] obtain a T' m' h' where f: "finish_node d par ch T1 m1 h1 = (a, T', m', [], h')"
    "T1 \<union> (if base_fetch d then {input_table d} else {}) \<subseteq> T'" "dom m1 \<union> set (base_keys d par) \<subseteq> dom m'"
    "length h1 \<le> a" "a < length h'" "same_op d (data_at h' a)" by blast
  have "fill (Plan d cs) N par h = Some (a, T', m', [], h')" using c(1) f(1) by (simp add: Let_def)
  moreover have "tables_below (Plan d cs) \<subseteq> T'" using c(2) f(2) unfolding tables_below_node by blast
  moreover have "set (on_offer (Plan d cs) N par) \<subseteq> dom m'" using c(3) f(3) unfolding offer by blast
  ultimately show ?case using f(4-6) c(4) unfolding filled_def plan.sel by (blast intro: le_trans)
next
  case (2 N this Ts ms h)
  then show ?case by simp
next
  case (3 c cs N this Ts ms h)
  have hok: "heap_ok h" using "3.prems"(2) by (rule mat_invD)
  have pc: "plan_in c" "complete c N this" "is_select (irData c) \<longrightarrow> inputColumns (irData c) \<noteq> []" using "3.prems"(1) by simp_all
  from "3.IH"(1) [OF pc(1) hok pc(2)] obtain a Tc mc h1 where c: "fill c N this h = Some (a, Tc, mc, [], h1)"
    "tables_below c \<subseteq> Tc" "set (on_offer c N this) \<subseteq> dom mc" "length h \<le> a" "a < length h1" "same_op (irData c) (data_at h1 a)"
    unfolding filled_def by blast
  from child_total [OF c pc(1,3) "3.prems"(2)] obtain m2 h2 m3 where
    m: "(if outputsPosList (data_at h1 a) then materialize_columns a Tc N (mc ++ ms) h1 else Some (mc ++ ms, h1)) = Some (m2, h2)"
    and r: "register_values (data_at h1 a) a m2 = Some m3" "dom ms \<union> set (given c N this) \<subseteq> dom m3" "mat_inv h0 h2 m3" by blast
  have rest: "\<forall>c \<in> set cs. plan_in c \<and> complete c N this \<and> (is_select (irData c) \<longrightarrow> inputColumns (irData c) \<noteq> [])"
    using "3.prems"(1) by simp
  from "3.IH"(2) [OF c(1) refl refl refl refl refl m refl r(1) rest r(3)] obtain as T' m' h'' where
    k: "fill_children cs N this (Ts \<union> Tc) m3 h2 = Some (as, T', m', [], h'')" "Ts \<union> Tc \<union> (\<Union>c \<in> set cs. tables_below c) \<subseteq> T'"
    "dom m3 \<union> (\<Union>c \<in> set cs. set (given c N this)) \<subseteq> dom m'" by (elim exE conjE) (rule that)
  have "fill_children (c # cs) N this Ts ms h = Some (a # as, T', m', [], h'')"
    using c(1) m r(1) k(1) by (simp add: Let_def)
  moreover have "Ts \<union> (\<Union>x \<in> set (c # cs). tables_below x) \<subseteq> T'" using k(2) c(2) by auto
  moreover have "dom ms \<union> (\<Union>x \<in> set (c # cs). set (given x N this)) \<subseteq> dom m'"
  proof -
    have u: "dom m3 \<subseteq> dom m'" "(\<Union>x \<in> set cs. set (given x N this)) \<subseteq> dom m'" 
      by (rule order_trans [OF Un_upper1 k(3)]) (rule order_trans [OF Un_upper2 k(3)])
    from subset_trans [OF r(2) u(1)] u(2) have "(dom ms \<union> set (given c N this)) \<union> (\<Union>x \<in> set cs. set (given x N this)) \<subseteq> dom m'"
      by (rule Un_least)
    then show ?thesis by (simp only: list.set UN_insert Un_assoc)
  qed
  moreover have "length h \<le> length h''"
    using fill_inv(2) [OF calculation(1) _ "3.prems"(2)] "3.prems"(1) extends_length by auto
  ultimately show ?case by blast
qed

lemma fill_served:
  assumes "plan_in p" "served p"
  shows "\<exists>a h. fillMaterializes p = Some (a, [], h) \<and> heap_ok h \<and> a < length h \<and> (\<forall>b < length h. wired h b)"
proof -
  have "heap_ok []" by (simp add: heap_ok_def)
  from fill_total(1) [OF assms(1) this assms(2) [unfolded served_def]] obtain a T m h where
    "fill p [] [] [] = Some (a, T, m, [], h)" unfolding filled_def by blast
  then have "fillMaterializes p = Some (a, [], h)" by (simp add: fillMaterializes_def)
  then show ?thesis using fill_wired [OF _ assms(1)] by fastforce
qed

text \<open>C13 Early materialization of a plan whose operators read available columns always runs to its end, reports
  no column as missing, and produces a well-formed, acyclic and wired plan: every operator has one child per
  input column that outputs this column, and every materialize node has a source for its column and a child
  with a position list that outputs its filter column.\<close>

theorem fillMaterializes_complete:
  assumes "plan_in p" "served p"
  shows "\<exists>a h. fillMaterializes p = Some (a, [], h) \<and> heap_ok h \<and> a < length h \<and> (\<forall>b < length h. wired h b)"
  by (rule fill_served [OF assms])

section \<open>The pipeline\<close>


section \<open>A witness\<close>

theorem fillMaterializes_complete_witness:
  "\<exists>a h. fillMaterializes (filter_plan None) = Some (a, [], h) \<and> (\<forall>b < length h. wired h b)"
proof -
  have "served (filter_plan None)" by code_simp
  from fillMaterializes_complete [OF filter_plan_in this] show ?thesis by blast
qed

end
