(* ===== verification/Pipeline_Samples.thy ===== *)
theory Pipeline_Samples
  imports Complete_Plans
begin

text \<open>
  The pipeline evaluated on small star-schema plans: the witness that a plan can be run, and
  the behaviours that the hypotheses of the pipeline theorem exclude (a semi join, a sort above a
  grouping), shown on the work items the client would send.
\<close>

definition default_config :: ClientConfiguration where
  "default_config = \<lparr>cfg_ip = ''127.0.0.1'', cfg_port = 23232, cfg_inputFile = [], cfg_standalone = True,
     cfg_debug = False, cfg_threadPoolSize = 4, cfg_planDot = False, cfg_semiJoins = False,
     cfg_mergeSubsetSort = False, cfg_grandChildOpt = False, cfg_jsonPlan = False, cfg_jsonPlanFile = [],
     cfg_matType = FillMaterializes\<rparr>"

definition fresh_builder :: builder where
  "fresh_builder = \<lparr>currentPlanId = 0, currentItemId = 0\<rparr>"

definition scol :: "string \<Rightarrow> string \<Rightarrow> TableColumn" where
  "scol t c = mkColumn (table_of t) c TYPE_INTEGER None"

definition lo_filter :: plan where
  "lo_filter = Plan (filter_create (scol ''lineorder'' ''lo_tax'') COMP_EQ None [ScalarInt 3] (scol ''lineorder'' ''lo_tax''))
     [base_plan ''lineorder'']"

definition semi_query :: plan where
  "semi_query = Plan (select_create [scol ''lineorder'' ''lo_revenue''] None [])
     [Plan (join_create (scol ''lineorder'' ''lo_suppkey'') (scol ''supplier'' ''s_suppkey'')
        (scol ''lineorder'' ''lo_suppkey'') INNER_JOIN COMP_EQ) [lo_filter, base_plan ''supplier'']]"

definition sum_col :: TableColumn where
  "sum_col = scol ''AGG'' ''SUM(lo_revenue)''"

definition ascending :: "TableColumn \<Rightarrow> OrderDescription" where
  "ascending c = \<lparr>column = c, orderType = True, nullordering = False\<rparr>"

definition sorted_groups :: plan where
  "sorted_groups = Plan (select_create [scol ''lineorder'' ''lo_orderdate'', sum_col] None [])
     [Plan (sort_create [ascending (scol ''lineorder'' ''lo_orderdate''), ascending sum_col] (scol ''SORT'' ''s'') None)
       [Plan (group_create [scol ''lineorder'' ''lo_orderdate''] (scol ''GROUP'' ''g''))
         [Plan (agg_create (scol ''lineorder'' ''lo_revenue'') sum_col AGG_SUM) [lo_filter]]]]"

text \<open>What an item list looks like from outside: number, columns read, columns written.\<close>

definition item_names :: "WorkItem list \<Rightarrow> (nat \<times> string list \<times> string list) list" where
  "item_names ws = map (\<lambda>w. (unat (itemId w), map colname (item_reads (opData w)), map colname (item_writes (opData w)))) ws"

section \<open>A plan that runs\<close>

lemma filter_query_runs:
  "runnable (filter_plan None)" "agg_fed (filter_plan None)"
  "\<forall>c \<in> set (inputColumns (irData (filter_plan None))). columnName c \<noteq> []"
  "case tree_passes default_config (filter_plan None) of None \<Rightarrow> False
   | Some p \<Rightarrow> (case materialize_pass default_config p of None \<Rightarrow> False
      | Some (root, miss, h) \<Rightarrow> miss = [] \<and> out_count h {..<length h} = 6)"
  by code_simp+

lemma filter_query_passes:
  "\<exists>p root h. tree_passes default_config (filter_plan None) = Some p \<and> runnable p \<and>
     materialize_pass default_config p = Some (root, [], h) \<and> out_count h {..<length h} \<le> 2 ^ 32"
proof -
  have "\<not> cfg_semiJoins default_config" by (simp add: default_config_def)
  from tree_passes_runnable [OF filter_query_runs(1) _ filter_query_runs(2) this]
  obtain p where p: "tree_passes default_config (filter_plan None) = Some p" "runnable p"
    using filter_query_runs(3) by blast
  then show ?thesis using filter_query_runs(4) by (auto split: option.splits prod.splits)
qed


section \<open>Plans outside the theorem\<close>

text \<open>With semi joins switched on, the join of this query gets no work item (number 4 is skipped),
  and the final materialization reads the positions of the discarded supplier side, which no item
  writes.\<close>

lemma semi_join_loses_item:
  "map_option item_names (runOptimizerPipeline (default_config\<lparr>cfg_semiJoins := True\<rparr>) semi_query 1 fresh_builder) =
   Some [(1, [''lo_tax''], [''lo_tax_0'']),
     (2, [''lo_revenue'', ''lo_tax_0''], [''lo_revenue_1'']),
     (3, [''lo_suppkey'', ''lo_tax_0''], [''lo_suppkey_2'']),
     (5, [''lo_revenue_1'', ''s_suppkey_3''], [''lo_revenue_5'']),
     (6, [''lo_revenue_5''], [])]"
  by code_simp

text \<open>A sort above a grouping reads the grouping column and the sum under their old names, not the
  materialized ones, and the result pairs the sorted grouping column (number 7) with the sums in
  the order of the grouping (number 4).\<close>

lemma sort_reads_old_names:
  "map_option item_names (runOptimizerPipeline default_config sorted_groups 1 fresh_builder) =
   Some [(1, [''lo_tax''], [''lo_tax_0'']),
     (2, [''lo_orderdate'', ''lo_tax_0''], [''lo_orderdate_1'']),
     (3, [''lo_revenue'', ''lo_tax_0''], [''lo_revenue_2'']),
     (4, [''lo_orderdate_1'', ''lo_revenue_2''], [''g_3'', ''g_srt_4'', ''g_clus_5'', ''SUM(lo_revenue)_6'']),
     (5, [''lo_orderdate_1'', ''g_3''], [''lo_orderdate_7'']),
     (6, [''lo_orderdate'', ''SUM(lo_revenue)''], [''s_8'']),
     (7, [''lo_orderdate_7'', ''s_8''], [''lo_orderdate_9'']),
     (8, [''lo_orderdate_9'', ''SUM(lo_revenue)_6''], [])]"
  by code_simp


end
