(* ===== verification/Sql_To_Ast.thy ===== *)
theory Sql_To_Ast
  imports Optimizer_One Catalog
begin

text \<open>
  \<open>src/parser/generate_AST.cpp\<close>: from the parser's result to the abstract syntax tree. The SQL parser
  is a third-party library; its expressions \<open>'e\<close> and table references \<open>'t\<close> are read through accessors,
  which are a parameter. A pointer that may be null is an option, and using a null one (also as a
  C string) is \<open>NullDeref\<close>.
\<close>

section \<open>The parser's structures\<close>

text \<open>The enumerators the source names; the last one of each type stands for all others.\<close>

datatype ExprType = kExprLiteralInt | kExprLiteralString | kExprLiteralFloat | kExprLiteralNull
  | kExprColumnRef | kExprFunctionRef | kExprOperator | kExprOther

datatype OpType = kOpAnd | kOpOr | kOpEquals | kOpNotEquals | kOpLess | kOpLessEq | kOpGreater | kOpGreaterEq
  | kOpBetween | kOpPlus | kOpMinus | kOpAsterisk | kOpSlash | kOpOther

datatype TableType = kTableName | kTableJoin | kTableCrossProduct | kTableOther

datatype JoinKind = kJoinInner | kJoinFull | kJoinLeft | kJoinRight | kJoinCross | kJoinNatural | kJoinOther

datatype OrderType = kOrderAsc | kOrderDesc | kOrderOther

datatype NullOrdering = NullsUndefined | NullsFirst | NullsLast | NullsOther

record ('e, 't) join_ref =
  jr_type :: JoinKind
  jr_left :: "'t option"
  jr_right :: "'t option"
  jr_condition :: "'e option"

text \<open>\<open>e_fval_text\<close> is \<open>std::to_string\<close> of the floating point value.\<close>

record ('e, 't) hsql =
  e_type :: "'e \<Rightarrow> ExprType"
  e_opType :: "'e \<Rightarrow> OpType"
  e_name :: "'e \<Rightarrow> string option"
  e_table :: "'e \<Rightarrow> string option"
  e_alias :: "'e \<Rightarrow> string option"
  e_ival :: "'e \<Rightarrow> int"
  e_fval_text :: "'e \<Rightarrow> string"
  e_expr :: "'e \<Rightarrow> 'e option"
  e_expr2 :: "'e \<Rightarrow> 'e option"
  e_list :: "'e \<Rightarrow> 'e list option"
  t_type :: "'t \<Rightarrow> TableType"
  t_name :: "'t \<Rightarrow> string option"
  t_alias :: "'t \<Rightarrow> string option"
  t_getName :: "'t \<Rightarrow> string option"
  t_join :: "'t \<Rightarrow> ('e, 't) join_ref option"
  t_list :: "'t \<Rightarrow> 't list option"

record 'e order_desc =
  o_type :: OrderType
  o_null :: NullOrdering
  o_expr :: "'e option"

record ('e, 't) select_stmt =
  selectList :: "'e list option"
  limit_exprs :: "('e option \<times> 'e option) option"
  order_list :: "'e order_desc list option"
  group_columns :: "'e list option"
  whereClause :: "'e option"
  fromTable :: "'t option"

datatype ('e, 't) statement = kStmtSelect "('e, 't) select_stmt" | kStmtOther

section \<open>Reading\<close>

definition need :: "'a option \<Rightarrow> 'a res" where
  "need p = (case p of Some x \<Rightarrow> Inr x | None \<Rightarrow> Inl NullDeref)"

lemma need_Inr [simp]: "need p = Inr x \<longleftrightarrow> p = Some x"
  by (auto simp: need_def split: option.splits)

lemma need_Some [simp]: "need (Some x) = Inr x" "need None = Inl NullDeref"
  by (simp_all add: need_def)

definition or_empty :: "string option \<Rightarrow> string" where
  "or_empty p = (case p of Some s \<Rightarrow> s | None \<Rightarrow> [])"

definition int_string :: "int \<Rightarrow> string" where
  "int_string i = (if i < 0 then CHR ''-'' # to_string (nat (- i)) else to_string (nat i))"

definition sql_upper :: "string \<Rightarrow> string" where
  "sql_upper s = to_upper s"

fun seqE :: "'a res list \<Rightarrow> 'a list res" where
  "seqE [] = Inr []"
| "seqE (r # rs) = bindE r (\<lambda>x. bindE (seqE rs) (\<lambda>xs. Inr (x # xs)))"

section \<open>Conditions\<close>

definition where_op :: "OpType \<Rightarrow> string" where
  "where_op t = (case t of
     kOpEquals \<Rightarrow> ''EQUAL'' | kOpNotEquals \<Rightarrow> ''NOTEQUAL'' | kOpLess \<Rightarrow> ''LESSTHEN'' | kOpLessEq \<Rightarrow> ''LESSTHENEQ''
   | kOpGreater \<Rightarrow> ''GREATERTHEN'' | kOpGreaterEq \<Rightarrow> ''GREATERTHENEQ'' | kOpOr \<Rightarrow> ''OR'' | kOpBetween \<Rightarrow> ''BETWEEN''
   | _ \<Rightarrow> ''default'')"

definition where_node :: "string \<Rightarrow> string \<Rightarrow> string \<Rightarrow> string \<Rightarrow> string \<Rightarrow> string \<Rightarrow> string \<Rightarrow> WhereClauseNode" where
  "where_node t c op t2 c2 v v2 =
     \<lparr>w_table = t, w_column = c, w_operatorType = op, w_table2 = t2, w_column2 = c2, w_value = v, w_value2 = v2\<rparr>"

text \<open>The bounds of a \<open>BETWEEN\<close>; any other expression leaves the value empty.\<close>

definition bound_value :: "('e, 't, 'm) hsql_scheme \<Rightarrow> 'e \<Rightarrow> string res" where
  "bound_value H e = (case e_type H e of
     kExprLiteralInt \<Rightarrow> Inr (int_string (e_ival H e))
   | kExprLiteralString \<Rightarrow> need (e_name H e)
   | kExprLiteralFloat \<Rightarrow> Inr (e_fval_text H e)
   | kExprLiteralNull \<Rightarrow> Inr ''NULL''
   | _ \<Rightarrow> Inr [])"

definition between_node :: "('e, 't, 'm) hsql_scheme \<Rightarrow> 'e \<Rightarrow> WhereClauseNode res" where
  "between_node H e =
     bindE (need (e_expr H e)) (\<lambda>l.
     bindE (need (e_list H e)) (\<lambda>xs.
     bindE (atE xs 0) (\<lambda>x. bindE (bound_value H x) (\<lambda>v1.
     bindE (atE xs 1) (\<lambda>y. bindE (bound_value H y) (\<lambda>v2.
     let name = or_empty (e_name H l) in
     Inr (where_node (getTableName name) name ''BETWEEN'' [] [] v1 v2)))))))"

text \<open>An \<open>OR\<close> of two comparisons; the type of the second literal decides how both are read.\<close>

definition or_node :: "('e, 't, 'm) hsql_scheme \<Rightarrow> 'e \<Rightarrow> WhereClauseNode res" where
  "or_node H e =
     bindE (need (e_expr2 H e)) (\<lambda>r. bindE (need (e_expr2 H r)) (\<lambda>rv.
     let operands = (\<lambda>f.
       bindE (need (e_expr H e)) (\<lambda>l. bindE (need (e_expr2 H l)) (\<lambda>lv.
       bindE (f lv) (\<lambda>v1. bindE (f rv) (\<lambda>v2.
       bindE (need (e_expr H l)) (\<lambda>lc. bindE (need (e_name H lc)) (\<lambda>c1.
       bindE (need (e_expr H r)) (\<lambda>rc. bindE (need (e_name H rc)) (\<lambda>c2.
       Inr (where_node (getTableName c1) c1 ''OR'' (getTableName c2) c2 v1 v2))))))))))
     in case e_type H rv of
       kExprLiteralInt \<Rightarrow> operands (\<lambda>x. Inr (int_string (e_ival H x)))
     | kExprLiteralString \<Rightarrow> operands (\<lambda>x. need (e_name H x))
     | _ \<Rightarrow> Inr (where_node (getTableName []) [] ''OR'' (getTableName []) [] [] [])))"

text \<open>A comparison; \<open>None\<close> is the null pointer returned for any other right side.\<close>

definition compare_node :: "('e, 't, 'm) hsql_scheme \<Rightarrow> string \<Rightarrow> 'e \<Rightarrow> WhereClauseNode option res" where
  "compare_node H op e =
     bindE (need (e_expr H e)) (\<lambda>l. bindE (need (e_expr2 H e)) (\<lambda>r.
     let name = or_empty (e_name H l);
         value = (\<lambda>v. Some (where_node (getTableName name) name op [] [] v []))
     in case e_type H r of
       kExprLiteralInt \<Rightarrow> Inr (value (int_string (e_ival H r)))
     | kExprLiteralString \<Rightarrow> bindE (need (e_name H r)) (Inr \<circ> value)
     | kExprLiteralFloat \<Rightarrow> Inr (value (e_fval_text H r))
     | kExprLiteralNull \<Rightarrow> Inr (value ''NULL'')
     | kExprColumnRef \<Rightarrow> bindE (need (e_name H r)) (\<lambda>name2.
         Inr (Some (where_node (getTableName name) name op (getTableName name2) name2 [] [])))
     | _ \<Rightarrow> Inr None))"

definition makeWhereNode :: "('e, 't, 'm) hsql_scheme \<Rightarrow> 'e \<Rightarrow> WhereClauseNode option res" where
  "makeWhereNode H e =
     (let op = where_op (e_opType H e) in
      if op = ''BETWEEN'' then bindE (between_node H e) (Inr \<circ> Some)
      else if op = ''OR'' then bindE (or_node H e) (Inr \<circ> Some)
      else compare_node H op e)"

text \<open>The conjuncts, the last one of the text first. The chain of \<open>AND\<close> is followed through the
  library's pointers, with a bound.\<close>

fun conjuncts :: "('e, 't, 'm) hsql_scheme \<Rightarrow> nat \<Rightarrow> 'e \<Rightarrow> 'e list res option" where
  "conjuncts H 0 e = None"
| "conjuncts H (Suc n) e =
     (if e_opType H e = kOpAnd then
        (case (e_expr2 H e, e_expr H e) of
           (Some r, Some l) \<Rightarrow> map_option (\<lambda>rs. bindE rs (\<lambda>cs. Inr (r # cs))) (conjuncts H n l)
         | _ \<Rightarrow> Some (Inl NullDeref))
      else Some (Inr [e]))"

section \<open>Tables\<close>

definition join_name :: "JoinKind \<Rightarrow> string option" where
  "join_name k = (case k of
     kJoinInner \<Rightarrow> Some ''JOININNER'' | kJoinFull \<Rightarrow> Some ''JOINFULL'' | kJoinLeft \<Rightarrow> Some ''JOINLEFT''
   | kJoinRight \<Rightarrow> Some ''JOINRIGHT'' | kJoinCross \<Rightarrow> Some ''JOINCROSS'' | kJoinNatural \<Rightarrow> Some ''JOINNATURAL''
   | kJoinOther \<Rightarrow> None)"

definition table_node :: "('e, 't, 'm) hsql_scheme \<Rightarrow> 't \<Rightarrow> ast_val res" where
  "table_node H t = bindE (need (t_name H t)) (\<lambda>n. bindE (need (t_getName H t)) (\<lambda>a.
     Inr (VBase \<lparr>tableName = n, tableAlias = a\<rparr>)))"

definition join_node :: "('e, 't, 'm) hsql_scheme \<Rightarrow> string \<Rightarrow> 'e option \<Rightarrow> ast_val res" where
  "join_node H kind cond =
     bindE (need cond) (\<lambda>c.
     bindE (need (e_expr H c)) (\<lambda>l. bindE (need (e_table H l)) (\<lambda>lt. bindE (need (e_name H l)) (\<lambda>lc.
     bindE (need (e_expr2 H c)) (\<lambda>r. bindE (need (e_table H r)) (\<lambda>rt. bindE (need (e_name H r)) (\<lambda>rc.
     Inr (VJoin \<lparr>j_joinType = kind, onLeftTable = lt, onLeftTableColumn = lc, onRightTable = rt, onRightTableColumn = rc\<rparr>))))))))"

text \<open>\<open>makeTableNode\<close>; \<open>None\<close> is a null pointer. A join of another kind falls through to the case of a
  table name.\<close>

definition makeTableNode :: "('e, 't, 'm) hsql_scheme \<Rightarrow> 't \<Rightarrow> ast_val option res" where
  "makeTableNode H t = (case t_type H t of
     kTableJoin \<Rightarrow> bindE (need (t_join H t)) (\<lambda>j. case join_name (jr_type j) of
         Some k \<Rightarrow> bindE (join_node H k (jr_condition j)) (Inr \<circ> Some)
       | None \<Rightarrow> bindE (table_node H t) (Inr \<circ> Some))
   | kTableName \<Rightarrow> bindE (table_node H t) (Inr \<circ> Some)
   | _ \<Rightarrow> Inr None)"

text \<open>\<open>isTableInRef\<close>. The alias is dereferenced whether the table has one or not, and the conditional
  yields the empty string in both cases.\<close>

fun isTableInRef :: "('e, 't, 'm) hsql_scheme \<Rightarrow> nat \<Rightarrow> 't option \<Rightarrow> string \<Rightarrow> bool res option" where
  "isTableInRef H 0 t w = None"
| "isTableInRef H (Suc n) None w = Some (Inr False)"
| "isTableInRef H (Suc n) (Some t) w = (case t_type H t of
     kTableName \<Rightarrow> Some (bindE (need (t_alias H t)) (\<lambda>a. Inr (or_empty (t_name H t) = w \<or> w = [])))
   | kTableJoin \<Rightarrow> (case t_join H t of
       None \<Rightarrow> Some (Inl NullDeref)
     | Some j \<Rightarrow> (case isTableInRef H n (jr_left j) w of
         Some (Inr False) \<Rightarrow> isTableInRef H n (jr_right j) w
       | r \<Rightarrow> r))
   | kTableCrossProduct \<Rightarrow> (case t_list H t of
       None \<Rightarrow> Some (Inr False)
     | Some ts \<Rightarrow> foldr (\<lambda>r rest. case r of Some (Inr False) \<Rightarrow> rest | _ \<Rightarrow> r)
         (map (\<lambda>u. isTableInRef H n (Some u) w) ts) (Some (Inr False)))
   | kTableOther \<Rightarrow> Some (Inr False))"

definition swap_sides :: "TableJoinNode \<Rightarrow> TableJoinNode" where
  "swap_sides j = j\<lparr>onLeftTable := onRightTable j, onRightTable := onLeftTable j,
     onLeftTableColumn := onRightTableColumn j, onRightTableColumn := onLeftTableColumn j\<rparr>"

fun exploreTable :: "('e, 't, 'm) hsql_scheme \<Rightarrow> nat \<Rightarrow> 't option \<Rightarrow> ast res option" where
  "exploreTable H 0 t = None"
| "exploreTable H (Suc n) None = Some (Inl NullDeref)"
| "exploreTable H (Suc n) (Some t) = (case t_join H t of
     None \<Rightarrow> Some (bindE (makeTableNode H t) (\<lambda>v. Inr (case v of Some v \<Rightarrow> ANode v Null Null | None \<Rightarrow> Null)))
   | Some j \<Rightarrow> (case bindE (makeTableNode H t) need of
       Inl e \<Rightarrow> Some (Inl e)
     | Inr v \<Rightarrow> (case exploreTable H n (jr_left j) of
         None \<Rightarrow> None
       | Some (Inl e) \<Rightarrow> Some (Inl e)
       | Some (Inr l) \<Rightarrow> (case exploreTable H n (jr_right j) of
           None \<Rightarrow> None
         | Some (Inl e) \<Rightarrow> Some (Inl e)
         | Some (Inr r) \<Rightarrow> (case v of
             VJoin jn \<Rightarrow> map_option (\<lambda>b. bindE b (\<lambda>b. Inr (ANode (VJoin (if b then jn else swap_sides jn)) l r)))
               (isTableInRef H n (jr_left j) (onLeftTable jn))
           | _ \<Rightarrow> Some (Inr (ANode v l r)))))))"

definition cross_names :: "('e, 't, 'm) hsql_scheme \<Rightarrow> 't \<Rightarrow> string list res" where
  "cross_names H t = bindE (need (t_list H t)) (\<lambda>ts. seqE (map (\<lambda>u. need (t_name H u)) ts))"

section \<open>Selected functions, order and grouping\<close>

definition arith_symbol :: "OpType \<Rightarrow> string" where
  "arith_symbol t = (case t of kOpPlus \<Rightarrow> ''+'' | kOpMinus \<Rightarrow> ''-'' | kOpAsterisk \<Rightarrow> ''*'' | kOpSlash \<Rightarrow> ''/'' | _ \<Rightarrow> [])"

definition operands_text :: "('e, 't, 'm) hsql_scheme \<Rightarrow> 'e \<Rightarrow> string res" where
  "operands_text H x = bindE (need (e_expr H x)) (\<lambda>l. bindE (need (e_expr2 H x)) (\<lambda>r.
     Inr (or_empty (e_name H l) @ arith_symbol (e_opType H x) @ or_empty (e_name H r))))"

definition inner_text :: "('e, 't, 'm) hsql_scheme \<Rightarrow> 'e \<Rightarrow> string res" where
  "inner_text H e = (case e_list H e of
     Some (x # _) \<Rightarrow>
       if e_type H x = kExprOperator then operands_text H x
       else if e_type H x = kExprColumnRef then need (e_name H x)
       else Inr []
   | _ \<Rightarrow> Inr [])"

text \<open>Table and column of a function in the select list.\<close>

definition function_column :: "('e, 't, 'm) hsql_scheme \<Rightarrow> 'e \<Rightarrow> (string \<times> string) res" where
  "function_column H e = bindE (need (e_name H e)) (\<lambda>n. bindE (inner_text H e) (\<lambda>inner.
     let f = sql_upper n in Inr (if f \<noteq> [] then ''AGG'' else ''MAP'', f @ ''('' @ inner @ '')'')))"

definition select_item :: "('e, 't, 'm) hsql_scheme \<Rightarrow> 'e \<Rightarrow> SelectClauseDescription list res" where
  "select_item H e = (case e_type H e of
     kExprColumnRef \<Rightarrow> bindE (need (e_name H e)) (\<lambda>n.
       Inr [\<lparr>sd_table = getTableName n, sd_column = n, sd_alias = or_empty (e_alias H e)\<rparr>])
   | kExprFunctionRef \<Rightarrow> bindE (function_column H e) (\<lambda>(t, c).
       Inr [\<lparr>sd_table = t, sd_column = c, sd_alias = or_empty (e_alias H e)\<rparr>])
   | _ \<Rightarrow> Inr [])"

text \<open>The expression of an order: an alias of the select list is replaced by what it stands for.\<close>

fun order_alias :: "('e, 't, 'm) hsql_scheme \<Rightarrow> string \<Rightarrow> 'e list \<Rightarrow> (string \<times> string) res" where
  "order_alias H c [] = Inr ([], c)"
| "order_alias H c (e # es) =
     (if e_alias H e = Some c then
        (case e_type H e of
           kExprFunctionRef \<Rightarrow> function_column H e
         | kExprColumnRef \<Rightarrow> bindE (need (e_name H e)) (\<lambda>n. Inr (getTableName n, n))
         | _ \<Rightarrow> Inr ([], c))
      else order_alias H c es)"

definition makeOrderNode :: "('e, 't, 'm) hsql_scheme \<Rightarrow> 'e list option \<Rightarrow> 'e order_desc \<Rightarrow> OrderByDescription res" where
  "makeOrderNode H sel d =
     bindE (need (o_expr d)) (\<lambda>x.
     let table = or_empty (e_table H x); col = or_empty (e_name H x) in
     bindE (case sel of Some es \<Rightarrow> if table = [] then order_alias H col es else Inr (table, col) | None \<Rightarrow> Inr (table, col))
       (\<lambda>(t, c).
     let t = (if t = [] then getTableName c else t);
         nulls = (case o_null d of NullsUndefined \<Rightarrow> ''UNDEFINED'' | NullsFirst \<Rightarrow> ''FIRST'' | NullsLast \<Rightarrow> ''LAST'' | NullsOther \<Rightarrow> []);
         desc = (\<lambda>dir. \<lparr>od_table = t, od_column = c, ordertype = dir, od_nullordering = nulls\<rparr>)
     in Inr (if o_null d = NullsOther then \<lparr>od_table = [], od_column = [], ordertype = [], od_nullordering = []\<rparr>
         else case o_type d of
           kOrderAsc \<Rightarrow> desc ''ASC''
         | kOrderDesc \<Rightarrow> desc ''DESC''
         | kOrderOther \<Rightarrow> \<lparr>od_table = [], od_column = [], ordertype = [], od_nullordering = []\<rparr>)))"

definition makeGroupByNode :: "('e, 't, 'm) hsql_scheme \<Rightarrow> 'e \<Rightarrow> GroupByDescription res" where
  "makeGroupByNode H e = bindE (need (e_name H e)) (\<lambda>n. Inr \<lparr>gd_table = getTableName n, gd_column = n\<rparr>)"

text \<open>The aggregate of a selected function, and the arithmetic below it.\<close>

definition agg_input :: "('e, 't, 'm) hsql_scheme \<Rightarrow> 'e \<Rightarrow> (string \<times> string) res" where
  "agg_input H x =
     (if e_type H x = kExprOperator then bindE (operands_text H x) (\<lambda>c. Inr (''MAP'', c))
      else if e_type H x = kExprColumnRef then bindE (need (e_name H x)) (\<lambda>n. Inr (getTableName n, n))
      else Inr ([], []))"

definition map_clause :: "('e, 't, 'm) hsql_scheme \<Rightarrow> 'e \<Rightarrow> ast_val list res" where
  "map_clause H x =
     (if e_type H x = kExprOperator then
        bindE (need (e_expr H x)) (\<lambda>l. bindE (need (e_name H l)) (\<lambda>c1.
        bindE (need (e_expr2 H x)) (\<lambda>r. bindE (need (e_name H r)) (\<lambda>c2.
        Inr [VMap \<lparr>m_table1 = getTableName c1, m_column1 = c1, m_table2 = getTableName c2, m_column2 = c2,
          m_operatorType = arith_symbol (e_opType H x), m_value = []\<rparr>]))))
      else Inr [])"

definition agg_clauses :: "('e, 't, 'm) hsql_scheme \<Rightarrow> 'e \<Rightarrow> ast_val list res" where
  "agg_clauses H e =
     (if e_type H e = kExprFunctionRef then
        bindE (need (e_list H e)) (\<lambda>xs. bindE (atE xs 0) (\<lambda>x.
        bindE (agg_input H x) (\<lambda>(t, c). bindE (need (e_name H e)) (\<lambda>n. bindE (map_clause H x) (\<lambda>ms.
        Inr (VAgg \<lparr>aggregateFunction = sql_upper n, a_alias = or_empty (e_alias H e), a_table = t, a_column = c\<rparr> # ms))))))
      else Inr [])"

section \<open>A statement\<close>

definition select_part :: "('e, 't, 'm) hsql_scheme \<Rightarrow> ('e, 't) select_stmt \<Rightarrow> ast_val res" where
  "select_part H s = (case selectList s of
     None \<Rightarrow> Inr VEmpty
   | Some es \<Rightarrow> bindE (seqE (map (select_item H) es)) (\<lambda>ds. Inr (VSelect (concat ds))))"

definition limit_part :: "('e, 't, 'm) hsql_scheme \<Rightarrow> ('e, 't) select_stmt \<Rightarrow> ast_val list res" where
  "limit_part H s = (case limit_exprs s of
     None \<Rightarrow> Inr []
   | Some (l, off) \<Rightarrow> bindE (need l) (\<lambda>l. Inr [VLimit \<lparr>limit = int_string (e_ival H l),
       offset = (case off of Some x \<Rightarrow> int_string (e_ival H x) | None \<Rightarrow> [])\<rparr>]))"

definition order_part :: "('e, 't, 'm) hsql_scheme \<Rightarrow> ('e, 't) select_stmt \<Rightarrow> ast_val list res" where
  "order_part H s = (case order_list s of
     None \<Rightarrow> Inr []
   | Some ds \<Rightarrow> bindE (seqE (map (makeOrderNode H (selectList s)) ds)) (\<lambda>os. Inr [VOrder os]))"

definition group_part :: "('e, 't, 'm) hsql_scheme \<Rightarrow> ('e, 't) select_stmt \<Rightarrow> ast_val list res" where
  "group_part H s = (case group_columns s of
     None \<Rightarrow> Inr []
   | Some es \<Rightarrow> bindE (seqE (map (makeGroupByNode H) es)) (\<lambda>gs. Inr [VGroup gs]))"

definition agg_part :: "('e, 't, 'm) hsql_scheme \<Rightarrow> ('e, 't) select_stmt \<Rightarrow> ast_val list res" where
  "agg_part H s = (case selectList s of
     None \<Rightarrow> Inr []
   | Some es \<Rightarrow> bindE (seqE (map (agg_clauses H) es)) (\<lambda>xs. Inr (concat xs)))"

text \<open>The conditions are hung below each other from the first one of the text on. A null pointer among
  them is dereferenced by the next step, which is the \<open>FROM\<close> clause at the latest.\<close>

definition where_part :: "('e, 't, 'm) hsql_scheme \<Rightarrow> nat \<Rightarrow> ('e, 't) select_stmt \<Rightarrow> WhereClauseNode list res option" where
  "where_part H n s = (case whereClause s of
     None \<Rightarrow> Some (Inr [])
   | Some e \<Rightarrow> map_option (\<lambda>r. bindE r (\<lambda>cs. seqE (map (\<lambda>c. bindE (makeWhereNode H c) need) (rev cs)))) (conjuncts H n e))"

definition from_part :: "('e, 't, 'm) hsql_scheme \<Rightarrow> nat \<Rightarrow> ('e, 't) select_stmt \<Rightarrow> ast res option" where
  "from_part H n s = (case fromTable s of
     None \<Rightarrow> Some (Inl NullDeref)
   | Some t \<Rightarrow>
       if t_type H t = kTableCrossProduct
       then Some (bindE (cross_names H t) (\<lambda>ns. case exploreCrossProduct ns of Some a \<Rightarrow> Inr a | None \<Rightarrow> Inl OutOfRange))
       else exploreTable H n (Some t))"

definition clause_parts :: "('e, 't, 'm) hsql_scheme \<Rightarrow> ('e, 't) select_stmt \<Rightarrow> ast_val list res" where
  "clause_parts H s =
     bindE (select_part H s) (\<lambda>sel. bindE (limit_part H s) (\<lambda>lim. bindE (order_part H s) (\<lambda>ord.
     bindE (group_part H s) (\<lambda>grp. bindE (agg_part H s) (\<lambda>agg. Inr (sel # lim @ ord @ grp @ agg))))))"

definition parseQueryExpression :: "('e, 't, 'm) hsql_scheme \<Rightarrow> nat \<Rightarrow> ('e, 't) select_stmt \<Rightarrow> ast res option" where
  "parseQueryExpression H n s = (case clause_parts H s of
     Inl e \<Rightarrow> Some (Inl e)
   | Inr ops \<Rightarrow> (case where_part H n s of
       None \<Rightarrow> None
     | Some (Inl e) \<Rightarrow> Some (Inl e)
     | Some (Inr ws) \<Rightarrow> map_option (\<lambda>r. bindE r (\<lambda>c. Inr (spine (ops @ map VWhere ws) c))) (from_part H n s)))"

text \<open>The last \<open>SELECT\<close> statement of the text counts; without one the tree is a single empty node.\<close>

fun last_select :: "('e, 't, 'm) hsql_scheme \<Rightarrow> nat \<Rightarrow> ast \<Rightarrow> ('e, 't) statement list \<Rightarrow> ast res option" where
  "last_select H n root [] = Some (Inr root)"
| "last_select H n root (kStmtOther # ss) = last_select H n root ss"
| "last_select H n root (kStmtSelect s # ss) = (case parseQueryExpression H n s of
     Some (Inr a) \<Rightarrow> last_select H n a ss
   | r \<Rightarrow> r)"

definition generateASTNode :: "('e, 't, 'm) hsql_scheme \<Rightarrow> (string \<Rightarrow> ('e, 't) statement list) \<Rightarrow> nat \<Rightarrow> string \<Rightarrow> ast res option" where
  "generateASTNode H parseSQL n query =
     map_option (\<lambda>r. bindE r optimizerOne) (last_select H n (ANode VEmpty Null Null) (parseSQL query))"

section \<open>What the front end accepts\<close>

definition operator_ok :: "('e, 't, 'm) hsql_scheme \<Rightarrow> 'e \<Rightarrow> bool" where
  "operator_ok H x \<longleftrightarrow> (case (e_expr H x, e_expr2 H x) of
     (Some l, Some r) \<Rightarrow> e_name H l \<noteq> None \<and> e_name H r \<noteq> None
   | _ \<Rightarrow> False)"

text \<open>A column has a name, a function a name and an argument; an operator has two named operands.\<close>

definition argument_ok :: "('e, 't, 'm) hsql_scheme \<Rightarrow> 'e \<Rightarrow> bool" where
  "argument_ok H x \<longleftrightarrow> (e_type H x = kExprOperator \<longrightarrow> operator_ok H x) \<and> (e_type H x = kExprColumnRef \<longrightarrow> e_name H x \<noteq> None)"

definition item_ok :: "('e, 't, 'm) hsql_scheme \<Rightarrow> 'e \<Rightarrow> bool" where
  "item_ok H e \<longleftrightarrow> (case e_type H e of
     kExprColumnRef \<Rightarrow> e_name H e \<noteq> None
   | kExprFunctionRef \<Rightarrow> e_name H e \<noteq> None \<and> (case e_list H e of Some (x # _) \<Rightarrow> argument_ok H x | _ \<Rightarrow> False)
   | _ \<Rightarrow> True)"

definition supported :: "('e, 't, 'm) hsql_scheme \<Rightarrow> ('e, 't) select_stmt \<Rightarrow> bool" where
  "supported H s \<longleftrightarrow>
     (case selectList s of None \<Rightarrow> True | Some es \<Rightarrow> list_all (item_ok H) es) \<and>
     (case limit_exprs s of Some (None, _) \<Rightarrow> False | _ \<Rightarrow> True) \<and>
     (case order_list s of None \<Rightarrow> True | Some ds \<Rightarrow> list_all (\<lambda>d. o_expr d \<noteq> None) ds) \<and>
     (case group_columns s of None \<Rightarrow> True | Some es \<Rightarrow> list_all (\<lambda>e. e_name H e \<noteq> None) es)"

lemma seqE_total: "(\<And>r. r \<in> set rs \<Longrightarrow> \<exists>x. r = Inr x) \<Longrightarrow> \<exists>xs. seqE rs = Inr xs"
proof (induction rs)
  case (Cons r rs)
  then obtain x xs where "r = Inr x" "seqE rs = Inr xs" by fastforce
  then show ?case by simp
qed simp

lemma operands_total: "operator_ok H x \<Longrightarrow> \<exists>c. operands_text H x = Inr c"
  by (auto simp: operator_ok_def operands_text_def split: option.splits)

lemma function_total:
  assumes "item_ok H e" "e_type H e = kExprFunctionRef"
  shows "\<exists>c. function_column H e = Inr c" "\<exists>xs. agg_clauses H e = Inr xs"
proof -
  from assms obtain n x xs where e: "e_name H e = Some n" "e_list H e = Some (x # xs)" "argument_ok H x"
    by (auto simp: item_ok_def split: option.splits list.splits)
  have inner: "\<exists>c. inner_text H e = Inr c"
    using e operands_total by (auto simp: inner_text_def argument_ok_def)
  then show "\<exists>c. function_column H e = Inr c" using e(1) by (auto simp: function_column_def Let_def)
  have "\<exists>tc. agg_input H x = Inr tc" using e(3) operands_total by (fastforce simp: agg_input_def argument_ok_def)
  moreover have "\<exists>ms. map_clause H x = Inr ms"
    using e(3) by (auto simp: map_clause_def argument_ok_def operator_ok_def split: option.splits)
  ultimately show "\<exists>xs. agg_clauses H e = Inr xs" using assms(2) e(1,2) by (auto simp: agg_clauses_def atE_def)
qed

lemma item_total:
  assumes "item_ok H e"
  shows "\<exists>d. select_item H e = Inr d" "\<exists>xs. agg_clauses H e = Inr xs"
proof -
  show "\<exists>d. select_item H e = Inr d"
    using assms function_total(1) [OF assms]
    by (auto simp: select_item_def item_ok_def split: ExprType.splits)
  show "\<exists>xs. agg_clauses H e = Inr xs"
    using function_total(2) [OF assms] by (cases "e_type H e = kExprFunctionRef") (auto simp: agg_clauses_def)
qed

lemma order_alias_total: "list_all (item_ok H) es \<Longrightarrow> \<exists>tc. order_alias H c es = Inr tc"
proof (induction es)
  case (Cons e es)
  then show ?case using function_total(1) [of H e]
    by (auto simp: item_ok_def split: ExprType.splits)
qed simp

lemma order_total:
  assumes "list_all (item_ok H) (case sel of Some es \<Rightarrow> es | None \<Rightarrow> [])" "o_expr d \<noteq> None"
  shows "\<exists>x. makeOrderNode H sel d = Inr x"
proof -
  obtain x where x: "o_expr d = Some x" using assms(2) by auto
  have "\<exists>tc. (case sel of Some es \<Rightarrow> if or_empty (e_table H x) = [] then order_alias H (or_empty (e_name H x)) es
      else Inr (or_empty (e_table H x), or_empty (e_name H x))
    | None \<Rightarrow> Inr (or_empty (e_table H x), or_empty (e_name H x))) = Inr tc"
    using assms(1) order_alias_total by (auto split: option.splits)
  then show ?thesis by (auto simp: makeOrderNode_def x Let_def)
qed

lemma map_total: "list_all P xs \<Longrightarrow> (\<And>x. P x \<Longrightarrow> \<exists>y. f x = Inr y) \<Longrightarrow> \<exists>ys. seqE (map f xs) = Inr ys"
  by (intro seqE_total) (auto simp: list_all_iff)

lemma clause_parts_total:
  assumes "supported H s"
  shows "\<exists>ops. clause_parts H s = Inr ops \<and> list_all is_clause ops"
proof -
  note ok = assms [unfolded supported_def]
  have items: "list_all (item_ok H) (case selectList s of Some es \<Rightarrow> es | None \<Rightarrow> [])"
    using ok by (auto split: option.splits)
  have "\<exists>v. select_part H s = Inr v \<and> is_clause v"
  proof (cases "selectList s")
    case (Some es)
    with items map_total [of "item_ok H" es "select_item H", OF _ item_total(1)] obtain ds where
      "seqE (map (select_item H) es) = Inr ds" by auto
    with Some show ?thesis by (simp add: select_part_def is_clause_def)
  qed (simp add: select_part_def is_clause_def)
  moreover have "\<exists>vs. limit_part H s = Inr vs \<and> list_all is_clause vs"
    using ok by (auto simp: limit_part_def is_clause_def split: option.splits)
  moreover have "\<exists>vs. order_part H s = Inr vs \<and> list_all is_clause vs"
  proof (cases "order_list s")
    case (Some ds)
    with ok map_total [of "\<lambda>d. o_expr d \<noteq> None" ds "makeOrderNode H (selectList s)", OF _ order_total [OF items]]
    obtain os where "seqE (map (makeOrderNode H (selectList s)) ds) = Inr os" by auto
    with Some show ?thesis by (simp add: order_part_def is_clause_def)
  qed (simp add: order_part_def)
  moreover have "\<exists>vs. group_part H s = Inr vs \<and> list_all is_clause vs"
  proof (cases "group_columns s")
    case (Some es)
    have "\<exists>g. makeGroupByNode H e = Inr g" if "e_name H e \<noteq> None" for e
      using that by (auto simp: makeGroupByNode_def)
    with Some ok map_total [of "\<lambda>e. e_name H e \<noteq> None" es "makeGroupByNode H"] obtain gs where
      "seqE (map (makeGroupByNode H) es) = Inr gs" by auto
    with Some show ?thesis by (simp add: group_part_def is_clause_def)
  qed (simp add: group_part_def)
  moreover have "\<exists>vs. agg_part H s = Inr vs \<and> list_all is_clause vs"
  proof (cases "selectList s")
    case (Some es)
    have cl: "list_all is_clause xs" if "agg_clauses H e = Inr xs" for e xs
      using that by (auto simp: agg_clauses_def map_clause_def is_clause_def bindE_Inr_iff split: if_splits prod.splits)
    from Some items map_total [of "item_ok H" es "agg_clauses H", OF _ item_total(2)] obtain xss where
      xss: "seqE (map (agg_clauses H) es) = Inr xss" by auto
    have "list_all (list_all is_clause) xss"
      using xss by (induction es arbitrary: xss) (auto simp: bindE_Inr_iff cl)
    then have "list_all is_clause (concat xss)" by (auto simp: list_all_iff)
    with Some xss show ?thesis by (simp add: agg_part_def)
  qed (simp add: agg_part_def)
  ultimately show ?thesis by (fastforce simp: clause_parts_def)
qed

lemma cross_chain_total: "2 \<le> length ts \<Longrightarrow> \<exists>c. cross_chain ts = Some c"
  by (induction ts rule: cross_chain.induct) auto

section \<open>Properties\<close>


text \<open>C35 An explicit join of two tables, with qualified columns in its condition, is read only when the
  left table has an alias: without one \<open>isTableInRef\<close> dereferences a null pointer. With one, the sides
  of the condition are exchanged unless the first names the left table.\<close>

theorem explicit_join_needs_alias:
  assumes "t_type H t = kTableJoin" "t_join H t = Some j" "join_name (jr_type j) = Some kind"
    and "jr_left j = Some l" "t_type H l = kTableName" "t_join H l = None" "t_name H l = Some nl" "t_getName H l = Some al"
    and "jr_right j = Some r" "t_type H r = kTableName" "t_join H r = None" "t_name H r = Some nr" "t_getName H r = Some ar"
    and "join_node H kind (jr_condition j) = Inr (VJoin jn)"
  shows "exploreTable H (Suc (Suc n)) (Some t) = Some (
    if t_alias H l = None then Inl NullDeref
    else Inr (ANode (VJoin (if nl = onLeftTable jn \<or> onLeftTable jn = [] then jn else swap_sides jn))
      (base_node nl al) (base_node nr ar)))"
proof -
  have "makeTableNode H t = Inr (Some (VJoin jn))" using assms(1-3,14) by (simp add: makeTableNode_def)
  moreover have "exploreTable H (Suc n) (Some l) = Some (Inr (base_node nl al))"
    "exploreTable H (Suc n) (Some r) = Some (Inr (base_node nr ar))"
    using assms(4-13) by (simp_all add: makeTableNode_def table_node_def base_node_def)
  moreover have "isTableInRef H (Suc n) (Some l) w = Some (if t_alias H l = None then Inl NullDeref else Inr (nl = w \<or> w = []))" for w
    using assms(5,7) by (auto simp: or_empty_def)
  ultimately show ?thesis using assms(2,4,9) by simp
qed

section \<open>A sample statement\<close>

datatype sample_expr = SInt int | SStr string | SCol "string option" string
  | SFun string "string option" sample_expr | SOp OpType sample_expr sample_expr

datatype sample_table = STab string "string option" | SCross "sample_table list"
  | SJoin sample_table sample_table sample_expr

definition sample_hsql :: "(sample_expr, sample_table) hsql" where
  "sample_hsql = \<lparr>
     e_type = (\<lambda>e. case e of SInt _ \<Rightarrow> kExprLiteralInt | SStr _ \<Rightarrow> kExprLiteralString | SCol _ _ \<Rightarrow> kExprColumnRef
       | SFun _ _ _ \<Rightarrow> kExprFunctionRef | SOp _ _ _ \<Rightarrow> kExprOperator),
     e_opType = (\<lambda>e. case e of SOp t _ _ \<Rightarrow> t | _ \<Rightarrow> kOpOther),
     e_name = (\<lambda>e. case e of SStr s \<Rightarrow> Some s | SCol _ c \<Rightarrow> Some c | SFun f _ _ \<Rightarrow> Some f | _ \<Rightarrow> None),
     e_table = (\<lambda>e. case e of SCol t _ \<Rightarrow> t | _ \<Rightarrow> None),
     e_alias = (\<lambda>e. case e of SFun _ a _ \<Rightarrow> a | _ \<Rightarrow> None),
     e_ival = (\<lambda>e. case e of SInt i \<Rightarrow> i | _ \<Rightarrow> 0),
     e_fval_text = (\<lambda>_. []),
     e_expr = (\<lambda>e. case e of SOp _ l _ \<Rightarrow> Some l | _ \<Rightarrow> None),
     e_expr2 = (\<lambda>e. case e of SOp _ _ r \<Rightarrow> Some r | _ \<Rightarrow> None),
     e_list = (\<lambda>e. case e of SFun _ _ x \<Rightarrow> Some [x] | _ \<Rightarrow> None),
     t_type = (\<lambda>t. case t of STab _ _ \<Rightarrow> kTableName | SCross _ \<Rightarrow> kTableCrossProduct | SJoin _ _ _ \<Rightarrow> kTableJoin),
     t_name = (\<lambda>t. case t of STab n _ \<Rightarrow> Some n | _ \<Rightarrow> None),
     t_alias = (\<lambda>t. case t of STab _ a \<Rightarrow> a | _ \<Rightarrow> None),
     t_getName = (\<lambda>t. case t of STab n a \<Rightarrow> Some (case a of Some b \<Rightarrow> b | None \<Rightarrow> n) | _ \<Rightarrow> None),
     t_join = (\<lambda>t. case t of SJoin l r c \<Rightarrow> Some \<lparr>jr_type = kJoinInner, jr_left = Some l, jr_right = Some r, jr_condition = Some c\<rparr> | _ \<Rightarrow> None),
     t_list = (\<lambda>t. case t of SCross ts \<Rightarrow> Some ts | _ \<Rightarrow> None)\<rparr>"

text \<open>\<open>SELECT c_nation, SUM(lo_revenue) AS revenue FROM lineorder, supplier, customer WHERE lo_suppkey =
  s_suppkey AND s_region = 'ASIA' AND lo_custkey = c_custkey AND c_nation = 'CHINA' GROUP BY c_nation ORDER BY revenue DESC LIMIT 10\<close>\<close>

definition sample_where :: sample_expr where
  "sample_where =
     SOp kOpAnd (SOp kOpAnd (SOp kOpAnd
       (SOp kOpEquals (SCol None ''lo_suppkey'') (SCol None ''s_suppkey''))
       (SOp kOpEquals (SCol None ''s_region'') (SStr ''ASIA'')))
       (SOp kOpEquals (SCol None ''lo_custkey'') (SCol None ''c_custkey'')))
       (SOp kOpEquals (SCol None ''c_nation'') (SStr ''CHINA''))"

definition sample_stmt :: "(sample_expr, sample_table) select_stmt" where
  "sample_stmt = \<lparr>
     selectList = Some [SCol None ''c_nation'', SFun ''sum'' (Some ''revenue'') (SCol None ''lo_revenue'')],
     limit_exprs = Some (Some (SInt 10), None),
     order_list = Some [\<lparr>o_type = kOrderDesc, o_null = NullsUndefined, o_expr = Some (SCol None ''revenue'')\<rparr>],
     group_columns = Some [SCol None ''c_nation''],
     whereClause = Some sample_where,
     fromTable = Some (SCross [STab ''lineorder'' None, STab ''supplier'' None, STab ''customer'' None])\<rparr>"

lemma sql_sample_conditions: "where_part sample_hsql 9 sample_stmt = Some (Inr star_wheres)"
  by code_simp

lemma sql_sample_clauses: "clause_parts sample_hsql sample_stmt = Inr [
    VSelect [\<lparr>sd_table = ''customer'', sd_column = ''c_nation'', sd_alias = []\<rparr>,
             \<lparr>sd_table = ''AGG'', sd_column = ''SUM(lo_revenue)'', sd_alias = ''revenue''\<rparr>],
    VLimit \<lparr>limit = ''10'', offset = []\<rparr>,
    VOrder [\<lparr>od_table = ''AGG'', od_column = ''SUM(lo_revenue)'', ordertype = ''DESC'', od_nullordering = ''UNDEFINED''\<rparr>],
    VGroup [\<lparr>gd_table = ''customer'', gd_column = ''c_nation''\<rparr>],
    VAgg \<lparr>aggregateFunction = ''SUM'', a_alias = ''revenue'', a_table = ''lineorder'', a_column = ''lo_revenue''\<rparr>]"
  by code_simp


theorem explicit_join_needs_alias_witness:
  "exploreTable sample_hsql (Suc (Suc 0))
     (Some (SJoin (STab ''lineorder'' None) (STab ''supplier'' None)
       (SOp kOpEquals (SCol (Some ''supplier'') ''s_suppkey'') (SCol (Some ''lineorder'') ''lo_suppkey'')))) =
   Some (Inl NullDeref) \<and>
   exploreTable sample_hsql (Suc (Suc 0))
     (Some (SJoin (STab ''lineorder'' (Some ''l'')) (STab ''supplier'' None)
       (SOp kOpEquals (SCol (Some ''supplier'') ''s_suppkey'') (SCol (Some ''lineorder'') ''lo_suppkey'')))) =
   Some (Inr (ANode (inner_join ''lineorder'' ''lo_suppkey'' ''supplier'' ''s_suppkey'')
     (base_node ''lineorder'' ''l'') (base_node ''supplier'' ''supplier'')))"
proof -
  let ?jn = "\<lparr>j_joinType = ''JOININNER'', onLeftTable = ''supplier'', onLeftTableColumn = ''s_suppkey'',
    onRightTable = ''lineorder'', onRightTableColumn = ''lo_suppkey''\<rparr>"
  let ?r = "STab ''supplier'' None"
  let ?c = "SOp kOpEquals (SCol (Some ''supplier'') ''s_suppkey'') (SCol (Some ''lineorder'') ''lo_suppkey'')"
  note join = explicit_join_needs_alias [where H = sample_hsql and kind = "''JOININNER''" and jn = ?jn and nr = "''supplier''"
    and ar = "''supplier''" and nl = "''lineorder''" and r = ?r and n = 0]
  show ?thesis
    by (subst join [where j = "\<lparr>jr_type = kJoinInner, jr_left = Some (STab ''lineorder'' None), jr_right = Some ?r, jr_condition = Some ?c\<rparr>"
          and al = "''lineorder''" and l = "STab ''lineorder'' None"],
        (simp add: sample_hsql_def join_name_def join_node_def; fail)+,
        subst join [where j = "\<lparr>jr_type = kJoinInner, jr_left = Some (STab ''lineorder'' (Some ''l'')), jr_right = Some ?r, jr_condition = Some ?c\<rparr>"
          and al = "''l''" and l = "STab ''lineorder'' (Some ''l'')"],
        (simp add: sample_hsql_def join_name_def join_node_def; fail)+,
        simp add: sample_hsql_def swap_sides_def inner_join_def)
qed

end
