(* ===== verification/Machine.thy ===== *)
theory Machine
  imports Prelude
begin

text \<open>
  Runs of the event-driven parts of the client and the server: a component is a partial step
  function on its state, a run feeds it a list of events. The two locales are what the components
  prove of a step, and what follows for every run: an invariant, and a measure that bounds the
  length of the runs whose events all make progress.
\<close>

fun run :: "('e \<Rightarrow> 's \<Rightarrow> 's option) \<Rightarrow> 'e list \<Rightarrow> 's \<Rightarrow> 's option" where
  "run step [] s = Some s"
| "run step (e # es) s = (case step e s of None \<Rightarrow> None | Some s' \<Rightarrow> run step es s')"

lemma run_append:
  "run step (es @ es') s = (case run step es s of None \<Rightarrow> None | Some s' \<Rightarrow> run step es' s')"
  by (induction es arbitrary: s) (auto split: option.splits)

lemma run_ConsE:
  assumes "run step (e # es) s = Some s''"
  obtains s' where "step e s = Some s'" "run step es s' = Some s''"
  using assms by (auto split: option.splits)

locale machine =
  fixes step :: "'e \<Rightarrow> 's \<Rightarrow> 's option" and inv :: "'s \<Rightarrow> bool"
  assumes step_inv: "inv s \<Longrightarrow> step e s = Some s' \<Longrightarrow> inv s'"
begin

lemma run_inv: "run step es s = Some s' \<Longrightarrow> inv s \<Longrightarrow> inv s'"
  by (induction es arbitrary: s) (auto split: option.splits intro: step_inv)

end

locale terminating_machine = machine step inv for step :: "'e \<Rightarrow> 's \<Rightarrow> 's option" and inv +
  fixes progress :: "'e \<Rightarrow> bool" and work :: "'s \<Rightarrow> nat" and closing :: "'s \<Rightarrow> bool"
  assumes closing_step: "inv s \<Longrightarrow> closing s \<Longrightarrow> step e s = Some s' \<Longrightarrow> closing s'"
    and work_less: "inv s \<Longrightarrow> closing s \<Longrightarrow> progress e \<Longrightarrow> step e s = Some s' \<Longrightarrow> work s' < work s"
begin

lemma run_bound:
  "run step es s = Some s' \<Longrightarrow> inv s \<Longrightarrow> closing s \<Longrightarrow> list_all progress es \<Longrightarrow> length es + work s' \<le> work s"
proof (induction es arbitrary: s)
  case (Cons e es)
  from Cons.prems(1) obtain s1 where s1: "step e s = Some s1" "run step es s1 = Some s'"
    by (rule run_ConsE)
  have "length es + work s' \<le> work s1"
    using Cons.IH [OF s1(2)] Cons.prems s1(1) step_inv closing_step by auto
  moreover have "work s1 < work s"
    using work_less [OF Cons.prems(2,3) _ s1(1)] Cons.prems(4) by simp
  ultimately show ?case by simp
qed simp

end

end
