(* ===== verification/Thread_Pool.thy ===== *)
theory Thread_Pool
  imports Machine "HOL-Library.Multiset"
begin

text \<open>
  \<open>src/client/thread_pool.cpp\<close>: the workers, their queue and the owner, as a transition system.
  A step is what a thread does while it holds \<open>queueMutex\<close>, or one notification, or the end of a
  task; between the steps all threads interleave freely, and a sleeping worker may wake up for no
  reason, as \<open>std::condition_variable\<close> allows. Tasks are enqueued by the thread that owns the pool
  (the client's main loop) only.
\<close>

section \<open>State and steps\<close>

text \<open>A worker is about to take the lock and test the wait condition, asleep in \<open>wait\<close>, running a
  task, or has returned. The owner is between two calls, between \<open>push\<close> and \<open>notify_one\<close> of an
  \<open>enqueue\<close>, between \<open>stop = true\<close> and \<open>notify_all\<close> of the destructor, joining, or done.\<close>

datatype 'a worker = Checking | Asleep | Running 'a | Exited

datatype owner = Open | Notifying | Stopping | Joining | Gone

record 'a pool =
  clientTasks :: "'a list"
  stop :: bool
  workerThreads :: "'a worker list"
  owner :: owner
  submitted :: "'a list"
  started :: "'a list"
  finished :: "'a list"

definition new_pool :: "nat \<Rightarrow> 'a pool" where
  "new_pool n = \<lparr>clientTasks = [], stop = False, workerThreads = replicate n Checking, owner = Open,
     submitted = [], started = [], finished = []\<rparr>"

datatype 'a event =
    Push 'a | NotifyOne nat | NotifyNone | Spurious nat | Check nat | Finish nat
  | SetStop | NotifyAll | Join

definition set_worker :: "nat \<Rightarrow> 'a worker \<Rightarrow> 'a pool \<Rightarrow> 'a pool" where
  "set_worker i w s = s\<lparr>workerThreads := (workerThreads s)[i := w]\<rparr>"

definition worker_is :: "'a pool \<Rightarrow> nat \<Rightarrow> 'a worker \<Rightarrow> bool" where
  "worker_is s i w \<longleftrightarrow> i < length (workerThreads s) \<and> workerThreads s ! i = w"

text \<open>The critical section of a worker: wait, return, or take the next task.\<close>

definition check :: "nat \<Rightarrow> 'a pool \<Rightarrow> 'a pool" where
  "check i s = (case clientTasks s of
     [] \<Rightarrow> if stop s then set_worker i Exited s else set_worker i Asleep s
   | t # ts \<Rightarrow> set_worker i (Running t) (s\<lparr>clientTasks := ts, started := started s @ [t]\<rparr>))"

definition wake :: "'a worker \<Rightarrow> 'a worker" where
  "wake w = (case w of Asleep \<Rightarrow> Checking | _ \<Rightarrow> w)"

text \<open>\<open>enqueue\<close>, the workers' loop and the destructor. A step that is not possible has no successor.\<close>

fun pool_step :: "'a event \<Rightarrow> 'a pool \<Rightarrow> 'a pool option" where
  "pool_step (Push t) s =
     (if owner s = Open
      then Some (s\<lparr>clientTasks := clientTasks s @ [t], submitted := submitted s @ [t], owner := Notifying\<rparr>)
      else None)"
| "pool_step (NotifyOne i) s =
     (if owner s = Notifying \<and> worker_is s i Asleep then Some ((set_worker i Checking s)\<lparr>owner := Open\<rparr>) else None)"
| "pool_step NotifyNone s =
     (if owner s = Notifying \<and> Asleep \<notin> set (workerThreads s) then Some (s\<lparr>owner := Open\<rparr>) else None)"
| "pool_step (Spurious i) s = (if worker_is s i Asleep then Some (set_worker i Checking s) else None)"
| "pool_step (Check i) s = (if worker_is s i Checking then Some (check i s) else None)"
| "pool_step (Finish i) s =
     (if i < length (workerThreads s)
      then case workerThreads s ! i of
             Running t \<Rightarrow> Some (set_worker i Checking (s\<lparr>finished := finished s @ [t]\<rparr>))
           | _ \<Rightarrow> None
      else None)"
| "pool_step SetStop s = (if owner s = Open then Some (s\<lparr>stop := True, owner := Stopping\<rparr>) else None)"
| "pool_step NotifyAll s =
     (if owner s = Stopping then Some (s\<lparr>workerThreads := map wake (workerThreads s), owner := Joining\<rparr>) else None)"
| "pool_step Join s =
     (if owner s = Joining \<and> set (workerThreads s) \<subseteq> {Exited} then Some (s\<lparr>owner := Gone\<rparr>) else None)"

text \<open>Runs of a new pool with \<open>n\<close> workers.\<close>

definition pool_run :: "nat \<Rightarrow> 'a event list \<Rightarrow> 'a pool option" where
  "pool_run n es = run pool_step es (new_pool n)"

section \<open>What every reachable state satisfies\<close>

fun running :: "'a worker list \<Rightarrow> 'a list" where
  "running [] = []"
| "running (Running t # ws) = t # running ws"
| "running (_ # ws) = running ws"

lemma running_update:
  "i < length ws \<Longrightarrow> mset (running (ws[i := w])) + mset (running [ws ! i]) = mset (running ws) + mset (running [w])"
proof (induction ws arbitrary: i)
  case (Cons v ws)
  show ?case
  proof (cases i)
    case 0
    then show ?thesis by (cases v; cases w) auto
  next
    case (Suc j)
    then show ?thesis using Cons.IH [of j] Cons.prems by (cases v) auto
  qed
qed simp

lemma running_wake [simp]: "running (map wake ws) = running ws"
  by (induction ws rule: running.induct) (auto simp: wake_def)

definition awake :: "'a worker \<Rightarrow> bool" where
  "awake w \<longleftrightarrow> w = Checking \<or> (\<exists>t. w = Running t)"

lemma awake_iff: "awake w \<longleftrightarrow> w \<noteq> Exited \<and> w \<noteq> Asleep"
  by (cases w) (auto simp: awake_def)

definition pool_inv :: "nat \<Rightarrow> 'a pool \<Rightarrow> bool" where
  "pool_inv n s \<longleftrightarrow> length (workerThreads s) = n \<and>
     submitted s = started s @ clientTasks s \<and>
     mset (started s) = mset (finished s) + mset (running (workerThreads s)) \<and>
     (stop s \<longleftrightarrow> owner s \<in> {Stopping, Joining, Gone}) \<and>
     (Exited \<in> set (workerThreads s) \<longrightarrow> stop s \<and> clientTasks s = []) \<and>
     (owner s \<in> {Joining, Gone} \<longrightarrow> Asleep \<notin> set (workerThreads s)) \<and>
     (owner s = Gone \<longrightarrow> set (workerThreads s) \<subseteq> {Exited}) \<and>
     (clientTasks s \<noteq> [] \<longrightarrow> 0 < n \<longrightarrow> owner s \<in> {Notifying, Stopping} \<or> (\<exists>w \<in> set (workerThreads s). awake w))"

lemma pool_invD:
  assumes "pool_inv n s"
  shows "length (workerThreads s) = n" "submitted s = started s @ clientTasks s"
    "mset (started s) = mset (finished s) + mset (running (workerThreads s))"
    "stop s \<longleftrightarrow> owner s \<in> {Stopping, Joining, Gone}"
    "Exited \<in> set (workerThreads s) \<Longrightarrow> stop s \<and> clientTasks s = []"
    "owner s \<in> {Joining, Gone} \<Longrightarrow> Asleep \<notin> set (workerThreads s)"
    "owner s = Gone \<Longrightarrow> set (workerThreads s) \<subseteq> {Exited}"
    "clientTasks s \<noteq> [] \<Longrightarrow> 0 < n \<Longrightarrow> owner s \<in> {Notifying, Stopping} \<or> (\<exists>w \<in> set (workerThreads s). awake w)"
  using assms unfolding pool_inv_def by blast+

lemma set_update_cases: "w \<in> set (ws[i := v]) \<Longrightarrow> w = v \<or> w \<in> set ws"
  using set_update_subset_insert by fastforce

lemma kept_awake:
  assumes "i < length ws" "ws ! i = u" "\<not> awake u \<or> awake v" "\<exists>w \<in> set ws. awake w"
  shows "\<exists>w \<in> set (ws[i := v]). awake w"
proof -
  from assms(4) obtain j where j: "j < length ws" "awake (ws ! j)" by (auto simp: in_set_conv_nth)
  show ?thesis
  proof (cases "awake v")
    case True
    with assms(1) show ?thesis using set_update_memI by fast
  next
    case False
    with assms(2,3) j have "j \<noteq> i" by auto
    with j have "(ws[i := v]) ! j = ws ! j" "j < length (ws[i := v])" by simp_all
    with j(2) show ?thesis by (metis nth_mem)
  qed
qed

lemma check_inv:
  assumes inv: "pool_inv n s" and i: "worker_is s i Checking"
  shows "pool_inv n (check i s)"
proof -
  note d = pool_invD [OF inv]
  have i': "i < length (workerThreads s)" "workerThreads s ! i = Checking" using i by (simp_all add: worker_is_def)
  then have member: "Checking \<in> set (workerThreads s)" by (metis nth_mem)
  note up = running_update [OF i'(1), of Asleep] running_update [OF i'(1), of Exited]
  show ?thesis
  proof (cases "clientTasks s")
    case Nil
    then show ?thesis
      using d up i' member
      by (auto simp: pool_inv_def check_def set_worker_def dest!: set_update_cases)
  next
    case (Cons t ts)
    have "mset (running ((workerThreads s)[i := Running t])) = mset (running (workerThreads s)) + {#t#}"
      using running_update [OF i'(1), of "Running t"] i'(2) by simp
    moreover have "Running t \<in> set ((workerThreads s)[i := Running t])"
      using i'(1) by (rule set_update_memI)
    then have "\<exists>w \<in> set ((workerThreads s)[i := Running t]). awake w"
      by (auto simp: awake_def)
    ultimately show ?thesis
      using d Cons i' member
      by (auto simp: pool_inv_def check_def set_worker_def dest!: set_update_cases)
  qed
qed

lemma finish_inv:
  assumes inv: "pool_inv n s" and i: "i < length (workerThreads s)" "workerThreads s ! i = Running t"
  shows "pool_inv n (set_worker i Checking (s\<lparr>finished := finished s @ [t]\<rparr>))"
proof -
  note d = pool_invD [OF inv]
  have "mset (running ((workerThreads s)[i := Checking])) + {#t#} = mset (running (workerThreads s))"
    using running_update [OF i(1), of Checking] i(2) by simp
  moreover have "\<exists>w \<in> set ((workerThreads s)[i := Checking]). awake w"
    using set_update_memI [OF i(1)] by (force simp: awake_def)
  moreover have "Running t \<in> set (workerThreads s)" using i by (metis nth_mem)
  ultimately show ?thesis
    using d by (auto simp: pool_inv_def set_worker_def dest!: set_update_cases)
qed

lemma wake_one_inv:
  assumes inv: "pool_inv n s" and i: "worker_is s i Asleep" and o: "owner s \<notin> {Joining, Gone}"
    and o': "owner' = owner s \<or> owner s = Notifying \<and> owner' = Open"
  shows "pool_inv n ((set_worker i Checking s)\<lparr>owner := owner'\<rparr>)"
proof -
  note d = pool_invD [OF inv]
  have i': "i < length (workerThreads s)" "workerThreads s ! i = Asleep" using i by (simp_all add: worker_is_def)
  have "mset (running ((workerThreads s)[i := Checking])) = mset (running (workerThreads s))"
    using running_update [OF i'(1), of Checking] i'(2) by simp
  moreover have "\<exists>w \<in> set ((workerThreads s)[i := Checking]). awake w"
    using set_update_memI [OF i'(1)] by (force simp: awake_def)
  ultimately show ?thesis
    using d o o' by (auto simp: pool_inv_def set_worker_def dest!: set_update_cases)
qed

lemma asleep_owner: "pool_inv n s \<Longrightarrow> worker_is s i Asleep \<Longrightarrow> owner s \<notin> {Joining, Gone}"
  using pool_invD(6) by (metis nth_mem worker_is_def)

lemma nobody_asleep:
  assumes "pool_inv n s" "0 < n" "Asleep \<notin> set (workerThreads s)" "\<not> stop s"
  shows "\<exists>w \<in> set (workerThreads s). awake w"
proof -
  from assms(1,2) have ws: "workerThreads s ! 0 \<in> set (workerThreads s)" by (simp add: pool_inv_def)
  moreover have "workerThreads s ! 0 \<noteq> Exited" using pool_invD(5) [OF assms(1)] assms(4) ws by metis
  moreover have "workerThreads s ! 0 \<noteq> Asleep" using assms(3) ws by metis
  ultimately show ?thesis by (intro bexI [of _ "workerThreads s ! 0"]) (simp_all add: awake_iff)
qed

lemma pool_step_inv: "pool_inv n s \<Longrightarrow> pool_step e s = Some s' \<Longrightarrow> pool_inv n s'"
proof (cases e)
  case (Push t)
  moreover assume "pool_inv n s" "pool_step e s = Some s'"
  ultimately show ?thesis by (auto simp: pool_inv_def split: if_splits)
next
  case (NotifyOne i)
  moreover assume "pool_inv n s" "pool_step e s = Some s'"
  ultimately show ?thesis by (auto split: if_splits intro: wake_one_inv)
next
  case NotifyNone
  moreover assume a: "pool_inv n s" "pool_step e s = Some s'"
  ultimately have o: "owner s = Notifying" "Asleep \<notin> set (workerThreads s)" "s' = s\<lparr>owner := Open\<rparr>"
    by (auto split: if_splits)
  moreover have "\<not> stop s" using pool_invD(4) [OF a(1)] o(1) by simp
  ultimately show ?thesis using a(1) nobody_asleep [OF a(1)] by (auto simp: pool_inv_def)
next
  case (Spurious i)
  moreover assume a: "pool_inv n s" "pool_step e s = Some s'"
  ultimately have w: "worker_is s i Asleep" and s': "s' = set_worker i Checking s" by (auto split: if_splits)
  have "pool_inv n ((set_worker i Checking s)\<lparr>owner := owner s\<rparr>)"
    using a(1) w asleep_owner [OF a(1) w] by (intro wake_one_inv) auto
  then show ?thesis by (simp add: s' set_worker_def)
next
  case (Check i)
  moreover assume "pool_inv n s" "pool_step e s = Some s'"
  ultimately show ?thesis by (auto split: if_splits intro: check_inv)
next
  case (Finish i)
  moreover assume "pool_inv n s" "pool_step e s = Some s'"
  ultimately show ?thesis by (auto split: if_splits worker.splits intro: finish_inv)
next
  case SetStop
  moreover assume "pool_inv n s" "pool_step e s = Some s'"
  ultimately show ?thesis by (auto simp: pool_inv_def split: if_splits)
next
  case NotifyAll
  moreover assume a: "pool_inv n s" "pool_step e s = Some s'"
  ultimately have o: "owner s = Stopping" and s': "s' = s\<lparr>workerThreads := map wake (workerThreads s), owner := Joining\<rparr>"
    by (auto split: if_splits)
  have ex: "Exited \<in> set (map wake (workerThreads s)) \<Longrightarrow> Exited \<in> set (workerThreads s)"
    and sl: "Asleep \<notin> set (map wake (workerThreads s))"
    by (auto simp: wake_def split: worker.splits)
  have aw: "\<exists>w \<in> set (map wake (workerThreads s)). awake w" if "clientTasks s \<noteq> []" "0 < n"
  proof -
    have "workerThreads s ! 0 \<in> set (workerThreads s)" using pool_invD(1) [OF a(1)] that(2) by simp
    moreover have "workerThreads s ! 0 \<noteq> Exited" using pool_invD(5) [OF a(1)] that(1) calculation by metis
    ultimately show ?thesis
      by (intro bexI [of _ "wake (workerThreads s ! 0)"])
         (auto simp: awake_def wake_def split: worker.splits)
  qed
  show ?thesis
    using pool_invD [OF a(1)] o ex sl aw by (auto simp: s' pool_inv_def simp del: set_map)
next
  case Join
  moreover assume "pool_inv n s" "pool_step e s = Some s'"
  ultimately show ?thesis by (auto simp: pool_inv_def split: if_splits)
qed

lemma new_pool_inv: "pool_inv n (new_pool n)"
  by (auto simp: pool_inv_def new_pool_def) (induction n; simp)

section \<open>Progress\<close>

text \<open>What the threads do on their own: everything but calls by the owner and spurious wake-ups.\<close>

fun progress :: "'a event \<Rightarrow> bool" where
  "progress (Push t) = False" | "progress SetStop = False" | "progress (Spurious i) = False"
| "progress e = True"

definition quiet :: "'a pool \<Rightarrow> bool" where
  "quiet s \<longleftrightarrow> (\<forall>e. progress e \<longrightarrow> pool_step e s = None)"

lemma quietD: "quiet s \<Longrightarrow> progress e \<Longrightarrow> pool_step e s = None"
  by (simp add: quiet_def)

fun worker_work :: "'a worker \<Rightarrow> nat" where
  "worker_work (Running t) = 2" | "worker_work Exited = 0" | "worker_work w = 1"

fun owner_work :: "owner \<Rightarrow> nat" where
  "owner_work Stopping = 2" | "owner_work Joining = 1" | "owner_work _ = 0"

text \<open>The steps that are left once the destructor has been called.\<close>

definition pool_work :: "'a pool \<Rightarrow> nat" where
  "pool_work s = 2 * length (clientTasks s) + sum_list (map worker_work (workerThreads s)) + owner_work (owner s)"

lemma work_update:
  "i < length ws \<Longrightarrow>
    sum_list (map worker_work (ws[i := w])) + worker_work (ws ! i) = sum_list (map worker_work ws) + worker_work w"
  by (induction ws arbitrary: i) (auto simp: nth_Cons split: nat.splits)

lemma work_wake [simp]: "sum_list (map worker_work (map wake ws)) = sum_list (map worker_work ws)"
proof -
  have "map worker_work (map wake ws) = map worker_work ws" by (auto simp: wake_def split: worker.splits)
  then show ?thesis by (simp only:)
qed

lemma check_work:
  assumes "stop s" "worker_is s i Checking"
  shows "pool_work (check i s) < pool_work s"
proof -
  have i: "i < length (workerThreads s)" "workerThreads s ! i = Checking" using assms(2) by (simp_all add: worker_is_def)
  show ?thesis
  proof (cases "clientTasks s")
    case Nil
    then show ?thesis
      using work_update [OF i(1), of Exited] i(2) assms(1) by (simp add: check_def set_worker_def pool_work_def)
  next
    case (Cons t ts)
    then show ?thesis
      using work_update [OF i(1), of "Running t"] i(2) by (simp add: check_def set_worker_def pool_work_def)
  qed
qed

lemma finish_work:
  assumes "i < length (workerThreads s)" "workerThreads s ! i = Running t"
  shows "pool_work (set_worker i Checking (s\<lparr>finished := f\<rparr>)) < pool_work s"
  using work_update [OF assms(1), of Checking] assms(2) by (simp add: set_worker_def pool_work_def)

lemma pool_step_work:
  assumes "pool_inv n s" "stop s" "progress e" "pool_step e s = Some s'"
  shows "pool_work s' < pool_work s"
proof -
  have "owner s \<noteq> Open" "owner s \<noteq> Notifying" using pool_invD(4) [OF assms(1)] assms(2) by auto
  with assms(2-4) have "(\<exists>i. worker_is s i Checking \<and> s' = check i s) \<or>
    (\<exists>i t f. i < length (workerThreads s) \<and> workerThreads s ! i = Running t \<and> s' = set_worker i Checking (s\<lparr>finished := f\<rparr>)) \<or>
    owner s = Stopping \<and> s' = s\<lparr>workerThreads := map wake (workerThreads s), owner := Joining\<rparr> \<or>
    owner s = Joining \<and> s' = s\<lparr>owner := Gone\<rparr>"
    by (cases e) (auto split: if_splits worker.splits)
  then show ?thesis
    using check_work [OF assms(2)] finish_work by (elim disjE exE conjE) (simp_all add: pool_work_def del: map_map)
qed

lemma pool_step_stop: "stop s \<Longrightarrow> pool_step e s = Some s' \<Longrightarrow> stop s'"
  by (cases e) (auto simp: check_def set_worker_def split: if_splits worker.splits list.splits)

interpretation pool: terminating_machine pool_step "pool_inv n" progress pool_work stop for n
  by unfold_locales (blast intro: pool_step_inv pool_step_stop pool_step_work)+

lemma pool_run_inv: "pool_run n es = Some s \<Longrightarrow> pool_inv n s"
  unfolding pool_run_def using pool.run_inv new_pool_inv by blast

text \<open>A quiet pool: the owner is not in the middle of a call and no worker can move.\<close>

lemma quiet_workers:
  assumes "quiet s" "i < length (workerThreads s)"
  shows "workerThreads s ! i = Asleep \<or> workerThreads s ! i = Exited"
proof (cases "workerThreads s ! i")
  case Checking
  then have "pool_step (Check i) s \<noteq> None" using assms(2) by (simp add: worker_is_def)
  with quietD [OF assms(1), of "Check i"] show ?thesis by simp
next
  case (Running t)
  then have "pool_step (Finish i) s \<noteq> None" using assms(2) by simp
  with quietD [OF assms(1), of "Finish i"] show ?thesis by simp
qed simp_all

lemma quiet_owner:
  assumes inv: "pool_inv n s" and q: "quiet s"
  shows "owner s = Open \<or> owner s = Gone"
proof (cases "owner s")
  case Notifying
  have "\<exists>e. progress e \<and> pool_step e s \<noteq> None"
  proof (cases "Asleep \<in> set (workerThreads s)")
    case True
    then obtain i where "worker_is s i Asleep" by (auto simp: worker_is_def in_set_conv_nth)
    with Notifying show ?thesis by (intro exI [of _ "NotifyOne i"]) simp
  next
    case False
    with Notifying show ?thesis by (intro exI [of _ NotifyNone]) simp
  qed
  then obtain e where e: "progress e" "pool_step e s \<noteq> None" by blast
  from quietD [OF q e(1)] e(2) show ?thesis by simp
next
  case Stopping
  then have "pool_step NotifyAll s \<noteq> None" by simp
  with quietD [OF q, of NotifyAll] show ?thesis by simp
next
  case Joining
  then have "Asleep \<notin> set (workerThreads s)" using pool_invD(6) [OF inv] by simp
  then have "set (workerThreads s) \<subseteq> {Exited}"
    using quiet_workers [OF q] by (metis in_set_conv_nth insertCI subsetI)
  with Joining have "pool_step Join s \<noteq> None" by simp
  with quietD [OF q, of Join] show ?thesis by simp
qed simp_all

lemma running_none: "(\<And>w. w \<in> set ws \<Longrightarrow> w = Asleep \<or> w = Exited) \<Longrightarrow> running ws = []"
proof (induction ws)
  case (Cons w ws)
  then show ?case by (cases w) fastforce+
qed simp

lemma quiet_done:
  assumes inv: "pool_inv n s" and "0 < n" "quiet s"
  shows "clientTasks s = [] \<and> mset (finished s) = mset (submitted s)"
proof -
  have ws: "w = Asleep \<or> w = Exited" if "w \<in> set (workerThreads s)" for w
    using that quiet_workers [OF assms(3)] by (metis in_set_conv_nth)
  have "clientTasks s = []"
    using pool_invD(8) [OF inv _ assms(2)] quiet_owner [OF inv assms(3)] ws unfolding awake_iff by fastforce
  with pool_invD(2,3) [OF inv] running_none [OF ws] show ?thesis by simp
qed

section \<open>Properties\<close>

text \<open>C31 In every reachable state of the pool the tasks have been started in the order in which they
  were enqueued, each once, and the ones started and not finished are running on a worker.\<close>

theorem pool_fifo:
  assumes "pool_run n es = Some s"
  shows "submitted s = started s @ clientTasks s \<and>
    mset (started s) = mset (finished s) + mset (running (workerThreads s)) \<and> length (workerThreads s) = n"
  using pool_run_inv [OF assms] by (simp add: pool_inv_def)

theorem pool_fifo_witness:
  "\<exists>s. pool_run 2 [Check 0, Push ''q1'', NotifyOne 0, Push ''q2'', NotifyNone, Check 1] = Some s \<and>
     submitted s = started s @ clientTasks s \<and> running (workerThreads s) = [''q1''] \<and> clientTasks s = [''q2'']"
proof -
  have r: "pool_run 2 [Check 0, Push ''q1'', NotifyOne 0, Push ''q2'', NotifyNone, Check 1] =
    Some \<lparr>clientTasks = [''q2''], stop = False, workerThreads = [Checking, Running ''q1''], owner = Open,
      submitted = [''q1'', ''q2''], started = [''q1''], finished = []\<rparr>"
    by code_simp
  from r pool_fifo [OF r] show ?thesis by auto
qed

text \<open>C32 No wake-up is lost: whenever the pool comes to rest (no worker can move and the owner is not
  inside a call), every task that was enqueued has been executed, once.\<close>

theorem pool_rests_when_done:
  assumes "pool_run n es = Some s" "0 < n" "quiet s"
  shows "clientTasks s = [] \<and> mset (finished s) = mset (submitted s) \<and> (owner s = Open \<or> owner s = Gone)"
  using quiet_done [OF pool_run_inv [OF assms(1)] assms(2,3)] quiet_owner [OF pool_run_inv [OF assms(1)] assms(3)] by blast

text \<open>C33 The destructor returns: once it has been called, the threads can make at most
  \<open>pool_work\<close> further steps, and when they come to rest all workers have been joined and every task
  has been executed.\<close>

theorem destructor_returns:
  assumes "pool_run n es = Some s" "stop s" "0 < n"
    and "run pool_step es' s = Some s'" "list_all progress es'"
  shows "length es' \<le> pool_work s \<and>
    (quiet s' \<longrightarrow> owner s' = Gone \<and> set (workerThreads s') \<subseteq> {Exited} \<and> mset (finished s') = mset (submitted s'))"
proof -
  note inv = pool_run_inv [OF assms(1)]
  have b: "length es' \<le> pool_work s" using pool.run_bound [OF assms(4) inv assms(2,5)] by simp
  have inv': "pool_inv n s'" using pool.run_inv [OF assms(4) inv] .
  have "stop s'"
    using assms(4,2) by (induction es' arbitrary: s) (auto split: option.splits dest: pool_step_stop)
  then have "owner s' = Gone" if "quiet s'" using quiet_owner [OF inv' that] pool_invD(4) [OF inv'] by auto
  then show ?thesis using b pool_invD(7) [OF inv'] quiet_done [OF inv' assms(3)] by blast
qed

definition rested :: "string pool" where
  "rested = \<lparr>clientTasks = [], stop = False, workerThreads = [Asleep], owner = Open,
     submitted = [''q1''], started = [''q1''], finished = [''q1'']\<rparr>"

lemma rested_quiet: "quiet rested"
proof -
  have "pool_step e rested = None" if "progress e" for e
    using that by (cases e) (auto simp: rested_def worker_is_def)
  then show ?thesis by (simp add: quiet_def)
qed

theorem pool_rests_when_done_witness:
  "pool_run 1 [Push ''q1'', NotifyNone, Check 0, Finish 0, Check 0] = Some rested \<and>
     mset (finished rested) = mset (submitted rested)"
proof -
  have r: "pool_run 1 [Push ''q1'', NotifyNone, Check 0, Finish 0, Check 0] = Some rested" by code_simp
  from r pool_rests_when_done [OF r _ rested_quiet] show ?thesis by simp
qed

definition stopping_pool :: "string pool" where
  "stopping_pool = \<lparr>clientTasks = [''q1''], stop = True, workerThreads = [Checking], owner = Stopping,
     submitted = [''q1''], started = [], finished = []\<rparr>"

theorem destructor_returns_witness:
  "\<exists>s'. run pool_step [Check 0, Finish 0, NotifyAll, Check 0, Join] stopping_pool = Some s' \<and>
     (5::nat) \<le> pool_work stopping_pool \<and> owner s' = Gone"
proof -
  have r: "pool_run 1 [Push ''q1'', NotifyNone, SetStop] = Some stopping_pool" by code_simp
  have s: "stop stopping_pool" by (simp add: stopping_pool_def)
  have r': "run pool_step [Check 0, Finish 0, NotifyAll, Check 0, Join] stopping_pool =
    Some (stopping_pool\<lparr>clientTasks := [], workerThreads := [Exited], owner := Gone, started := [''q1''], finished := [''q1'']\<rparr>)"
    by code_simp
  from destructor_returns [OF r s _ r'] r' show ?thesis by simp
qed

end
