(* ===== verification/Client_Input.thy ===== *)
theory Client_Input
  imports Client_Config Transform_Helpers
begin

text \<open>
  The interactive part of \<open>src/client/DBClient.cpp\<close>: the line editor that collects a query from the
  terminal, SQL files, the history, and the main loop that hands queries to the pipeline or to the
  thread pool. Typed bytes are a list that ends with the end of the input; what the client prints is
  left out, as are the interrupts.
\<close>

section \<open>Helpers\<close>

definition equalsIgnoreCase :: "string \<Rightarrow> string \<Rightarrow> bool" where
  "equalsIgnoreCase a b \<longleftrightarrow> list_all2 (\<lambda>x y. lower_char x = lower_char y) a b"

definition file_blank :: "char \<Rightarrow> bool" where
  "file_blank c \<longleftrightarrow> c \<in> {CHR '' '', CHR 0x09, CHR 0x0A, CHR 0x0D}"

definition trimFileQuery :: "string \<Rightarrow> string" where
  "trimFileQuery s = (let t = dropWhile file_blank s in rev (dropWhile file_blank (rev t)))"

text \<open>The loop over the characters of an SQL file: a query ends at a semicolon, empty ones are skipped,
  and what follows the last semicolon is not kept.\<close>

fun split_queries :: "string \<Rightarrow> string \<Rightarrow> string list" where
  "split_queries cur [] = []"
| "split_queries cur (c # cs) =
     (if c = CHR '';'' then
        let q = trimFileQuery cur in if q = [] then split_queries [] cs else q # split_queries [] cs
      else split_queries (cur @ [c]) cs)"

text \<open>\<open>files\<close> is the content of the files that can be opened; another one reads as empty.\<close>

type_synonym files = "string \<Rightarrow> string option"

definition handleSqlFile :: "files \<Rightarrow> string \<Rightarrow> string list" where
  "handleSqlFile files path = split_queries [] (case files path of Some content \<Rightarrow> content | None \<Rightarrow> [])"

definition ends_with :: "string \<Rightarrow> string \<Rightarrow> bool" where
  "ends_with s suf \<longleftrightarrow> length suf \<le> length s \<and> drop (length s - length suf) s = suf"

section \<open>The line editor\<close>

datatype ClientAction = ContinueAction | SendQuery | ExitAction | SqlFile

record client =
  line_buffer :: string
  history :: "string list"
  historyIndex :: nat
  historyFile :: string
  fileQueries :: "string list"
  workItemPlanId :: "64 word"

definition new_client :: client where
  "new_client = \<lparr>line_buffer = [], history = [], historyIndex = 0, historyFile = [], fileQueries = [],
     workItemPlanId = 1\<rparr>"

definition MAX_LENGTH :: nat where
  "MAX_LENGTH = 4096"

definition saveHistory :: "string \<Rightarrow> client \<Rightarrow> client" where
  "saveHistory query s =
     (let h = history s @ [query] in
      s\<lparr>history := h, historyIndex := length h, historyFile := historyFile s @ query @ [CHR 0x0A]\<rparr>)"

definition getNextWorkItemPlanId :: "client \<Rightarrow> 64 word \<times> client" where
  "getNextWorkItemPlanId s = (workItemPlanId s, s\<lparr>workItemPlanId := workItemPlanId s + 1\<rparr>)"

definition history_up :: "client \<Rightarrow> client" where
  "history_up s =
     (if history s \<noteq> [] \<and> 0 < historyIndex s
      then s\<lparr>historyIndex := historyIndex s - 1, line_buffer := history s ! (historyIndex s - 1)\<rparr>
      else s)"

text \<open>The branch for a line feed: an action, or none when the editor goes on reading.\<close>

definition enter_key :: "files \<Rightarrow> client \<Rightarrow> (ClientAction \<times> string) option \<times> client" where
  "enter_key files s =
     (let q = line_buffer s; cleared = s\<lparr>line_buffer := []\<rparr> in
      if equalsIgnoreCase q ''exit'' \<or> equalsIgnoreCase q ''quit'' then (Some (ExitAction, []), cleared)
      else if q = [] then (Some (ContinueAction, []), cleared)
      else if ends_with q ''.sql'' then (Some (SqlFile, []), cleared\<lparr>fileQueries := handleSqlFile files q\<rparr>)
      else if last q \<noteq> CHR '';'' then (None, s\<lparr>line_buffer := q @ '' ''\<rparr>)
      else (Some (SendQuery, q), cleared))"

definition backspace_key :: "client \<Rightarrow> client" where
  "backspace_key s = s\<lparr>line_buffer := butlast (line_buffer s)\<rparr>"

definition tab_key :: "client \<Rightarrow> client" where
  "tab_key s =
     (if line_buffer s \<noteq> [] \<and> last (line_buffer s) \<noteq> CHR '' '' then s\<lparr>line_buffer := line_buffer s @ '' ''\<rparr> else s)"

definition plain_key :: "char \<Rightarrow> client \<Rightarrow> (ClientAction \<times> string) option \<times> client" where
  "plain_key c s =
     (let q = line_buffer s @ [c] in
      if MAX_LENGTH < length q then (Some (ContinueAction, []), s\<lparr>line_buffer := []\<rparr>)
      else (None, s\<lparr>line_buffer := q\<rparr>))"

text \<open>\<open>readQueryInput\<close>: the action, the query to send, the client, and the bytes not read. An escape
  takes the next two bytes; at the end of the input the action is to exit.\<close>

fun readQueryInput :: "files \<Rightarrow> string \<Rightarrow> client \<Rightarrow> ClientAction \<times> string \<times> client \<times> string" where
  "readQueryInput files [] s = (ExitAction, [], s, [])"
| "readQueryInput files (c # cs) s =
     (if c = CHR 0x1B then
        (case cs of
           a # b # rest \<Rightarrow> readQueryInput files rest (if a = CHR ''['' \<and> b = CHR ''A'' then history_up s else s)
         | _ \<Rightarrow> (ExitAction, [], s, []))
      else if c = CHR 0x7F \<or> c = CHR 0x08 then readQueryInput files cs (backspace_key s)
      else if c = CHR 0x0A then
        (case enter_key files s of
           (Some (a, q), s') \<Rightarrow> (a, q, s', cs)
         | (None, s') \<Rightarrow> readQueryInput files cs s')
      else if c = CHR 0x09 then readQueryInput files cs (tab_key s)
      else
        (case plain_key c s of
           (Some (a, q), s') \<Rightarrow> (a, q, s', cs)
         | (None, s') \<Rightarrow> readQueryInput files cs s'))"

declare readQueryInput.simps(2) [simp del]

lemma readQueryInput_reads:
  "readQueryInput files inp s = (a, q, s', rest) \<Longrightarrow> a \<noteq> ExitAction \<Longrightarrow> length rest < length inp"
proof (induction files inp s rule: readQueryInput.induct)
  case (2 files c cs s)
  then show ?case
    by (subst (asm) readQueryInput.simps(2)) (fastforce split: if_splits list.splits prod.splits option.splits)
qed simp

section \<open>The main loop\<close>

text \<open>A query typed at the prompt runs at once; the queries of a file are queued, and take their plan
  numbers when a worker starts them.\<close>

datatype job = RunNow "64 word" string | Enqueue string

definition enqueue_file :: "client \<Rightarrow> job list" where
  "enqueue_file s = map Enqueue (fileQueries s)"

definition handle_action :: "ClientAction \<Rightarrow> string \<Rightarrow> client \<Rightarrow> job list \<times> client" where
  "handle_action a q s = (case a of
     SendQuery \<Rightarrow>
       let (pid, s1) = getNextWorkItemPlanId s in ([RunNow pid q], saveHistory (butlast q) s1)
   | SqlFile \<Rightarrow> (enqueue_file s, s)
   | _ \<Rightarrow> ([], s))"

function client_loop :: "files \<Rightarrow> string \<Rightarrow> client \<Rightarrow> job list \<times> client" where
  "client_loop files inp s =
     (case readQueryInput files inp s of (a, q, s1, rest) \<Rightarrow>
        if a = ExitAction then ([], s1)
        else
          let (js, s2) = handle_action a q s1; (js', s3) = client_loop files rest s2
          in (js @ js', s3))"
  by pat_completeness auto
termination
  by (relation "measure (\<lambda>(_, inp, _). length inp)") (auto dest: readQueryInput_reads [OF sym])

declare client_loop.simps [simp del]

definition mainClientLoop :: "files \<Rightarrow> ClientConfiguration \<Rightarrow> string \<Rightarrow> client \<Rightarrow> job list \<times> client" where
  "mainClientLoop files config inp s =
     (let s0 = (if ends_with (cfg_inputFile config) ''.sql''
                then s\<lparr>fileQueries := handleSqlFile files (cfg_inputFile config)\<rparr> else s);
          js = (if ends_with (cfg_inputFile config) ''.sql'' then enqueue_file s0 else []);
          (js', s') = client_loop files inp s0
      in (js @ js', s'))"

section \<open>Typed queries\<close>

definition plain_char :: "char \<Rightarrow> bool" where
  "plain_char c \<longleftrightarrow> c \<notin> {CHR 0x1B, CHR 0x7F, CHR 0x08, CHR 0x0A, CHR 0x09}"

lemma read_plain:
  assumes "list_all plain_char l" "length (line_buffer s @ l) \<le> MAX_LENGTH"
  shows "readQueryInput files (l @ rest) s = readQueryInput files rest (s\<lparr>line_buffer := line_buffer s @ l\<rparr>)"
  using assms
proof (induction l arbitrary: s)
  case (Cons c l)
  have "plain_key c s = (None, s\<lparr>line_buffer := line_buffer s @ [c]\<rparr>)"
    using Cons.prems(2) by (simp add: plain_key_def)
  moreover have "plain_char c" using Cons.prems(1) by simp
  ultimately have "readQueryInput files ((c # l) @ rest) s = readQueryInput files (l @ rest) (s\<lparr>line_buffer := line_buffer s @ [c]\<rparr>)"
    by (simp add: readQueryInput.simps(2) plain_char_def)
  with Cons show ?case by simp
qed simp

text \<open>A text that a line feed does not submit, and one that it does.\<close>

definition continues :: "string \<Rightarrow> bool" where
  "continues q \<longleftrightarrow> q \<noteq> [] \<and> last q \<noteq> CHR '';'' \<and> \<not> ends_with q ''.sql'' \<and>
     \<not> equalsIgnoreCase q ''exit'' \<and> \<not> equalsIgnoreCase q ''quit''"

lemma read_continue:
  "continues (line_buffer s) \<Longrightarrow>
    readQueryInput files (CHR 0x0A # rest) s = readQueryInput files rest (s\<lparr>line_buffer := line_buffer s @ '' ''\<rparr>)"
  by (simp add: readQueryInput.simps(2) enter_key_def continues_def)

lemma equalsIgnoreCase_last:
  "equalsIgnoreCase a b \<Longrightarrow> a \<noteq> [] \<Longrightarrow> lower_char (last a) = lower_char (last b)"
  unfolding equalsIgnoreCase_def by (cases a rule: rev_cases; cases b rule: rev_cases) (auto simp: list_all2_append2)

lemma ends_with_last: "ends_with q suf \<Longrightarrow> suf \<noteq> [] \<Longrightarrow> last q = last suf"
  unfolding ends_with_def by (metis last_drop diff_less drop_eq_Nil length_greater_0_conv linorder_not_le)

lemma semicolon_word: "last q = CHR '';'' \<Longrightarrow> q \<noteq> [] \<Longrightarrow>
    \<not> ends_with q ''.sql'' \<and> \<not> equalsIgnoreCase q ''exit'' \<and> \<not> equalsIgnoreCase q ''quit''"
  using ends_with_last [of q "''.sql''"] equalsIgnoreCase_last [of q "''exit''"] equalsIgnoreCase_last [of q "''quit''"]
  by (auto simp: lower_char_def Let_def)

lemma read_submit:
  assumes "line_buffer s \<noteq> []" "last (line_buffer s) = CHR '';''"
  shows "readQueryInput files (CHR 0x0A # rest) s = (SendQuery, line_buffer s, s\<lparr>line_buffer := []\<rparr>, rest)"
  using assms semicolon_word [OF assms(2,1)] by (simp add: readQueryInput.simps(2) enter_key_def Let_def)

fun typed :: "string list \<Rightarrow> string" where
  "typed [] = []"
| "typed (l # ls) = l @ CHR 0x0A # typed ls"

fun joined :: "string list \<Rightarrow> string" where
  "joined [] = []"
| "joined [l] = l"
| "joined (l # ls) = l @ '' '' @ joined ls"

text \<open>Lines of ordinary characters, of which only the last one completes a query.\<close>

fun query_lines :: "string \<Rightarrow> string list \<Rightarrow> bool" where
  "query_lines b [] = False"
| "query_lines b [l] = (list_all plain_char l \<and> length (b @ l) \<le> MAX_LENGTH \<and> b @ l \<noteq> [] \<and> last (b @ l) = CHR '';'')"
| "query_lines b (l # ls) =
     (list_all plain_char l \<and> length (b @ l) \<le> MAX_LENGTH \<and> continues (b @ l) \<and> query_lines (b @ l @ '' '') ls)"

lemma read_lines:
  "query_lines (line_buffer s) ls \<Longrightarrow>
    readQueryInput files (typed ls @ rest) s = (SendQuery, line_buffer s @ joined ls, s\<lparr>line_buffer := []\<rparr>, rest)"
proof (induction "line_buffer s" ls arbitrary: s rule: query_lines.induct)
  case (2 l)
  then show ?case by (simp add: read_plain read_submit)
next
  case (3 l l' ls)
  let ?s = "s\<lparr>line_buffer := line_buffer s @ l @ '' ''\<rparr>"
  have "readQueryInput files (typed (l # l' # ls) @ rest) s = readQueryInput files (typed (l' # ls) @ rest) ?s"
    using 3 by (simp add: read_plain read_continue)
  also have "\<dots> = (SendQuery, line_buffer ?s @ joined (l' # ls), ?s\<lparr>line_buffer := []\<rparr>, rest)"
    using 3(2) by (intro 3(1)) simp_all
  finally show ?case by simp
qed simp

text \<open>C37 A query typed over several lines of ordinary characters is submitted when its last line ends
  with a semicolon, exactly as it was typed with the line ends turned into blanks, and nothing of it
  stays in the editor.\<close>

theorem typed_query_submitted:
  assumes "line_buffer s = []" "query_lines [] ls"
  shows "readQueryInput files (typed ls @ rest) s = (SendQuery, joined ls, s, rest)"
  using read_lines [of s ls files rest] assms by simp

theorem typed_query_submitted_witness:
  "readQueryInput (\<lambda>_. None) (typed [''SELECT 1'', ''FROM t;''] @ ''exit'') new_client =
     (SendQuery, ''SELECT 1 FROM t;'', new_client, ''exit'')"
proof -
  have "query_lines [] [''SELECT 1'', ''FROM t;'']"
    by (simp add: plain_char_def MAX_LENGTH_def continues_def ends_with_def equalsIgnoreCase_def)
  from typed_query_submitted [OF _ this, of new_client] show ?thesis by (simp add: new_client_def)
qed

section \<open>The bound on queries\<close>

text \<open>Line feeds add blanks without a check of the length, so the buffer itself is not bounded; what
  is bounded is the text in front of the trailing blanks.\<close>

definition bounded :: "string \<Rightarrow> bool" where
  "bounded b \<longleftrightarrow> (\<exists>p k. b = p @ replicate k CHR '' '' \<and> length p \<le> MAX_LENGTH)"

lemma bounded_short: "length b \<le> MAX_LENGTH \<Longrightarrow> bounded b"
  unfolding bounded_def by (intro exI [of _ b] exI [of _ 0]) simp

lemma bounded_blank: "bounded b \<Longrightarrow> bounded (b @ '' '')"
  unfolding bounded_def by (metis append.assoc replicate_append_same replicate_Suc)

lemma bounded_butlast:
  assumes "bounded b" shows "bounded (butlast b)"
proof -
  from assms obtain p k where b: "b = p @ replicate k CHR '' ''" "length p \<le> MAX_LENGTH" by (auto simp: bounded_def)
  show ?thesis
  proof (cases k)
    case 0
    with b have "length (butlast b) \<le> MAX_LENGTH" by simp
    then show ?thesis by (rule bounded_short)
  next
    case (Suc j)
    then have "b = (p @ replicate j CHR '' '') @ [CHR '' '']" using b(1) by (simp add: replicate_append_same)
    then have "butlast b = p @ replicate j CHR '' ''" by (simp only: butlast_snoc)
    with b(2) show ?thesis unfolding bounded_def by blast
  qed
qed

lemma bounded_submit:
  assumes "bounded b" "last b = CHR '';''" "b \<noteq> []"
  shows "length b \<le> MAX_LENGTH"
proof -
  from assms(1) obtain p k where b: "b = p @ replicate k CHR '' ''" "length p \<le> MAX_LENGTH" by (auto simp: bounded_def)
  have "k = 0"
  proof (cases k)
    case (Suc j)
    then have "b = (p @ replicate j CHR '' '') @ [CHR '' '']" using b(1) by (simp add: replicate_append_same)
    then have "last b = CHR '' ''" by (simp only: last_snoc)
    with assms(2) show ?thesis by simp
  qed
  with b show ?thesis by simp
qed

definition editor_ok :: "client \<Rightarrow> bool" where
  "editor_ok s \<longleftrightarrow> bounded (line_buffer s) \<and> (\<forall>h \<in> set (history s). length h \<le> MAX_LENGTH) \<and>
     historyIndex s \<le> length (history s)"

definition submittable :: "string \<Rightarrow> bool" where
  "submittable q \<longleftrightarrow> q \<noteq> [] \<and> last q = CHR '';'' \<and> length q \<le> MAX_LENGTH"

lemma keys_ok:
  assumes "editor_ok s"
  shows "editor_ok (backspace_key s)" "editor_ok (tab_key s)" "editor_ok (history_up s)"
    "editor_ok (s\<lparr>line_buffer := []\<rparr>)"
    "plain_key c s = (r, s') \<Longrightarrow> editor_ok s' \<and> (\<forall>q. r \<noteq> Some (SendQuery, q))"
    "enter_key files s = (r', s'') \<Longrightarrow> editor_ok s'' \<and> (\<forall>q. r' = Some (SendQuery, q) \<longrightarrow> submittable q)"
proof -
  have s: "bounded (line_buffer s)" "\<forall>h \<in> set (history s). length h \<le> MAX_LENGTH" "historyIndex s \<le> length (history s)"
    using assms by (simp_all add: editor_ok_def)
  show "editor_ok (backspace_key s)" "editor_ok (tab_key s)" "editor_ok (s\<lparr>line_buffer := []\<rparr>)"
    using s bounded_butlast bounded_blank bounded_short [of "[]"] by (simp_all add: editor_ok_def backspace_key_def tab_key_def)
  show "editor_ok (history_up s)"
  proof (cases "0 < historyIndex s")
    case True
    then have "history s ! (historyIndex s - 1) \<in> set (history s)" using s(3) by simp
    with s bounded_short True show ?thesis by (auto simp: editor_ok_def history_up_def)
  next
    case False
    with assms show ?thesis by (simp add: history_up_def)
  qed
  show "editor_ok s' \<and> (\<forall>q. r \<noteq> Some (SendQuery, q))" if "plain_key c s = (r, s')"
    using that s bounded_short by (auto simp: plain_key_def editor_ok_def Let_def split: if_splits)
  show "editor_ok s'' \<and> (\<forall>q. r' = Some (SendQuery, q) \<longrightarrow> submittable q)" if "enter_key files s = (r', s'')"
    using that s bounded_blank bounded_short [of "[]"] bounded_submit [OF s(1)]
    by (auto simp: enter_key_def editor_ok_def submittable_def Let_def split: if_splits)
qed

lemma plan_id_keys [simp]:
  "workItemPlanId (backspace_key s) = workItemPlanId s" "workItemPlanId (tab_key s) = workItemPlanId s"
  "workItemPlanId (history_up s) = workItemPlanId s"
  by (simp_all add: backspace_key_def tab_key_def history_up_def)

lemma plan_id_branches:
  "plain_key c s = (r, s') \<Longrightarrow> workItemPlanId s' = workItemPlanId s"
  "enter_key files s = (r, s') \<Longrightarrow> workItemPlanId s' = workItemPlanId s"
  by (auto simp: plain_key_def enter_key_def Let_def split: if_splits)

lemma read_ok:
  "readQueryInput files inp s = (a, q, s', rest) \<Longrightarrow> editor_ok s \<Longrightarrow>
    editor_ok s' \<and> workItemPlanId s' = workItemPlanId s \<and> (a = SendQuery \<longrightarrow> submittable q)"
proof (induction files inp s rule: readQueryInput.induct)
  case (2 files c cs s)
  note ok = keys_ok [OF "2.prems"(2)]
  consider "c = CHR 0x1B" | "c \<noteq> CHR 0x1B" "c = CHR 0x7F \<or> c = CHR 0x08" | "c = CHR 0x0A"
    | "c \<noteq> CHR 0x1B" "\<not> (c = CHR 0x7F \<or> c = CHR 0x08)" "c \<noteq> CHR 0x0A" "c = CHR 0x09"
    | "c \<noteq> CHR 0x1B" "\<not> (c = CHR 0x7F \<or> c = CHR 0x08)" "c \<noteq> CHR 0x0A" "c \<noteq> CHR 0x09" by blast
  then show ?case
  proof cases
    case 1
    show ?thesis
    proof (cases "\<exists>a b r. cs = a # b # r")
      case True
      then obtain a' b r where cs: "cs = a' # b # r" by blast
      let ?s = "if a' = CHR ''['' \<and> b = CHR ''A'' then history_up s else s"
      have "readQueryInput files r ?s = (a, q, s', rest)" "editor_ok ?s" "workItemPlanId ?s = workItemPlanId s"
        using "2.prems" 1 cs ok(3) by (simp_all add: readQueryInput.simps(2))
      with "2.IH"(1) [OF 1 cs refl] show ?thesis by simp
    next
      case False
      with "2.prems" 1 show ?thesis
        by (auto simp: readQueryInput.simps(2) split: list.splits)
    qed
  next
    case 2
    with "2.prems" ok(1) "2.IH"(2) show ?thesis by (simp add: readQueryInput.simps(2))
  next
    case 3
    obtain r s1 where e: "enter_key files s = (r, s1)" by fastforce
    show ?thesis
    proof (cases r)
      case None
      with "2.prems" 3 e ok(6) [OF e] plan_id_branches(2) [OF e] "2.IH"(3) show ?thesis by (simp add: readQueryInput.simps(2))
    next
      case (Some x)
      with "2.prems" 3 e ok(6) [OF e] plan_id_branches(2) [OF e] show ?thesis by (cases x) (auto simp: readQueryInput.simps(2))
    qed
  next
    case 4
    with "2.prems" ok(2) "2.IH"(4) show ?thesis by (simp add: readQueryInput.simps(2))
  next
    case 5
    obtain r s1 where e: "plain_key c s = (r, s1)" by fastforce
    show ?thesis
    proof (cases r)
      case None
      with "2.prems" 5 e ok(5) [OF e] plan_id_branches(1) [OF e] "2.IH"(5) show ?thesis by (simp add: readQueryInput.simps(2))
    next
      case (Some x)
      with "2.prems" 5 e ok(5) [OF e] plan_id_branches(1) [OF e] show ?thesis by (cases x) (auto simp: readQueryInput.simps(2))
    qed
  qed
qed simp

fun plan_ids :: "job list \<Rightarrow> 64 word list" where
  "plan_ids [] = []"
| "plan_ids (RunNow pid q # js) = pid # plan_ids js"
| "plan_ids (Enqueue q # js) = plan_ids js"

definition runs_ok :: "job list \<Rightarrow> bool" where
  "runs_ok js \<longleftrightarrow> (\<forall>pid q. RunNow pid q \<in> set js \<longrightarrow> submittable q)"

lemma plan_ids_append [simp]: "plan_ids (js @ js') = plan_ids js @ plan_ids js'"
  by (induction js rule: plan_ids.induct) auto

lemma runs_ok_Nil [simp]: "runs_ok []"
  by (simp add: runs_ok_def)

lemma plan_ids_enqueue [simp]: "plan_ids (enqueue_file s) = []" "runs_ok (enqueue_file s)"
proof -
  have "plan_ids (map Enqueue qs) = []" for qs by (induction qs) auto
  then show "plan_ids (enqueue_file s) = []" by (simp add: enqueue_file_def)
  show "runs_ok (enqueue_file s)" by (auto simp: runs_ok_def enqueue_file_def)
qed

definition ids_from :: "64 word \<Rightarrow> nat \<Rightarrow> 64 word list" where
  "ids_from n k = map (\<lambda>i. n + of_nat i) [0..<k]"

lemma ids_from_Suc: "ids_from n (Suc k) = n # ids_from (n + 1) k"
  by (simp add: ids_from_def upt_conv_Cons map_Suc_upt [symmetric] del: upt_Suc)

lemma handle_ok:
  assumes "editor_ok s" "a = SendQuery \<Longrightarrow> submittable q" "handle_action a q s = (js, s')"
  shows "editor_ok s' \<and> runs_ok js \<and>
    (plan_ids js = [] \<and> workItemPlanId s' = workItemPlanId s \<or>
     plan_ids js = [workItemPlanId s] \<and> workItemPlanId s' = workItemPlanId s + 1)"
proof (cases "a = SendQuery")
  case True
  with assms show ?thesis
    by (auto simp: handle_action_def getNextWorkItemPlanId_def saveHistory_def editor_ok_def submittable_def runs_ok_def Let_def)
next
  case False
  with assms show ?thesis
    by (cases a) (auto simp: handle_action_def)
qed

lemma loop_ok:
  "client_loop files inp s = (js, s') \<Longrightarrow> editor_ok s \<Longrightarrow>
    runs_ok js \<and> (\<exists>k. plan_ids js = ids_from (workItemPlanId s) k)"
proof (induction files inp s arbitrary: js s' rule: client_loop.induct)
  case (1 files inp s)
  obtain a q s1 rest where r: "readQueryInput files inp s = (a, q, s1, rest)" by (cases "readQueryInput files inp s") auto
  note ok = read_ok [OF r "1.prems"(2)]
  show ?case
  proof (cases "a = ExitAction")
    case True
    with "1.prems"(1) r have "js = []" by (simp add: client_loop.simps [of files inp s])
    then show ?thesis by (simp add: runs_ok_def ids_from_def exI [of _ 0])
  next
    case False
    obtain j1 s2 where h: "handle_action a q s1 = (j1, s2)" by fastforce
    obtain j2 s3 where l: "client_loop files rest s2 = (j2, s3)" by fastforce
    have js: "js = j1 @ j2" using "1.prems"(1) r False h l by (simp add: client_loop.simps [of files inp s])
    note hk = handle_ok [OF _ _ h]
    have e2: "editor_ok s2" using hk ok by blast
    from "1.IH" [OF r [symmetric] refl refl False h [symmetric] refl l e2] obtain k where
      k: "runs_ok j2" "plan_ids j2 = ids_from (workItemPlanId s2) k" by blast
    have runs: "runs_ok js" using hk ok k(1) js by (auto simp: runs_ok_def)
    consider "plan_ids j1 = []" "workItemPlanId s2 = workItemPlanId s"
      | "plan_ids j1 = [workItemPlanId s]" "workItemPlanId s2 = workItemPlanId s + 1"
      using hk ok by fastforce
    then show ?thesis
    proof cases
      case 1
      with k js runs show ?thesis by auto
    next
      case 2
      then have "plan_ids js = ids_from (workItemPlanId s) (Suc k)" using k(2) js by (simp add: ids_from_Suc)
      with runs show ?thesis by blast
    qed
  qed
qed


definition sample_config :: ClientConfiguration where
  "sample_config = \<lparr>cfg_ip = ''127.0.0.1'', cfg_port = 23232, cfg_inputFile = [], cfg_standalone = True,
     cfg_debug = False, cfg_threadPoolSize = 4, cfg_planDot = False, cfg_semiJoins = False,
     cfg_mergeSubsetSort = False, cfg_grandChildOpt = False, cfg_jsonPlan = False, cfg_jsonPlanFile = [],
     cfg_matType = FillMaterializes\<rparr>"


section \<open>SQL files\<close>

definition no_semicolon :: "string \<Rightarrow> bool" where
  "no_semicolon t \<longleftrightarrow> CHR '';'' \<notin> set t"

definition blank_text :: "string \<Rightarrow> bool" where
  "blank_text t \<longleftrightarrow> list_all file_blank t"

text \<open>A query text: no blank at either end.\<close>

definition query_text :: "string \<Rightarrow> bool" where
  "query_text q \<longleftrightarrow> q \<noteq> [] \<and> \<not> file_blank (hd q) \<and> \<not> file_blank (last q) \<and> no_semicolon q"

definition sql_file :: "(string \<times> string \<times> string) list \<Rightarrow> string" where
  "sql_file xs = concat (map (\<lambda>(w, q, v). w @ q @ v @ '';'') xs)"

lemma split_none: "no_semicolon t \<Longrightarrow> split_queries cur t = []"
  by (induction t arbitrary: cur) (auto simp: no_semicolon_def)

lemma split_first:
  "no_semicolon t \<Longrightarrow> split_queries cur (t @ CHR '';'' # rest) =
    (let q = trimFileQuery (cur @ t) in if q = [] then split_queries [] rest else q # split_queries [] rest)"
  by (induction t arbitrary: cur) (auto simp: no_semicolon_def)

lemma dropWhile_blank: "blank_text w \<Longrightarrow> dropWhile file_blank (w @ t) = dropWhile file_blank t"
  by (induction w) (auto simp: blank_text_def)

lemma trim_query:
  assumes "blank_text w" "query_text q" "blank_text v"
  shows "trimFileQuery (w @ q @ v) = q"
proof -
  have q: "dropWhile file_blank (q @ v) = q @ v" using assms(2) by (cases q) (auto simp: query_text_def)
  have "blank_text (rev v)" using assms(3) by (simp add: blank_text_def list_all_iff)
  then have "dropWhile file_blank (rev (q @ v)) = dropWhile file_blank (rev q)" by (simp add: dropWhile_blank)
  also have "\<dots> = rev q" using assms(2) by (cases q rule: rev_cases) (auto simp: query_text_def)
  finally show ?thesis by (simp add: trimFileQuery_def dropWhile_blank [OF assms(1)] q Let_def)
qed

lemma blank_no_semicolon: "blank_text w \<Longrightarrow> no_semicolon w"
  by (auto simp: blank_text_def no_semicolon_def list_all_iff file_blank_def)

text \<open>C39 An SQL file gives exactly the queries that are written in it: each text in front of a
  semicolon, without the white space around it, in the order of the file; what follows the last
  semicolon is dropped, even when it is a query.\<close>

theorem sql_file_queries:
  assumes "\<forall>(w, q, v) \<in> set xs. blank_text w \<and> query_text q \<and> blank_text v" "no_semicolon tail"
    and "files path = Some (sql_file xs @ tail)"
  shows "handleSqlFile files path = map (\<lambda>(w, q, v). q) xs"
proof -
  have "split_queries [] (sql_file xs @ tail) = map (\<lambda>(w, q, v). q) xs"
    using assms(1)
  proof (induction xs)
    case Nil
    then show ?case by (simp add: sql_file_def split_none [OF assms(2)])
  next
    case (Cons x xs)
    obtain w q v where x: "x = (w, q, v)" by (cases x) auto
    with Cons.prems have ok: "blank_text w" "query_text q" "blank_text v" by auto
    then have "no_semicolon (w @ q @ v)"
      using blank_no_semicolon [OF ok(1)] blank_no_semicolon [OF ok(3)] by (auto simp: query_text_def no_semicolon_def)
    from split_first [OF this, of "[]" "sql_file xs @ tail"] Cons show ?case
      using ok(2) by (simp add: x sql_file_def trim_query [OF ok] query_text_def)
  qed
  then show ?thesis by (simp add: handleSqlFile_def assms(3))
qed

theorem sql_file_queries_witness:
  "handleSqlFile [''a.sql'' \<mapsto> ''q1 ; q2;q3''] ''a.sql'' = [''q1'', ''q2'']"
proof -
  have "\<forall>(w, q, v) \<in> set [([], ''q1'', '' ''), ('' '', ''q2'', [])]. blank_text w \<and> query_text q \<and> blank_text v"
    by (simp add: blank_text_def query_text_def file_blank_def no_semicolon_def)
  from sql_file_queries [OF this, of "''q3''" "[''a.sql'' \<mapsto> ''q1 ; q2;q3'']" "''a.sql''"]
  show ?thesis by (simp add: no_semicolon_def sql_file_def)
qed

end
