(* ===== verification/Tcp_Frames.thy ===== *)
theory Tcp_Frames
  imports Machine
begin

text \<open>
  The message format of \<open>include/server/TCPServer.hpp\<close> and its extraction from the byte stream
  (\<open>src/util/Utility.cpp\<close>), with the receive loops of the client (\<open>src/client/TCPClient.cpp\<close>) and of
  the server (\<open>src/server/TCPServer.cpp\<close>). Memory is a list of bytes, integers are stored in the
  little-endian order of the machines the program runs on. \<open>memcpy\<close> of the leftover to the start of
  the buffer is modelled as the overlap-safe copy.
\<close>

section \<open>Bytes\<close>

type_synonym byte = "8 word"

fun to_le :: "nat \<Rightarrow> nat \<Rightarrow> byte list" where
  "to_le 0 n = []"
| "to_le (Suc k) n = of_nat n # to_le k (n div 256)"

fun from_le :: "byte list \<Rightarrow> nat" where
  "from_le [] = 0"
| "from_le (b # bs) = unat b + 256 * from_le bs"

lemma length_to_le [simp]: "length (to_le k n) = k"
  by (induction k arbitrary: n) auto

lemma from_to_le: "from_le (to_le k n) = n mod 256 ^ k"
proof (induction k arbitrary: n)
  case (Suc k)
  have "from_le (to_le (Suc k) n) = n mod 256 + 256 * (n div 256 mod 256 ^ k)"
    by (simp add: Suc unat_of_nat)
  also have "\<dots> = n mod 256 ^ Suc k"
    by (metis add.commute mod_mult2_eq power_Suc)
  finally show ?case .
qed simp

lemma from_to_le_fits: "n < 256 ^ k \<Longrightarrow> from_le (to_le k n) = n"
  by (simp add: from_to_le)

lemma word32_le: "of_nat (from_le (to_le 4 (unat w))) = (w :: 32 word)"
proof -
  have "unat w < 2 ^ LENGTH(32)" by (rule unsigned_less)
  then show ?thesis by (simp add: from_to_le)
qed

lemma word64_le: "of_nat (from_le (to_le 8 (unat w))) = (w :: 64 word)"
proof -
  have "unat w < 2 ^ LENGTH(64)" by (rule unsigned_less)
  then show ?thesis by (simp add: from_to_le)
qed

section \<open>Messages\<close>

definition TCP_START_DELIM :: "32 word" where
  "TCP_START_DELIM = 0x5ADB0BB1"

text \<open>The enumerations have a fixed underlying type: a field read from the wire can hold any value.\<close>

type_synonym unit_code = "32 word"
type_synonym package_code = "32 word"

record TCPMetaInfo =
  message_delimiter :: "32 word"
  unit_type :: unit_code
  payload_size :: "32 word"
  package_type :: package_code
  src_uuid :: "64 word"
  tgt_uuid :: "64 word"

definition newMetaInfo :: TCPMetaInfo where
  "newMetaInfo = \<lparr>message_delimiter = TCP_START_DELIM, unit_type = 0, payload_size = 0,
     package_type = 0, src_uuid = 0, tgt_uuid = 0\<rparr>"

text \<open>The layout of the struct: no padding, 32 bytes.\<close>

definition header_size :: nat where
  "header_size = 32"

definition header_bytes :: "TCPMetaInfo \<Rightarrow> byte list" where
  "header_bytes i = to_le 4 (unat (message_delimiter i)) @ to_le 4 (unat (unit_type i)) @
     to_le 4 (unat (payload_size i)) @ to_le 4 (unat (package_type i)) @
     to_le 8 (unat (src_uuid i)) @ to_le 8 (unat (tgt_uuid i))"

definition field :: "nat \<Rightarrow> nat \<Rightarrow> byte list \<Rightarrow> nat" where
  "field off k bs = from_le (take k (drop off bs))"

definition read_header :: "byte list \<Rightarrow> TCPMetaInfo" where
  "read_header bs = \<lparr>message_delimiter = of_nat (field 0 4 bs), unit_type = of_nat (field 4 4 bs),
     payload_size = of_nat (field 8 4 bs), package_type = of_nat (field 12 4 bs),
     src_uuid = of_nat (field 16 8 bs), tgt_uuid = of_nat (field 24 8 bs)\<rparr>"

definition bytesize :: "TCPMetaInfo \<Rightarrow> nat" where
  "bytesize i = header_size + unat (payload_size i)"

text \<open>\<open>Utility::serializeItemToMemory\<close> and \<open>TCPClient::textResponse\<close>: the header with the size of the
  payload (narrowed to 32 bits), followed by the payload.\<close>

definition serializeItemToMemory :: "byte list \<Rightarrow> TCPMetaInfo \<Rightarrow> byte list \<times> nat" where
  "serializeItemToMemory item i =
     (header_bytes (i\<lparr>payload_size := of_nat (length item)\<rparr>) @ item, length item + header_size)"

definition textResponse :: "byte list \<Rightarrow> package_code \<Rightarrow> 64 word \<Rightarrow> 64 word \<Rightarrow> byte list" where
  "textResponse txt text_code uuid tgt =
     header_bytes (newMetaInfo\<lparr>package_type := text_code, payload_size := of_nat (length txt),
       src_uuid := uuid, tgt_uuid := tgt\<rparr>) @ txt"

lemma length_header [simp]: "length (header_bytes i) = 32"
  by (simp add: header_bytes_def)

lemma read_header_bytes: "read_header (header_bytes i @ xs) = i"
  by (simp add: read_header_def field_def header_bytes_def word32_le word64_le)

section \<open>Extraction\<close>

text \<open>The scan for the first delimiter. It has no bound: when there is none in the buffer, it leaves
  the allocation (no value). Its result is not used otherwise.\<close>

fun find_delim :: "byte list \<Rightarrow> nat option" where
  "find_delim [] = None"
| "find_delim (b # bs) =
     (if 4 \<le> length (b # bs) \<and> from_le (take 4 (b # bs)) = unat TCP_START_DELIM then Some 0
      else map_option Suc (find_delim bs))"

text \<open>The loop over complete messages; a message whose type has a callback is handed to it. With
  fewer bytes left than a header the loop ends whatever the size field reads.\<close>

type_synonym message = "TCPMetaInfo \<times> byte list"

function extract_loop :: "(package_code \<Rightarrow> bool) \<Rightarrow> byte list \<Rightarrow> message list \<times> byte list" where
  "extract_loop callbacks data =
     (if header_size \<le> length data \<and> bytesize (read_header data) \<le> length data then
        let info = read_header data;
            payload = take (unat (payload_size info)) (drop header_size data);
            (calls, rest) = extract_loop callbacks (drop (bytesize info) data)
        in (if callbacks (package_type info) then (info, payload) # calls else calls, rest)
      else ([], data))"
  by pat_completeness auto
termination
  by (relation "measure (\<lambda>(_, data). length data)") (auto simp: bytesize_def header_size_def)

declare extract_loop.simps [simp del]

definition extractItemsModifyBuffer ::
    "(package_code \<Rightarrow> bool) \<Rightarrow> byte list \<Rightarrow> nat \<Rightarrow> (message list \<times> byte list \<times> nat) option" where
  "extractItemsModifyBuffer callbacks mem received =
     (case find_delim mem of
        None \<Rightarrow> None
      | Some _ \<Rightarrow>
          let (calls, rest) = extract_loop callbacks (take received mem)
          in Some (calls, rest @ drop (length rest) mem, length rest))"

section \<open>The receive loops\<close>

text \<open>\<open>pending\<close> is what the peer has sent and the loop has not read, \<open>delivered\<close> the callbacks invoked
  so far.\<close>

record receiver =
  msg_buffer :: "byte list"
  unprocessed_bytes :: nat
  aborted :: bool
  pending :: "byte list"
  delivered :: "message list"

datatype net_event = Deliver nat | Disconnect | Interrupted

definition connected :: "nat \<Rightarrow> byte list \<Rightarrow> receiver" where
  "connected cap net = \<lparr>msg_buffer = replicate cap 0, unprocessed_bytes = 0, aborted = False,
     pending = net, delivered = []\<rparr>"

text \<open>One \<open>recv\<close> of at most \<open>room\<close> bytes into the buffer behind the leftover, and the extraction. It
  blocks (no value) while nothing is pending, and returns at least one byte otherwise.\<close>

definition receive :: "(package_code \<Rightarrow> bool) \<Rightarrow> nat \<Rightarrow> nat \<Rightarrow> receiver \<Rightarrow> receiver option" where
  "receive callbacks room n s =
     (let chunk = take (min n room) (pending s);
          u = unprocessed_bytes s;
          mem = take u (msg_buffer s) @ chunk @ drop (u + length chunk) (msg_buffer s)
      in if chunk = [] then None
         else case extractItemsModifyBuffer callbacks mem (u + length chunk) of
           None \<Rightarrow> None
         | Some (calls, mem', rest) \<Rightarrow>
             Some (s\<lparr>msg_buffer := mem', unprocessed_bytes := rest,
                     pending := drop (length chunk) (pending s), delivered := delivered s @ calls\<rparr>))"

text \<open>\<open>TCPClient::listenLoop\<close>: it keeps one byte of its buffer free; without room \<open>recv\<close> is asked for
  zero bytes, returns zero and the loop ends as for a closed channel. Every error ends it.\<close>

fun client_listen :: "(package_code \<Rightarrow> bool) \<Rightarrow> nat \<Rightarrow> net_event \<Rightarrow> receiver \<Rightarrow> receiver option" where
  "client_listen callbacks cap (Deliver n) s =
     (let room = cap - 1 - unprocessed_bytes s in
      if aborted s then None
      else if room = 0 then Some (s\<lparr>aborted := True\<rparr>)
      else receive callbacks room n s)"
| "client_listen callbacks cap _ s = (if aborted s then None else Some (s\<lparr>aborted := True\<rparr>))"

text \<open>The server's receiver of a client uses its whole buffer, gives up when it is full, and goes on
  after a temporary error.\<close>

fun server_receive :: "(package_code \<Rightarrow> bool) \<Rightarrow> nat \<Rightarrow> net_event \<Rightarrow> receiver \<Rightarrow> receiver option" where
  "server_receive callbacks cap (Deliver n) s =
     (let room = cap - unprocessed_bytes s in
      if aborted s then None
      else if room = 0 then Some (s\<lparr>aborted := True\<rparr>)
      else receive callbacks room n s)"
| "server_receive callbacks cap Disconnect s = (if aborted s then None else Some (s\<lparr>aborted := True\<rparr>))"
| "server_receive callbacks cap Interrupted s = (if aborted s then None else Some s)"

definition client_buffer :: nat where
  "client_buffer = 1024 * 1024 * 2"

definition server_buffer :: nat where
  "server_buffer = 1024 * 1024 * 64"

section \<open>A stream of messages\<close>

definition frame :: "message \<Rightarrow> byte list" where
  "frame m = header_bytes (fst m) @ snd m"

definition stream :: "message list \<Rightarrow> byte list" where
  "stream ms = concat (map frame ms)"

text \<open>A message as the senders build it, small enough for a buffer of \<open>cap\<close> bytes.\<close>

definition sendable :: "nat \<Rightarrow> message \<Rightarrow> bool" where
  "sendable cap m \<longleftrightarrow> message_delimiter (fst m) = TCP_START_DELIM \<and>
     unat (payload_size (fst m)) = length (snd m) \<and> length (frame m) + 4 \<le> cap"

lemma length_frame: "length (frame m) = 32 + length (snd m)"
  by (simp add: frame_def)

lemma stream_simps [simp]: "stream [] = []" "stream (m # ms) = frame m @ stream ms"
  by (simp_all add: stream_def)

lemma read_frame:
  assumes "sendable cap m"
  shows "read_header (frame m @ xs) = fst m" "bytesize (fst m) = length (frame m)"
  using assms by (simp_all add: frame_def read_header_bytes sendable_def bytesize_def header_size_def)

lemma extract_frame:
  assumes "sendable cap m"
  shows "extract_loop cb (frame m @ xs) =
    (let (calls, rest) = extract_loop cb xs in (if cb (package_type (fst m)) then m # calls else calls, rest))"
proof -
  have len: "length (snd m) = unat (payload_size (fst m))" using assms by (simp add: sendable_def)
  have t: "take (unat (payload_size (fst m))) (drop 32 (frame m @ xs)) = snd m"
    by (simp add: frame_def flip: len)
  have d: "drop (bytesize (fst m)) (frame m @ xs) = xs"
    using read_frame(2) [OF assms] by simp
  show ?thesis
    unfolding extract_loop.simps [of cb "frame m @ xs"] read_frame(1) [OF assms]
    using t d read_frame(2) [OF assms] by (simp add: header_size_def length_frame Let_def split: prod.splits)
qed

text \<open>A proper prefix of a message is left over: not even its size field is needed for that when the
  header itself is incomplete.\<close>

lemma extract_partial:
  assumes "sendable cap m" "data @ net = frame m @ xs" "length data < length (frame m)"
  shows "extract_loop cb data = ([], data)"
proof (cases "32 \<le> length data")
  case True
  have "data = take (length data) (frame m)"
    using assms(2,3) by (metis append_eq_conv_conj less_imp_le_nat take_append diff_is_0_eq take_0 append_Nil2)
  with True obtain ys where "data = header_bytes (fst m) @ ys"
    by (metis append_take_drop_id frame_def length_header take_append take_all)
  then have "read_header data = fst m" by (simp add: read_header_bytes)
  with read_frame(2) [OF assms(1)] assms(3) show ?thesis
    by (subst extract_loop.simps) simp
next
  case False
  then show ?thesis by (subst extract_loop.simps) (simp add: header_size_def)
qed

lemma extract_prefix:
  assumes "\<forall>m \<in> set ms. sendable cap m" "data @ net = stream ms"
  shows "\<exists>k \<le> length ms. \<exists>rest. extract_loop cb data = (filter (\<lambda>m. cb (package_type (fst m))) (take k ms), rest) \<and>
    rest @ net = stream (drop k ms) \<and> (rest = [] \<or> k < length ms \<and> length rest < length (frame (ms ! k)))"
  using assms
proof (induction ms arbitrary: data)
  case Nil
  then show ?case by (subst extract_loop.simps) (simp add: header_size_def)
next
  case (Cons m ms)
  have m: "sendable cap m" using Cons.prems(1) by simp
  show ?case
  proof (cases "length data < length (frame m)")
    case True
    then have "extract_loop cb data = ([], data)"
      using extract_partial [OF m] Cons.prems(2) by simp
    with True Cons.prems(2) show ?thesis by (intro exI [of _ 0]) auto
  next
    case False
    have "take (length (frame m)) data = frame m"
      using False arg_cong [OF Cons.prems(2), of "take (length (frame m))"] by simp
    then obtain data' where d: "data = frame m @ data'" by (metis append_take_drop_id)
    with Cons.prems(2) have d: "data = frame m @ data'" "data' @ net = stream ms" by simp_all
    from Cons.IH [OF _ d(2)] Cons.prems(1) obtain k rest where
      k: "k \<le> length ms" "extract_loop cb data' = (filter (\<lambda>m. cb (package_type (fst m))) (take k ms), rest)"
        "rest @ net = stream (drop k ms)" "rest = [] \<or> k < length ms \<and> length rest < length (frame (ms ! k))"
      by auto
    then show ?thesis
      unfolding d(1) extract_frame [OF m] by (intro exI [of _ "Suc k"]) auto
  qed
qed

section \<open>Delivery\<close>

lemma delim_first: "frame m @ xs = b # bs \<Longrightarrow> sendable cap m \<Longrightarrow> take 4 (b # bs) = to_le 4 (unat TCP_START_DELIM)"
  by (metis append.assoc append_eq_conv_conj frame_def header_bytes_def length_to_le sendable_def)

lemma find_delim_stream:
  assumes "\<forall>m \<in> set ms. sendable cap m" "buf @ net = stream ms" "4 \<le> length buf"
  shows "find_delim (buf @ xs) = Some 0"
proof -
  obtain m ms' where ms: "ms = m # ms'" using assms(2,3) by (cases ms) auto
  have m: "message_delimiter (fst m) = TCP_START_DELIM" using assms(1) ms by (simp add: sendable_def)
  have "take 4 (buf @ net) = to_le 4 (unat TCP_START_DELIM)"
    unfolding assms(2) ms by (simp add: frame_def header_bytes_def m)
  then have t: "take 4 (buf @ xs) = to_le 4 (unat TCP_START_DELIM)" using assms(3) by simp
  have f: "from_le (to_le 4 (unat TCP_START_DELIM)) = unat TCP_START_DELIM"
    by (rule from_to_le_fits) (simp add: TCP_START_DELIM_def)
  obtain b bs where b: "buf @ xs = b # bs" using assms(3) by (cases buf) auto
  have "4 \<le> length (b # bs)" using assms(3) unfolding b [symmetric] by simp
  with t f show ?thesis unfolding b by simp
qed

text \<open>The state of a receiver between two reads: the leftover and what is pending are the rest of the
  stream, and the leftover is an incomplete message.\<close>

definition rx_inv :: "(package_code \<Rightarrow> bool) \<Rightarrow> nat \<Rightarrow> message list \<Rightarrow> receiver \<Rightarrow> bool" where
  "rx_inv callbacks cap ms s \<longleftrightarrow> length (msg_buffer s) = cap \<and> \<not> aborted s \<and>
     (\<exists>done todo. ms = done @ todo \<and> delivered s = filter (\<lambda>m. callbacks (package_type (fst m))) done \<and>
        unprocessed_bytes s \<le> cap \<and> take (unprocessed_bytes s) (msg_buffer s) @ pending s = stream todo \<and>
        (unprocessed_bytes s = 0 \<or> todo \<noteq> [] \<and> unprocessed_bytes s < length (frame (hd todo))))"

lemma connected_inv: "rx_inv callbacks cap ms (connected cap (stream ms))"
  by (simp add: rx_inv_def connected_def exI [of _ "[]"])

lemma extract_length: "length (snd (extract_loop cb data)) \<le> length data"
proof (induction cb data rule: extract_loop.induct)
  case (1 cb data)
  show ?case
  proof (cases "header_size \<le> length data \<and> bytesize (read_header data) \<le> length data")
    case True
    from "1.IH" [OF True refl refl] True show ?thesis
      by (subst extract_loop.simps) (auto simp: Let_def split: prod.splits)
  next
    case False
    then show ?thesis unfolding extract_loop.simps [of cb data] by (simp only: if_False snd_conv order_refl)
  qed
qed

lemma take_then_drop: "take k xs @ drop (length (take k xs)) xs = xs"
  by (cases "k \<le> length xs") simp_all

lemma receive_step:
  assumes ok: "\<forall>m \<in> set ms. sendable lim m" "lim \<le> cap" and inv: "rx_inv callbacks cap ms s"
    and net: "pending s \<noteq> []" "4 \<le> n" and room: "room = lim - unprocessed_bytes s"
  shows "\<exists>s'. receive callbacks room n s = Some s' \<and> rx_inv callbacks cap ms s' \<and>
    length (pending s') < length (pending s) \<and> 0 < room"
proof -
  define u where "u = unprocessed_bytes s"
  define chunk where "chunk = take (min n room) (pending s)"
  define buf where "buf = take u (msg_buffer s) @ chunk"
  define mem where "mem = buf @ drop (u + length chunk) (msg_buffer s)"
  from inv obtain dn todo where i: "length (msg_buffer s) = cap" "\<not> aborted s" "ms = dn @ todo"
      "delivered s = filter (\<lambda>m. callbacks (package_type (fst m))) dn" "u \<le> cap"
      "take u (msg_buffer s) @ pending s = stream todo" "u = 0 \<or> todo \<noteq> [] \<and> u < length (frame (hd todo))"
    by (auto simp: rx_inv_def u_def)
  have todo: "\<forall>m \<in> set todo. sendable lim m" using ok(1) i(3) by simp
  have ne: "todo \<noteq> []" using i(6) net(1) by (cases todo) auto
  then have big: "length (frame (hd todo)) + 4 \<le> lim" "32 \<le> length (frame (hd todo))"
    using todo by (auto simp: sendable_def length_frame)
  then have r4: "4 \<le> room" using i(7) room unfolding u_def by auto
  have lbuf: "length buf = u + length chunk" using i(1,5) by (simp add: buf_def)
  have fits: "u + length chunk \<le> cap" using room ok(2) i(5) by (simp add: chunk_def u_def)
  have "chunk @ drop (length chunk) (pending s) = pending s"
    unfolding chunk_def by (rule take_then_drop)
  then have split: "buf @ drop (length chunk) (pending s) = stream todo"
    using i(6) by (simp add: buf_def)
  have "4 \<le> length buf"
  proof (cases "length (pending s) \<le> min n room")
    case True
    then have "buf = stream todo" using i(6) by (simp add: buf_def chunk_def)
    then show ?thesis using ne big(2) by (cases todo) auto
  next
    case False
    then have "length chunk = min n room" unfolding chunk_def length_take by linarith
    then show ?thesis using lbuf r4 net(2) by linarith
  qed
  from find_delim_stream [OF todo split this] have fd: "find_delim mem = Some 0" by (simp add: mem_def)
  from extract_prefix [OF todo split] obtain k rest where k: "k \<le> length todo"
    "extract_loop callbacks buf = (filter (\<lambda>m. callbacks (package_type (fst m))) (take k todo), rest)"
    "rest @ drop (length chunk) (pending s) = stream (drop k todo)"
    "rest = [] \<or> k < length todo \<and> length rest < length (frame (todo ! k))" by blast
  have lrest: "length rest \<le> length buf"
    using extract_length [of callbacks buf] k(2) by simp
  let ?s' = "s\<lparr>msg_buffer := rest @ drop (length rest) mem, unprocessed_bytes := length rest,
      pending := drop (length chunk) (pending s), delivered := delivered s @ filter (\<lambda>m. callbacks (package_type (fst m))) (take k todo)\<rparr>"
  have c: "chunk \<noteq> []" using net r4 by (simp add: chunk_def)
  have "take (u + length chunk) mem = buf" using lbuf by (simp add: mem_def)
  then have run: "receive callbacks room n s = Some ?s'"
    using c fd k(2) unfolding receive_def extractItemsModifyBuffer_def
    by (simp add: Let_def mem_def buf_def chunk_def u_def)
  have "rx_inv callbacks cap ms ?s'"
    unfolding rx_inv_def
    using i k lbuf lrest fits
    by (simp, intro conjI exI [of _ "dn @ take k todo"] exI [of _ "drop k todo"]) (auto simp: mem_def hd_drop_conv_nth)
  moreover have "length (pending ?s') < length (pending s)" using c net(1) by (simp add: chunk_def)
  ultimately show ?thesis using run r4 by fastforce
qed

text \<open>Reads go on until nothing is pending, and then no leftover remains.\<close>

lemma reads_finish:
  assumes step: "\<And>n s. 4 \<le> n \<Longrightarrow> pending s \<noteq> [] \<Longrightarrow> rx_inv callbacks cap ms s \<Longrightarrow>
      \<exists>s'. step (Deliver n) s = Some s' \<and> rx_inv callbacks cap ms s' \<and> length (pending s') < length (pending s)"
    and inv: "rx_inv callbacks cap ms s" and ns: "\<forall>n \<in> set ns. 4 \<le> n" "length (pending s) \<le> length ns"
  shows "\<exists>k \<le> length ns. \<exists>s'. run step (map Deliver (take k ns)) s = Some s' \<and> rx_inv callbacks cap ms s' \<and> pending s' = []"
  using inv ns
proof (induction ns arbitrary: s)
  case (Cons n ns)
  show ?case
  proof (cases "pending s = []")
    case True
    with Cons.prems(1) show ?thesis by (intro exI [of _ 0]) simp
  next
    case False
    from step [OF _ False Cons.prems(1)] Cons.prems(2) obtain s1 where
      s1: "step (Deliver n) s = Some s1" "rx_inv callbacks cap ms s1" "length (pending s1) < length (pending s)" by auto
    from Cons.IH [OF s1(2)] s1(3) Cons.prems(2,3) obtain k s' where
      "k \<le> length ns" "run step (map Deliver (take k ns)) s1 = Some s'" "rx_inv callbacks cap ms s'" "pending s' = []" by auto
    with s1(1) show ?thesis by (intro exI [of _ "Suc k"]) auto
  qed
qed (intro exI [of _ 0], simp)

lemma all_delivered:
  assumes "rx_inv callbacks cap ms s" "pending s = []"
  shows "unprocessed_bytes s = 0 \<and> delivered s = filter (\<lambda>m. callbacks (package_type (fst m))) ms"
proof -
  from assms obtain dn todo where i: "ms = dn @ todo" "delivered s = filter (\<lambda>m. callbacks (package_type (fst m))) dn"
    "length (msg_buffer s) = cap" "unprocessed_bytes s \<le> cap" "take (unprocessed_bytes s) (msg_buffer s) = stream todo"
    "unprocessed_bytes s = 0 \<or> todo \<noteq> [] \<and> unprocessed_bytes s < length (frame (hd todo))"
    by (auto simp: rx_inv_def)
  have "length (stream todo) = unprocessed_bytes s" using arg_cong [OF i(5), of length] i(3,4) by simp
  with i(6) have "todo = []" by (cases todo) (auto simp: length_frame)
  with i \<open>length (stream todo) = unprocessed_bytes s\<close> show ?thesis by simp
qed

lemma client_step:
  assumes "\<forall>m \<in> set ms. sendable (cap - 1) m" "rx_inv callbacks cap ms s" "pending s \<noteq> []" "4 \<le> n"
  shows "\<exists>s'. client_listen callbacks cap (Deliver n) s = Some s' \<and> rx_inv callbacks cap ms s' \<and>
    length (pending s') < length (pending s)"
  using receive_step [OF assms(1) _ assms(2-4) refl] assms(2) by (auto simp: Let_def rx_inv_def)

lemma server_step:
  assumes "\<forall>m \<in> set ms. sendable cap m" "rx_inv callbacks cap ms s" "pending s \<noteq> []" "4 \<le> n"
  shows "\<exists>s'. server_receive callbacks cap (Deliver n) s = Some s' \<and> rx_inv callbacks cap ms s' \<and>
    length (pending s') < length (pending s)"
  using receive_step [OF assms(1) _ assms(2-4) refl] assms(2) by (auto simp: Let_def rx_inv_def)

lemma stream_read:
  assumes "\<forall>m \<in> set ms. sendable (cap - 1) m" and "\<forall>n \<in> set ns. 4 \<le> n"
    and "length (stream ms) \<le> length ns"
    and "listen = client_listen callbacks cap \<or> listen = server_receive callbacks cap"
  shows "\<exists>k \<le> length ns. \<exists>s. run listen (map Deliver (take k ns)) (connected cap (stream ms)) = Some s \<and>
    pending s = [] \<and> unprocessed_bytes s = 0 \<and> \<not> aborted s \<and>
    delivered s = filter (\<lambda>m. callbacks (package_type (fst m))) ms"
proof -
  have "\<forall>m \<in> set ms. sendable cap m" using assms(1) by (auto simp: sendable_def)
  then have "\<exists>s'. listen (Deliver n) s = Some s' \<and> rx_inv callbacks cap ms s' \<and> length (pending s') < length (pending s)"
    if "4 \<le> n" "pending s \<noteq> []" "rx_inv callbacks cap ms s" for n s
    using assms(4) client_step [OF assms(1) that(3,2,1)] server_step [OF _ that(3,2,1)] by blast
  note fin = reads_finish [of callbacks cap ms listen, OF this connected_inv assms(2)]
  have "length (pending (connected cap (stream ms))) \<le> length ns" using assms(3) by (simp add: connected_def)
  from fin [OF _ _ _ this] obtain k s where r: "k \<le> length ns"
      "run listen (map Deliver (take k ns)) (connected cap (stream ms)) = Some s"
    and i: "rx_inv callbacks cap ms s" "pending s = []" by blast
  have "\<not> aborted s" using i(1) by (simp add: rx_inv_def)
  with all_delivered [OF i] r i(2) show ?thesis by blast
qed

text \<open>C34 The stream between client and server is reassembled: for any messages that fit the buffer and
  any division of their bytes into reads of at least four bytes, the client's loop (and the server's
  receiver) never runs off its buffer, and once everything is read it has handed every message whose
  type has a callback to it, unchanged, in order and once.\<close>

theorem stream_delivered:
  assumes "\<forall>m \<in> set ms. sendable (cap - 1) m" and "\<forall>n \<in> set ns. 4 \<le> n"
    and "length (stream ms) \<le> length ns"
    and "listen = client_listen callbacks cap \<or> listen = server_receive callbacks cap"
  shows "\<exists>k \<le> length ns. \<exists>s. run listen (map Deliver (take k ns)) (connected cap (stream ms)) = Some s \<and>
    pending s = [] \<and> unprocessed_bytes s = 0 \<and> \<not> aborted s \<and>
    delivered s = filter (\<lambda>m. callbacks (package_type (fst m))) ms"
  by (rule stream_read [OF assms])

text \<open>A header is read back as it was written, and a serialized item is framed by its own size: the
  extraction takes exactly its payload, as long as the payload has fewer than 2^32 bytes.\<close>

lemma serialize_roundtrip:
  assumes "length item < 2 ^ 32" and "serializeItemToMemory item i = (mem, n)"
  shows "length mem = n \<and> read_header mem = i\<lparr>payload_size := of_nat (length item)\<rparr> \<and>
    drop header_size mem = item \<and> bytesize (read_header mem) = n"
  using assms
  by (auto simp: serializeItemToMemory_def read_header_bytes bytesize_def header_size_def unat_of_nat)

text \<open>The scan for a delimiter is not bounded: when the first read of a fresh buffer returns fewer
  than four bytes of a message, the loop reads past its buffer.\<close>

lemma low_byte: "b + 256 * y = (n::nat) \<Longrightarrow> b < 256 \<Longrightarrow> y = n div 256"
  by auto

lemma little_endian_top:
  assumes "b + 256 * (c + 256 * (d + 256 * x)) = (1524304817::nat)" "b < 256" "c < 256" "d < 256"
  shows "x = 90"
  using low_byte [OF low_byte [OF low_byte [OF assms(1,2)] assms(3)] assms(4)] by simp

lemma no_delim: "0x5A \<notin> set mem \<Longrightarrow> find_delim mem = None"
proof (induction mem)
  case (Cons b bs)
  have "from_le (take 4 (b # bs)) \<noteq> unat TCP_START_DELIM" if four: "4 \<le> length (b # bs)"
  proof
    assume e: "from_le (take 4 (b # bs)) = unat TCP_START_DELIM"
    obtain c d x xs where bs: "bs = c # d # x # xs"
      using four by (auto simp: numeral_eq_Suc Suc_le_length_iff)
    have "unat b + 256 * (unat c + 256 * (unat d + 256 * unat x)) = 0x5ADB0BB1"
      using e by (simp add: bs TCP_START_DELIM_def)
    moreover have "unat b < 256" "unat c < 256" "unat d < 256" using unsigned_less [of b] unsigned_less [of c] unsigned_less [of d] by simp_all
    ultimately have "unat x = 90" by (rule little_endian_top)
    then have "of_nat (unat x) = (0x5A :: byte)" by simp
    then have "x = 0x5A" by simp
    with Cons.prems show False by (simp add: bs)
  qed
  with Cons show ?case by auto
qed simp

lemma delim_bytes: "to_le 4 (unat TCP_START_DELIM) = [0xB1, 0x0B, 0xDB, 0x5A]"
proof -
  have "to_le 4 n = [of_nat n, of_nat (n div 256), of_nat (n div 256 div 256), of_nat (n div 256 div 256 div 256)]" for n
  proof -
    have "(4::nat) = Suc (Suc (Suc (Suc 0)))" by simp
    then show ?thesis by (simp only: to_le.simps)
  qed
  then show ?thesis by (simp add: TCP_START_DELIM_def)
qed

lemma delim_byte_last: "n < 4 \<Longrightarrow> 0x5A \<notin> set (take n (to_le 4 (unat TCP_START_DELIM)))"
proof -
  assume "n < 4"
  then consider "n = 0" | "n = 1" | "n = 2" | "n = 3" by linarith
  then show ?thesis by cases (simp_all add: delim_bytes)
qed

text \<open>C36 The scan for a delimiter is not bounded: when the first read of a fresh buffer returns fewer
  than four bytes of a message, both loops read past the end of their buffer.\<close>

theorem short_read_overruns:
  assumes "sendable (cap - 1) m" "0 < n" "n < 4"
  shows "client_listen callbacks cap (Deliver n) (connected cap (stream (m # ms))) = None \<and>
    server_receive callbacks cap (Deliver n) (connected cap (stream (m # ms))) = None"
proof -
  have "36 + length (snd m) \<le> cap - 1" using assms(1) by (simp add: sendable_def length_frame)
  then have cap: "36 < cap" by arith
  have "receive callbacks room n (connected cap (stream (m # ms))) = None" if "4 \<le> room" for room
  proof -
    have "min n room = n" using that assms(3) by simp
    then have chunk: "take (min n room) (stream (m # ms)) = take n (to_le 4 (unat TCP_START_DELIM))"
      using assms by (simp add: frame_def header_bytes_def sendable_def)
    have "0x5A \<notin> set (take n (to_le 4 (unat TCP_START_DELIM)) @ drop (length (take n (to_le 4 (unat TCP_START_DELIM)))) (replicate cap 0))"
      using delim_byte_last [OF assms(3)] by simp
    from no_delim [OF this] show ?thesis
      unfolding receive_def extractItemsModifyBuffer_def
      by (simp add: connected_def chunk Let_def del: stream_simps)
  qed
  then show ?thesis using cap by (simp add: Let_def connected_def)
qed

section \<open>Samples\<close>

definition text_message :: message where
  "text_message = (newMetaInfo\<lparr>package_type := 5, payload_size := 2\<rparr>, [104, 105])"

lemma text_sendable: "sendable 63 text_message"
  by (simp add: text_message_def sendable_def newMetaInfo_def length_frame)

theorem stream_delivered_witness:
  "\<exists>k \<le> 68. \<exists>s. run (client_listen (\<lambda>t. t = 5) 64) (map Deliver (take k (replicate 68 7)))
     (connected 64 (stream [text_message, text_message])) = Some s \<and>
   delivered s = [text_message, text_message]"
proof -
  have "length (stream [text_message, text_message]) \<le> length (replicate 68 (7::nat))"
    by (simp add: length_frame text_message_def)
  with stream_delivered [of "[text_message, text_message]" 64 "replicate 68 7" "client_listen (\<lambda>t. t = 5) 64" "\<lambda>t. t = 5"]
  show ?thesis using text_sendable by (auto simp: text_message_def)
qed

theorem short_read_overruns_witness:
  "client_listen (\<lambda>t. True) 64 (Deliver 2) (connected 64 (stream [text_message])) = None"
  using short_read_overruns [OF _ _ _, of 64 text_message 2 "\<lambda>t. True" "[]"] text_sendable by simp

end
