(* ===== verification/Server_Registry.thy ===== *)
theory Server_Registry
  imports Tcp_Frames
begin

text \<open>
  The registry of connected clients in \<open>src/server/TCPServer.cpp\<close>: the handshake that adds a client,
  the two indexes over the client structures, their removal, and the functions that send to one or
  many clients. A \<open>ClientInfo*\<close> is a number, freeing it empties its place; reading a freed one, or a
  vector past its end, has no value. Which handles still accept data is the parameter \<open>answers\<close>, the
  random choices are given as a list.
\<close>

section \<open>State\<close>

type_synonym cid = nat

record ClientInfo =
  handle :: nat
  cl_type :: unit_code
  uuid :: "64 word"
  prettyName :: string
  cl_abort :: bool

record server =
  clientMap :: "(unit_code \<times> cid list) list"
  clientUuidMap :: "64 word \<rightharpoonup> cid"
  infos :: "cid \<rightharpoonup> ClientInfo"
  next_cid :: nat
  sent :: "nat list"
  closed :: "nat list"

definition new_server :: server where
  "new_server = \<lparr>clientMap = [], clientUuidMap = Map.empty, infos = Map.empty, next_cid = 0, sent = [], closed = []\<rparr>"

text \<open>\<open>clientMap[type]\<close>, an ordered map in which a missing entry is created empty.\<close>

definition vec :: "unit_code \<Rightarrow> server \<Rightarrow> cid list" where
  "vec t s = (case map_of (clientMap s) t of Some v \<Rightarrow> v | None \<Rightarrow> [])"

fun set_vec :: "unit_code \<Rightarrow> cid list \<Rightarrow> (unit_code \<times> cid list) list \<Rightarrow> (unit_code \<times> cid list) list" where
  "set_vec t v [] = [(t, v)]"
| "set_vec t v ((t', v') # m) =
     (if t = t' then (t, v) # m else if t < t' then (t, v) # (t', v') # m else (t', v') # set_vec t v m)"

definition types :: "server \<Rightarrow> unit_code list" where
  "types s = map fst (clientMap s)"

definition entries :: "server \<Rightarrow> (unit_code \<times> cid) list" where
  "entries s = concat (map (\<lambda>(t, v). map (Pair t) v) (clientMap s))"

definition hasClients :: "server \<Rightarrow> bool" where
  "hasClients s \<longleftrightarrow> 0 < sum_list (map (\<lambda>(t, v). length v) (clientMap s))"

definition getClientByUuid :: "64 word \<Rightarrow> server \<Rightarrow> cid option" where
  "getClientByUuid u s = clientUuidMap s u"

definition freeHandle :: "nat \<Rightarrow> server \<Rightarrow> server" where
  "freeHandle h s = s\<lparr>closed := closed s @ [h]\<rparr>"

section \<open>Removal\<close>

text \<open>\<open>removeClient(type, info)\<close>: the uuid is erased, the client released and deleted, its pointer
  taken out of the vector.\<close>

definition removeClient_type :: "unit_code \<Rightarrow> cid \<Rightarrow> server \<Rightarrow> server option" where
  "removeClient_type t i s =
     (let v = vec t s in
      if i \<in> set v then
        case infos s i of
          None \<Rightarrow> None
        | Some c \<Rightarrow> Some ((freeHandle (handle c) s)\<lparr>clientMap := set_vec t (remove1 i v) (clientMap s),
            clientUuidMap := (clientUuidMap s)(uuid c := None), infos := (infos s)(i := None)\<rparr>)
      else Some (s\<lparr>clientMap := set_vec t v (clientMap s)\<rparr>))"

text \<open>\<open>removeClient(info)\<close> looks for the first client with the same handle.\<close>

fun find_handle :: "(cid \<rightharpoonup> ClientInfo) \<Rightarrow> nat \<Rightarrow> (unit_code \<times> cid) list \<Rightarrow> (unit_code \<times> cid) option option" where
  "find_handle info h [] = Some None"
| "find_handle info h ((t, i) # es) = (case info i of
     None \<Rightarrow> None
   | Some c \<Rightarrow> if handle c = h then Some (Some (t, i)) else find_handle info h es)"

definition removeClient :: "cid \<Rightarrow> server \<Rightarrow> server option" where
  "removeClient i s = (case infos s i of
     None \<Rightarrow> None
   | Some c \<Rightarrow> (case find_handle (infos s) (handle c) (entries s) of
       None \<Rightarrow> None
     | Some None \<Rightarrow> Some s
     | Some (Some (t, j)) \<Rightarrow> removeClient_type t j s))"

lemma map_of_set_vec: "map_of (set_vec t v m) t' = (if t' = t then Some v else map_of m t')"
  by (induction m) auto

lemma vec_set_vec [simp]: "vec t' (s\<lparr>clientMap := set_vec t v (clientMap s)\<rparr>) = (if t' = t then v else vec t' s)"
  by (simp add: vec_def map_of_set_vec)

lemma vec_remove:
  assumes "removeClient_type t i s = Some s'"
  shows "vec t s' = remove1 i (vec t s)" "t' \<noteq> t \<Longrightarrow> vec t' s' = vec t' s"
  using assms by (auto simp: removeClient_type_def vec_def freeHandle_def map_of_set_vec Let_def remove1_idem
      split: if_splits option.splits)

section \<open>Sending\<close>

definition log_send :: "nat \<Rightarrow> server \<Rightarrow> server" where
  "log_send h s = s\<lparr>sent := sent s @ [h]\<rparr>"

definition sendTo :: "(nat \<Rightarrow> bool) \<Rightarrow> cid \<Rightarrow> server \<Rightarrow> (bool \<times> server) option" where
  "sendTo answers i s = (case infos s i of
     None \<Rightarrow> None
   | Some c \<Rightarrow>
       if cl_abort c \<or> \<not> answers (handle c) then map_option (Pair False) (removeClient i s)
       else Some (True, log_send (handle c) s))"

text \<open>\<open>sendToAll\<close>: the iterator stays where it is after a removal, and then denotes the next client.\<close>

function send_vec :: "(nat \<Rightarrow> bool) \<Rightarrow> unit_code \<Rightarrow> nat \<Rightarrow> server \<Rightarrow> server option" where
  "send_vec answers t k s =
     (if length (vec t s) \<le> k then Some s
      else case infos s (vec t s ! k) of
        None \<Rightarrow> None
      | Some c \<Rightarrow>
          if answers (handle c) then send_vec answers t (Suc k) (log_send (handle c) s)
          else case removeClient_type t (vec t s ! k) s of
            None \<Rightarrow> None
          | Some s' \<Rightarrow> send_vec answers t k s')"
  by pat_completeness auto
termination
proof (relation "measure (\<lambda>(_, t, k, s). length (vec t s) - k)")
  fix answers :: "nat \<Rightarrow> bool" and t k s c s'
  assume *: "\<not> length (vec t s) \<le> k" "removeClient_type t (vec t s ! k) s = Some s'"
  then have "length (vec t s') < length (vec t s)"
    by (simp add: vec_remove(1) [OF *(2)] length_remove1)
  with * show "((answers, t, k, s'), answers, t, k, s) \<in> measure (\<lambda>(_, t, k, s). length (vec t s) - k)" by simp
qed (simp_all add: log_send_def vec_def)

declare send_vec.simps [simp del]

fun over_types :: "(unit_code \<Rightarrow> server \<Rightarrow> server option) \<Rightarrow> unit_code list \<Rightarrow> server \<Rightarrow> server option" where
  "over_types f [] s = Some s"
| "over_types f (t # ts) s = (case f t s of None \<Rightarrow> None | Some s' \<Rightarrow> over_types f ts s')"

definition sendToAll :: "(nat \<Rightarrow> bool) \<Rightarrow> server \<Rightarrow> server option" where
  "sendToAll answers s =
     (if hasClients s then over_types (\<lambda>t. send_vec answers t 0) (types s) s else Some s)"

text \<open>\<open>sendToAllOfType\<close> iterates over a copy of the vector: after a removal the iterator denotes the
  client that has just been deleted.\<close>

partial_function (option) send_copy :: "(nat \<Rightarrow> bool) \<Rightarrow> unit_code \<Rightarrow> cid list \<Rightarrow> server \<Rightarrow> server option" where
  "send_copy answers t is s = (case is of
     [] \<Rightarrow> Some s
   | i # rest \<Rightarrow> (case infos s i of
       None \<Rightarrow> None
     | Some c \<Rightarrow>
         if answers (handle c) then send_copy answers t rest (log_send (handle c) s)
         else (case removeClient_type t i s of
           None \<Rightarrow> None
         | Some s' \<Rightarrow> send_copy answers t is s')))"

definition sendToAllOfType :: "(nat \<Rightarrow> bool) \<Rightarrow> unit_code \<Rightarrow> server \<Rightarrow> server option" where
  "sendToAllOfType answers t s =
     (if hasClients s \<and> t \<in> set (types s) then send_copy answers t (vec t s) s else Some s)"

text \<open>\<open>sendToAnyOfType\<close>: a random client, until one answers or none is left. The list gives the
  generator's values; a value is taken modulo the size of the vector.\<close>

fun send_any :: "(nat \<Rightarrow> bool) \<Rightarrow> unit_code \<Rightarrow> nat list \<Rightarrow> server \<Rightarrow> server option" where
  "send_any answers t [] s = (if vec t s = [] then Some s else None)"
| "send_any answers t (r # rs) s =
     (if vec t s = [] then Some s
      else case sendTo answers (vec t s ! (r mod length (vec t s))) s of
        None \<Rightarrow> None
      | Some (ok, s') \<Rightarrow> if ok then Some s' else send_any answers t rs s')"

definition sendToAnyOfType :: "(nat \<Rightarrow> bool) \<Rightarrow> unit_code \<Rightarrow> nat list \<Rightarrow> server \<Rightarrow> server option" where
  "sendToAnyOfType answers t rs s =
     (if hasClients s \<and> t \<in> set (types s) then send_any answers t rs s else Some s)"

text \<open>\<open>rerouteToAnyOfType\<close>: the vector is read in place while failed clients are removed from it, with
  the bounds of its old size; \<open>n\<close> is the number of positions left.\<close>

fun find_and_send :: "(nat \<Rightarrow> bool) \<Rightarrow> unit_code \<Rightarrow> 64 word \<Rightarrow> nat \<Rightarrow> nat \<Rightarrow> server \<Rightarrow> (bool \<times> server) option" where
  "find_and_send answers t u i 0 s = Some (False, s)"
| "find_and_send answers t u i (Suc n) s =
     (if length (vec t s) \<le> i then None
      else case infos s (vec t s ! i) of
        None \<Rightarrow> None
      | Some c \<Rightarrow>
          if uuid c = u then find_and_send answers t u (Suc i) n s
          else case sendTo answers (vec t s ! i) s of
            None \<Rightarrow> None
          | Some (ok, s') \<Rightarrow> if ok then Some (True, s') else find_and_send answers t u (Suc i) n s')"

definition rerouteToAnyOfType :: "(nat \<Rightarrow> bool) \<Rightarrow> unit_code \<Rightarrow> 64 word \<Rightarrow> nat \<Rightarrow> server \<Rightarrow> server option" where
  "rerouteToAnyOfType answers t u r s =
     (if hasClients s \<and> t \<in> set (types s) \<and> vec t s \<noteq> [] then
        let idx = r mod length (vec t s) in
        (case find_and_send answers t u idx (length (vec t s) - idx) s of
           None \<Rightarrow> None
         | Some (True, s') \<Rightarrow> Some s'
         | Some (False, s') \<Rightarrow> map_option snd (find_and_send answers t u 0 idx s'))
      else Some s)"

section \<open>Clients that are gone\<close>

function clear_vec :: "unit_code \<Rightarrow> nat \<Rightarrow> server \<Rightarrow> server option" where
  "clear_vec t k s =
     (if length (vec t s) \<le> k then Some s
      else case infos s (vec t s ! k) of
        None \<Rightarrow> None
      | Some c \<Rightarrow>
          if cl_abort c
          then (case removeClient_type t (vec t s ! k) s of None \<Rightarrow> None | Some s' \<Rightarrow> clear_vec t k s')
          else clear_vec t (Suc k) s)"
  by pat_completeness auto
termination
proof (relation "measure (\<lambda>(t, k, s). length (vec t s) - k)")
  fix t k s c s'
  assume *: "\<not> length (vec t s) \<le> k" "removeClient_type t (vec t s ! k) s = Some s'"
  then have "length (vec t s') < length (vec t s)"
    by (simp add: vec_remove(1) [OF *(2)] length_remove1)
  with * show "((t, k, s'), t, k, s) \<in> measure (\<lambda>(t, k, s). length (vec t s) - k)" by simp
qed simp_all

declare clear_vec.simps [simp del]

definition clear_aborted :: "server \<Rightarrow> server option" where
  "clear_aborted s = over_types (\<lambda>t. clear_vec t 0) (types s) s"

fun names_of :: "(cid \<rightharpoonup> ClientInfo) \<Rightarrow> cid list \<Rightarrow> (string \<times> 64 word) list option" where
  "names_of info [] = Some []"
| "names_of info (i # is) = (case info i of
     None \<Rightarrow> None
   | Some c \<Rightarrow> map_option (Cons (prettyName c, uuid c)) (names_of info is))"

definition getUuidForUnitType :: "unit_code \<Rightarrow> server \<Rightarrow> ((string \<times> 64 word) list \<times> server) option" where
  "getUuidForUnitType t s =
     (if \<not> hasClients s then Some ([], s)
      else case clear_aborted s of
        None \<Rightarrow> None
      | Some s' \<Rightarrow>
          map_option (\<lambda>ns. (ns, s'))
            (names_of (infos s') (if t = 0 then map snd (entries s') else vec t s')))"

text \<open>The receiver thread of a client notes that its connection is closed.\<close>

definition mark_aborted :: "cid \<Rightarrow> server \<Rightarrow> server" where
  "mark_aborted i s = (case infos s i of None \<Rightarrow> s | Some c \<Rightarrow> s\<lparr>infos := (infos s)(i \<mapsto> c\<lparr>cl_abort := True\<rparr>)\<rparr>)"

text \<open>\<open>closeConnection\<close> deletes every client; the index by uuid keeps its pointers.\<close>

definition closeConnection :: "server \<Rightarrow> server" where
  "closeConnection s =
     s\<lparr>clientMap := map (\<lambda>(t, v). (t, [])) (clientMap s),
       infos := (\<lambda>i. if i \<in> snd ` set (entries s) then None else infos s i),
       closed := closed s @ map (\<lambda>(t, i). handle (the (infos s i))) (entries s)\<rparr>"

section \<open>The handshake\<close>

text \<open>What a \<open>recv\<close> on a new connection brings: nothing, no delimiter at the start, or a header with the
  unit type and the name parsed from its payload, and whether the message is complete.\<close>

datatype reply = NoReply | NoDelim | Reply (whole: bool) (meta: TCPMetaInfo) (unit: unit_code) (name: string)

datatype outcome = Added cid | Dropped | ExitProcess

definition UPDATE_UNIT_TYPE :: package_code where
  "UPDATE_UNIT_TYPE = 6"

definition UUID_COLLISION :: package_code where
  "UUID_COLLISION = 14"

definition add_client :: "nat \<Rightarrow> unit_code \<Rightarrow> string \<Rightarrow> 64 word \<Rightarrow> server \<Rightarrow> cid \<times> server" where
  "add_client h t nm u s =
     (let i = next_cid s in
      (i, s\<lparr>clientMap := set_vec t (vec t s @ [i]) (clientMap s), clientUuidMap := (clientUuidMap s)(u \<mapsto> i),
            infos := (infos s)(i \<mapsto> \<lparr>handle = h, cl_type = t, uuid = u, prettyName = nm, cl_abort = False\<rparr>),
            next_cid := Suc i\<rparr>))"

text \<open>The loop over colliding uuids; the requests for a new uuid are sent to a handle that answers or
  not. A client that does not reply is dropped after a timeout.\<close>

fun resolve_uuid :: "(nat \<Rightarrow> bool) \<Rightarrow> nat \<Rightarrow> unit_code \<Rightarrow> string \<Rightarrow> 64 word \<Rightarrow> reply list \<Rightarrow> server \<Rightarrow> outcome \<times> server" where
  "resolve_uuid answers h t nm u rs s =
     (if clientUuidMap s u = None then let (i, s') = add_client h t nm u s in (Added i, s')
      else if \<not> answers h then (Dropped, freeHandle h s)
      else case rs of
        Reply w m t' n' # rs' \<Rightarrow>
          if package_type m \<noteq> UUID_COLLISION then (Dropped, freeHandle h s)
          else resolve_uuid answers h t nm (src_uuid m) rs' s
      | _ \<Rightarrow> (Dropped, freeHandle h s))"

declare resolve_uuid.simps [simp del]

text \<open>A first message of the wrong type closes the handle, and the handshake goes on with it.\<close>

definition connect :: "(nat \<Rightarrow> bool) \<Rightarrow> nat \<Rightarrow> reply list \<Rightarrow> server \<Rightarrow> outcome \<times> server" where
  "connect answers h replies s = (case replies of
     Reply w m t nm # rs \<Rightarrow>
       if \<not> w then (ExitProcess, s)
       else resolve_uuid answers h t nm (src_uuid m) rs
              (if package_type m \<noteq> UPDATE_UNIT_TYPE then freeHandle h s else s)
   | _ \<Rightarrow> (Dropped, freeHandle h s))"

section \<open>The invariant of the registry\<close>

definition registered_ids :: "server \<Rightarrow> cid set" where
  "registered_ids s = snd ` set (entries s)"

text \<open>Every pointer of a vector is live, occurs once, and under the type of its client; the index by
  uuid has exactly the live clients.\<close>

definition server_inv :: "server \<Rightarrow> bool" where
  "server_inv s \<longleftrightarrow> sorted_wrt (<) (types s) \<and>
     (\<forall>t. distinct (vec t s)) \<and>
     (\<forall>t i. i \<in> set (vec t s) \<longrightarrow> i < next_cid s \<and> (\<exists>c. infos s i = Some c \<and> cl_type c = t \<and> clientUuidMap s (uuid c) = Some i)) \<and>
     (\<forall>u i. clientUuidMap s u = Some i \<longrightarrow> (\<exists>c. infos s i = Some c \<and> uuid c = u \<and> i \<in> set (vec (cl_type c) s)))"

lemma types_set_vec [simp]: "fst ` set (set_vec t v m) = insert t (fst ` set m)"
  by (induction m) force+

lemma sorted_set_vec: "sorted_wrt (<) (map fst m) \<Longrightarrow> sorted_wrt (<) (map fst (set_vec t v m))"
proof (induction m)
  case (Cons x m)
  obtain t' v' where x: "x = (t', v')" by (cases x)
  consider "t = t'" | "t < t'" | "t' < t" by (rule linorder_cases [of t t'])
  then show ?case
  proof cases
    case 3
    then have "t \<noteq> t'" "\<not> t < t'" by auto
    then show ?thesis using Cons 3 x by simp
  qed (use Cons.prems x in \<open>auto dest: order.strict_trans\<close>)
qed simp

lemma server_invD:
  assumes "server_inv s"
  shows "sorted_wrt (<) (types s)" "distinct (vec t s)"
    "i \<in> set (vec t s) \<Longrightarrow> i < next_cid s \<and> (\<exists>c. infos s i = Some c \<and> cl_type c = t \<and> clientUuidMap s (uuid c) = Some i)"
    "clientUuidMap s u = Some i \<Longrightarrow> \<exists>c. infos s i = Some c \<and> uuid c = u \<and> i \<in> set (vec (cl_type c) s)"
  using assms unfolding server_inv_def by blast+

lemma inv_cong:
  assumes "clientMap s' = clientMap s" "clientUuidMap s' = clientUuidMap s" "infos s' = infos s" "next_cid s' = next_cid s"
  shows "server_inv s' = server_inv s" "vec t s' = vec t s" "types s' = types s"
  using assms by (simp_all add: server_inv_def vec_def types_def)

lemma vec_types: "vec t s \<noteq> [] \<Longrightarrow> t \<in> set (types s)"
proof (rule ccontr)
  assume "vec t s \<noteq> []" "t \<notin> set (types s)"
  then show False by (simp add: vec_def types_def map_of_eq_None_iff [THEN iffD2])
qed

lemma types_kept:
  "t \<in> fst ` set m \<Longrightarrow> sorted_wrt (<) (map fst m) \<Longrightarrow> map fst (set_vec t v m) = map fst m"
proof (induction m)
  case (Cons x m)
  show ?case
  proof (cases "t = fst x")
    case True
    then show ?thesis by (cases x) simp
  next
    case False
    with Cons.prems(1) have t: "t \<in> fst ` set m" by simp
    with Cons.prems(2) have "fst x < t" by auto
    then have "\<not> t < fst x" by simp
    with False Cons.IH [OF t] Cons.prems(2) show ?thesis by (cases x) simp
  qed
qed simp

lemma remove_spec:
  assumes inv: "server_inv s" and i: "i \<in> set (vec t s)"
  obtains s' where "removeClient_type t i s = Some s'" "server_inv s'"
    "vec t s' = remove1 i (vec t s)" "\<And>t'. t' \<noteq> t \<Longrightarrow> vec t' s' = vec t' s"
    "infos s' = (infos s)(i := None)" "sent s' = sent s" "types s' = types s" "next_cid s' = next_cid s"
proof -
  note d = server_invD [OF inv]
  from d(3) [OF i] obtain c where c: "infos s i = Some c" "cl_type c = t" "clientUuidMap s (uuid c) = Some i" by blast
  let ?s = "(freeHandle (handle c) s)\<lparr>clientMap := set_vec t (remove1 i (vec t s)) (clientMap s),
            clientUuidMap := (clientUuidMap s)(uuid c := None), infos := (infos s)(i := None)\<rparr>"
  have run: "removeClient_type t i s = Some ?s" using i c(1) by (simp add: removeClient_type_def Let_def)
  have v: "vec t' ?s = (if t' = t then remove1 i (vec t s) else vec t' s)" for t'
    by (simp add: vec_def map_of_set_vec freeHandle_def)
  have t: "t \<in> set (types s)"
    using vec_types [of t s] i by fastforce
  have "types ?s = types s"
  proof -
    from types_kept [of t "clientMap s" "remove1 i (vec t s)"] t d(1) show ?thesis
      by (simp add: types_def freeHandle_def)
  qed
  moreover have "server_inv ?s"
    unfolding server_inv_def
  proof (intro conjI allI impI)
    show "sorted_wrt (<) (types ?s)" using calculation d(1) by simp
    show "distinct (vec t' ?s)" for t' using d(2) by (simp add: v distinct_remove1)
  next
    fix t' j assume j: "j \<in> set (vec t' ?s)"
    have j': "j \<in> set (vec t' s) \<and> j \<noteq> i"
    proof (cases "t' = t")
      case True
      with j have "j \<in> set (remove1 i (vec t s))" unfolding v by simp
      with True show ?thesis unfolding set_remove1_eq [OF d(2) [of t]] by simp
    next
      case False
      with j have "j \<in> set (vec t' s)" unfolding v by simp
      with d(3) [OF this] c(1,2) False show ?thesis by auto
    qed
    then have j': "j \<in> set (vec t' s)" "j \<noteq> i" by simp_all
    from d(3) [OF j'(1)] obtain c' where c': "infos s j = Some c'" "cl_type c' = t'" "clientUuidMap s (uuid c') = Some j" by blast
    with c(3) j'(2) have "uuid c' \<noteq> uuid c" by auto
    with c' j'(2) d(3) [OF j'(1)] show "j < next_cid ?s" "\<exists>c. infos ?s j = Some c \<and> cl_type c = t' \<and> clientUuidMap ?s (uuid c) = Some j"
      by (auto simp: freeHandle_def)
  next
    fix u j assume "clientUuidMap ?s u = Some j"
    then have u: "u \<noteq> uuid c" "clientUuidMap s u = Some j" by (auto split: if_splits)
    from d(4) [OF u(2)] obtain c' where c': "infos s j = Some c'" "uuid c' = u" "j \<in> set (vec (cl_type c') s)" by blast
    with u c(1) have "j \<noteq> i" by auto
    with c' show "\<exists>c. infos ?s j = Some c \<and> uuid c = u \<and> j \<in> set (vec (cl_type c) ?s)" by (auto simp: v)
  qed
  ultimately show thesis using that [OF run] v by (simp add: freeHandle_def)
qed

text \<open>The handle a client was registered with; removals do not change those of the others.\<close>

definition handles :: "(cid \<Rightarrow> nat) \<Rightarrow> server \<Rightarrow> bool" where
  "handles H s \<longleftrightarrow> (\<forall>i c. infos s i = Some c \<longrightarrow> handle c = H i)"

lemma remove1_nth: "distinct xs \<Longrightarrow> k < length xs \<Longrightarrow> remove1 (xs ! k) xs = take k xs @ drop (Suc k) xs"
proof (induction xs arbitrary: k)
  case (Cons x xs)
  then show ?case by (cases k) auto
qed simp

lemma log_send_simps [simp]:
  "vec t (log_send h s) = vec t s" "types (log_send h s) = types s" "infos (log_send h s) = infos s"
  "next_cid (log_send h s) = next_cid s" "sent (log_send h s) = sent s @ [h]"
  "server_inv (log_send h s) = server_inv s"
  by (simp_all add: log_send_def vec_def types_def server_inv_def)

definition sends :: "(nat \<Rightarrow> bool) \<Rightarrow> (cid \<Rightarrow> nat) \<Rightarrow> cid list \<Rightarrow> server \<Rightarrow> server \<Rightarrow> bool" where
  "sends answers H is s s' \<longleftrightarrow> server_inv s' \<and> handles H s' \<and> types s' = types s \<and>
     sent s' = sent s @ map H (filter (\<lambda>i. answers (H i)) is)"

lemma send_vec_spec:
  assumes "server_inv s" "handles H s" "k \<le> length (vec t s)"
  shows "\<exists>s'. send_vec answers t k s = Some s' \<and> sends answers H (drop k (vec t s)) s s' \<and>
    vec t s' = take k (vec t s) @ filter (\<lambda>i. answers (H i)) (drop k (vec t s)) \<and>
    (\<forall>t'. t' \<noteq> t \<longrightarrow> vec t' s' = vec t' s)"
  using assms
proof (induction answers t k s rule: send_vec.induct)
  case (1 answers t k s)
  note unfold = send_vec.simps [of answers t k s]
  show ?case
  proof (cases "length (vec t s) \<le> k")
    case True
    with "1.prems" show ?thesis unfolding unfold by (simp add: sends_def)
  next
    case False
    then have k: "k < length (vec t s)" by simp
    let ?i = "vec t s ! k"
    have mem: "?i \<in> set (vec t s)" using k by simp
    from server_invD(3) [OF "1.prems"(1) mem] obtain c where c: "infos s ?i = Some c" by blast
    have h: "handle c = H ?i" using "1.prems"(2) c by (simp add: handles_def)
    have dr: "drop k (vec t s) = ?i # drop (Suc k) (vec t s)" using k by (simp add: Cons_nth_drop_Suc)
    show ?thesis
    proof (cases "answers (handle c)")
      case True
      let ?s = "log_send (handle c) s"
      have "server_inv ?s" "handles H ?s" "Suc k \<le> length (vec t ?s)" using "1.prems" k by (simp_all add: handles_def)
      from "1.IH"(1) [OF False c True this] obtain s' where s': "send_vec answers t (Suc k) ?s = Some s'"
        "sends answers H (drop (Suc k) (vec t ?s)) ?s s'"
        "vec t s' = take (Suc k) (vec t ?s) @ filter (\<lambda>i. answers (H i)) (drop (Suc k) (vec t ?s))"
        "\<forall>t'. t' \<noteq> t \<longrightarrow> vec t' s' = vec t' ?s" by blast
      then show ?thesis
        using False c True h k unfolding unfold dr by (auto simp: sends_def take_Suc_conv_app_nth)
    next
      case no: False
      from remove_spec [OF "1.prems"(1) mem] obtain s1 where s1: "removeClient_type t ?i s = Some s1" "server_inv s1"
        "vec t s1 = remove1 ?i (vec t s)" "\<And>t'. t' \<noteq> t \<Longrightarrow> vec t' s1 = vec t' s"
        "infos s1 = (infos s)(?i := None)" "sent s1 = sent s" "types s1 = types s" by metis
      have v1: "vec t s1 = take k (vec t s) @ drop (Suc k) (vec t s)"
        unfolding s1(3) by (rule remove1_nth [OF server_invD(2) [OF "1.prems"(1)] k])
      have "handles H s1" "k \<le> length (vec t s1)" using "1.prems"(2) k by (simp_all add: handles_def s1(5) v1)
      from "1.IH"(2) [OF False c no s1(1,2) this] obtain s' where "send_vec answers t k s1 = Some s'"
        "sends answers H (drop k (vec t s1)) s1 s'"
        "vec t s' = take k (vec t s1) @ filter (\<lambda>i. answers (H i)) (drop k (vec t s1))"
        "\<forall>t'. t' \<noteq> t \<longrightarrow> vec t' s' = vec t' s1" by blast
      then show ?thesis
        using False c no h k s1 unfolding unfold dr by (auto simp: sends_def v1)
    qed
  qed
qed

lemma over_types_spec:
  assumes "server_inv s" "handles H s" "distinct ts"
  shows "\<exists>s'. over_types (\<lambda>t. send_vec answers t 0) ts s = Some s' \<and>
    sends answers H (concat (map (\<lambda>t. vec t s) ts)) s s' \<and>
    (\<forall>t. vec t s' = (if t \<in> set ts then filter (\<lambda>i. answers (H i)) (vec t s) else vec t s))"
  using assms
proof (induction ts arbitrary: s)
  case Nil
  then show ?case by (simp add: sends_def)
next
  case (Cons t ts)
  from send_vec_spec [OF Cons.prems(1,2), of 0 t answers] obtain s1 where
    s1: "send_vec answers t 0 s = Some s1" "sends answers H (vec t s) s s1"
      "vec t s1 = filter (\<lambda>i. answers (H i)) (vec t s)" "\<forall>t'. t' \<noteq> t \<longrightarrow> vec t' s1 = vec t' s" by auto
  from Cons.IH [of s1] s1(2) Cons.prems(3) obtain s' where
    s': "over_types (\<lambda>t. send_vec answers t 0) ts s1 = Some s'" "sends answers H (concat (map (\<lambda>t. vec t s1) ts)) s1 s'"
      "\<forall>t. vec t s' = (if t \<in> set ts then filter (\<lambda>i. answers (H i)) (vec t s1) else vec t s1)" by (auto simp: sends_def)
  have "map (\<lambda>t. vec t s1) ts = map (\<lambda>t. vec t s) ts" using s1(4) Cons.prems(3) by auto
  with s1 s' Cons.prems(3) show ?case by (auto simp: sends_def)
qed

lemma entries_types: "sorted_wrt (<) (types s) \<Longrightarrow> map snd (entries s) = concat (map (\<lambda>t. vec t s) (types s))"
proof -
  have "concat (map snd m) = concat (map (\<lambda>t. case map_of m t of Some v \<Rightarrow> v | None \<Rightarrow> []) (map fst m))"
    if "sorted_wrt (<) (map fst m)" for m :: "(unit_code \<times> cid list) list"
    using that
  proof (induction m)
    case (Cons x m)
    let ?f = "\<lambda>m t. case map_of m t of Some v \<Rightarrow> v | None \<Rightarrow> []"
    obtain a b where x: "x = (a, b)" by (cases x)
    have eq: "map (?f (x # m)) (map fst m) = map (?f m) (map fst m)" using Cons.prems x by auto
    have "concat (map (?f (x # m)) (map fst (x # m))) = b @ concat (map (?f (x # m)) (map fst m))" by (simp add: x)
    also have "\<dots> = b @ concat (map (?f m) (map fst m))" unfolding eq by (rule refl)
    also have "\<dots> = b @ concat (map snd m)" using Cons by simp
    finally show ?case by (simp add: x)
  qed simp
  moreover have "map snd (entries s) = concat (map snd (clientMap s))"
    by (simp add: entries_def map_concat comp_def split_def)
  moreover assume "sorted_wrt (<) (types s)"
  ultimately show ?thesis by (simp add: types_def vec_def [abs_def])
qed

section \<open>Every operation keeps the registry consistent\<close>

lemma entries_member: "server_inv s \<Longrightarrow> (t, i) \<in> set (entries s) \<longleftrightarrow> i \<in> set (vec t s)"
proof -
  assume "server_inv s"
  then have "sorted_wrt (<) (map fst (clientMap s))" by (simp add: server_inv_def types_def)
  then have d: "distinct (map fst (clientMap s))" by (simp add: strict_sorted_iff)
  have "(t, i) \<in> set (entries s) \<longleftrightarrow> (\<exists>v. (t, v) \<in> set (clientMap s) \<and> i \<in> set v)"
    by (auto simp: entries_def)
  also have "\<dots> \<longleftrightarrow> (\<exists>v. map_of (clientMap s) t = Some v \<and> i \<in> set v)"
    by (simp add: map_of_eq_Some_iff [OF d])
  also have "\<dots> \<longleftrightarrow> i \<in> set (vec t s)" by (cases "map_of (clientMap s) t") (simp_all add: vec_def)
  finally show ?thesis .
qed

lemma find_handle_ok:
  "\<forall>(t, i) \<in> set es. infos s i \<noteq> None \<Longrightarrow>
    \<exists>r. find_handle (infos s) h es = Some r \<and> (\<forall>t i. r = Some (t, i) \<longrightarrow> (t, i) \<in> set es) \<and>
      (r = None \<longrightarrow> (\<forall>(t, i) \<in> set es. \<forall>c. infos s i = Some c \<longrightarrow> handle c \<noteq> h))"
  by (induction es) (fastforce split: option.splits)+

text \<open>\<open>removeClient(info)\<close> of a registered client removes one client, with the same handle.\<close>

lemma removeClient_ok:
  assumes inv: "server_inv s" and i: "i \<in> set (vec t s)"
  shows "\<exists>s' t' j. removeClient i s = Some s' \<and> server_inv s' \<and> types s' = types s \<and> j \<in> set (vec t' s) \<and>
    vec t' s' = remove1 j (vec t' s) \<and> (\<forall>t''. t'' \<noteq> t' \<longrightarrow> vec t'' s' = vec t'' s) \<and> sent s' = sent s"
proof -
  from server_invD(3) [OF inv i] obtain c where c: "infos s i = Some c" by blast
  have live: "\<forall>(t, i) \<in> set (entries s). infos s i \<noteq> None"
    using entries_member [OF inv] server_invD(3) [OF inv] by fastforce
  from find_handle_ok [OF live, of "handle c"] obtain r where r: "find_handle (infos s) (handle c) (entries s) = Some r"
    "\<And>t i. r = Some (t, i) \<Longrightarrow> (t, i) \<in> set (entries s)"
    "r = None \<Longrightarrow> \<forall>(t, i) \<in> set (entries s). \<forall>c'. infos s i = Some c' \<longrightarrow> handle c' \<noteq> handle c" by blast
  have "(t, i) \<in> set (entries s)" using entries_member [OF inv] i by simp
  with r(3) c obtain t' j where tj: "r = Some (t', j)" by (cases r) auto
  then have j: "j \<in> set (vec t' s)" using r(2) entries_member [OF inv] by simp
  from remove_spec [OF inv j] obtain s' where "removeClient_type t' j s = Some s'" "server_inv s'"
    "vec t' s' = remove1 j (vec t' s)" "\<And>t''. t'' \<noteq> t' \<Longrightarrow> vec t'' s' = vec t'' s" "sent s' = sent s" "types s' = types s" by metis
  with c r(1) tj j show ?thesis unfolding removeClient_def by auto
qed

definition clients :: "server \<Rightarrow> nat" where
  "clients s = sum_list (map (\<lambda>t. length (vec t s)) (types s))"

lemma sum_list_less:
  "distinct ts \<Longrightarrow> t \<in> set ts \<Longrightarrow> f t < (g t :: nat) \<Longrightarrow> (\<And>t'. t' \<noteq> t \<Longrightarrow> f t' = g t') \<Longrightarrow>
    sum_list (map f ts) < sum_list (map g ts)"
proof (induction ts)
  case (Cons a ts)
  show ?case
  proof (cases "a = t")
    case True
    then have "\<forall>x \<in> set ts. f x = g x" using Cons.prems(1,4) by (metis distinct.simps(2))
    then have "map f ts = map g ts" by simp
    with True Cons.prems(3) show ?thesis by (simp only: list.map sum_list.Cons add_less_cancel_right)
  next
    case False
    with Cons show ?thesis by simp
  qed
qed simp

lemma sendTo_ok:
  assumes inv: "server_inv s" and i: "i \<in> set (vec t s)"
  shows "\<exists>ok s'. sendTo answers i s = Some (ok, s') \<and> server_inv s' \<and> types s' = types s \<and>
    (ok \<longrightarrow> (\<exists>c. infos s i = Some c \<and> \<not> cl_abort c \<and> answers (handle c) \<and> s' = log_send (handle c) s)) \<and>
    (\<not> ok \<longrightarrow> clients s' < clients s \<and> sent s' = sent s)"
proof -
  from server_invD(3) [OF inv i] obtain c where c: "infos s i = Some c" by blast
  show ?thesis
  proof (cases "cl_abort c \<or> \<not> answers (handle c)")
    case False
    with c inv show ?thesis by (intro exI [of _ True]) (simp add: sendTo_def)
  next
    case True
    from removeClient_ok [OF inv i] obtain s' t' j where s': "removeClient i s = Some s'" "server_inv s'" "types s' = types s"
      "j \<in> set (vec t' s)" "vec t' s' = remove1 j (vec t' s)" "\<forall>t''. t'' \<noteq> t' \<longrightarrow> vec t'' s' = vec t'' s" "sent s' = sent s" by blast
    have "t' \<in> set (types s)" by (rule vec_types) (use s'(4) in auto)
    moreover have "length (vec t' s') < length (vec t' s)"
      using s'(4) length_pos_if_in_set [OF s'(4)] by (simp add: s'(5) length_remove1)
    ultimately have "clients s' < clients s"
      unfolding clients_def s'(3) using s'(6) server_invD(1) [OF inv]
      by (intro sum_list_less) (auto simp: strict_sorted_iff)
    with True c s' show ?thesis by (intro exI [of _ False]) (simp add: sendTo_def)
  qed
qed

text \<open>Trying random clients ends when there are more random numbers than clients.\<close>

lemma send_any_ok:
  assumes "server_inv s" "clients s < length rs"
  shows "\<exists>s'. send_any answers t rs s = Some s' \<and> server_inv s' \<and>
    (vec t s' = [] \<and> sent s' = sent s \<or> (\<exists>h. answers h \<and> sent s' = sent s @ [h]))"
  using assms
proof (induction rs arbitrary: s)
  case (Cons r rs)
  show ?case
  proof (cases "vec t s = []")
    case True
    with Cons.prems show ?thesis by simp
  next
    case False
    then have "vec t s ! (r mod length (vec t s)) \<in> set (vec t s)" by simp
    from sendTo_ok [OF Cons.prems(1) this, of answers] obtain ok s1 where
      s1: "sendTo answers (vec t s ! (r mod length (vec t s))) s = Some (ok, s1)" "server_inv s1"
        "ok \<longrightarrow> (\<exists>c. infos s (vec t s ! (r mod length (vec t s))) = Some c \<and> \<not> cl_abort c \<and> answers (handle c) \<and> s1 = log_send (handle c) s)"
        "\<not> ok \<longrightarrow> clients s1 < clients s \<and> sent s1 = sent s"
      by blast
    show ?thesis
    proof (cases ok)
      case True
      with s1(3) obtain h where "answers h" "sent s1 = sent s @ [h]" by auto
      with True False s1(1,2) show ?thesis by auto
    next
      case no: False
      with Cons.IH [OF s1(2)] s1(4) Cons.prems(2) False s1(1) show ?thesis by auto
    qed
  qed
qed simp

section \<open>Properties\<close>

lemma no_clients: "\<not> hasClients s \<Longrightarrow> vec t s = []"
proof (cases "map_of (clientMap s) t")
  case (Some v)
  then have "(t, v) \<in> set (clientMap s)" by (rule map_of_SomeD)
  moreover assume "\<not> hasClients s"
  then have "\<forall>x \<in> set (clientMap s). snd x = []" by (auto simp: hasClients_def)
  ultimately show ?thesis using Some by (auto simp: vec_def)
qed (simp add: vec_def)

definition accepts :: "(nat \<Rightarrow> bool) \<Rightarrow> server \<Rightarrow> cid \<Rightarrow> bool" where
  "accepts answers s i \<longleftrightarrow> answers (handle (the (infos s i)))"

text \<open>A broadcast reaches exactly the clients that still accept data, in the order of the registry,
  removes exactly the others from both indexes, and leaves the registry consistent.\<close>

lemma sendToAll_correct:
  assumes "server_inv s"
  shows "\<exists>s'. sendToAll answers s = Some s' \<and> server_inv s' \<and>
    (\<forall>t. vec t s' = filter (accepts answers s) (vec t s)) \<and>
    sent s' = sent s @ map (\<lambda>i. handle (the (infos s i))) (filter (accepts answers s) (map snd (entries s)))"
proof -
  let ?H = "\<lambda>i. handle (the (infos s i))"
  have H: "handles ?H s" by (simp add: handles_def)
  note d = server_invD(1) [OF assms(1)]
  have e: "map snd (entries s) = concat (map (\<lambda>t. vec t s) (types s))" by (rule entries_types [OF d])
  have out: "vec t s = []" if "t \<notin> set (types s)" for t using vec_types that by blast
  show ?thesis
  proof (cases "hasClients s")
    case True
    from over_types_spec [OF assms(1) H, of "types s" answers] d obtain s' where
      "over_types (\<lambda>t. send_vec answers t 0) (types s) s = Some s'"
      "sends answers ?H (concat (map (\<lambda>t. vec t s) (types s))) s s'"
      "\<forall>t. vec t s' = (if t \<in> set (types s) then filter (\<lambda>i. answers (?H i)) (vec t s) else vec t s)"
      by (auto simp: strict_sorted_iff)
    with True out show ?thesis by (auto simp: sendToAll_def sends_def e accepts_def [abs_def])
  next
    case False
    then have "vec t s = []" for t by (rule no_clients)
    with False assms(1) show ?thesis by (simp add: sendToAll_def e)
  qed
qed

text \<open>Sending to any client of a type always ends: with more random choices than there are
  clients, the message has gone to one client that accepts data, or no client of the type is left, and
  the registry is consistent.\<close>

lemma sendToAny_ends:
  assumes "server_inv s" "clients s < length rs"
  shows "\<exists>s'. sendToAnyOfType answers t rs s = Some s' \<and> server_inv s' \<and>
    (vec t s' = [] \<and> sent s' = sent s \<or> (\<exists>h. answers h \<and> sent s' = sent s @ [h]))"
proof (cases "hasClients s \<and> t \<in> set (types s)")
  case True
  with send_any_ok [OF assms, of answers t] show ?thesis by (simp add: sendToAnyOfType_def)
next
  case False
  have "vec t s = []"
  proof (cases "t \<in> set (types s)")
    case True
    with False show ?thesis using no_clients by blast
  next
    case False
    then show ?thesis using vec_types by blast
  qed
  with False assms(1) show ?thesis by (auto simp: sendToAnyOfType_def)
qed

text \<open>Sending to all clients of a type is not like that: a client that does not accept data is deleted
  while the copy still holds it, and the next step reads it.\<close>

lemma sendToAllOfType_reads_deleted:
  assumes inv: "server_inv s" and i: "i \<in> set (vec t s)" "infos s i = Some c" "\<not> answers (handle c)"
  shows "sendToAllOfType answers t s = None"
proof -
  have copy: "send_copy answers t is s = None"
    if "i \<in> set is" "set is \<subseteq> set (vec t s)" "server_inv s" "infos s i = Some c" for "is" s
    using that
  proof (induction "is" arbitrary: s)
    case (Cons j js)
    from Cons.prems(2,3) obtain c' where c': "infos s j = Some c'" using server_invD(3) by fastforce
    show ?case
    proof (cases "answers (handle c')")
      case True
      then have "i \<in> set js" using Cons.prems(1,4) c' i(3) by auto
      with Cons.IH [of "log_send (handle c') s"] Cons.prems True c' show ?thesis
        by (subst send_copy.simps) simp
    next
      case False
      have "j \<in> set (vec t s)" using Cons.prems(2) by simp
      from remove_spec [OF Cons.prems(3) this] obtain s1 where
        "removeClient_type t j s = Some s1" "infos s1 = (infos s)(j := None)" by metis
      moreover from this(2) have "send_copy answers t (j # js) s1 = None" by (subst send_copy.simps) simp
      ultimately show ?thesis using c' False by (subst send_copy.simps) simp
    qed
  qed simp
  have "t \<in> set (types s)" by (rule vec_types) (use i(1) in auto)
  moreover have "hasClients s" using no_clients [of s t] i(1) by (cases "hasClients s") auto
  ultimately show ?thesis using copy [OF i(1) subset_refl inv i(2)] by (simp add: sendToAllOfType_def)
qed

section \<open>The registry as a machine\<close>

lemma clear_vec_ok:
  "server_inv s \<Longrightarrow> \<exists>s'. clear_vec t k s = Some s' \<and> server_inv s'"
proof (induction t k s rule: clear_vec.induct)
  case (1 t k s)
  note unfold = clear_vec.simps [of t k s]
  show ?case
  proof (cases "length (vec t s) \<le> k")
    case True
    with "1.prems" show ?thesis unfolding unfold by simp
  next
    case False
    then have mem: "vec t s ! k \<in> set (vec t s)" by simp
    from server_invD(3) [OF "1.prems" mem] obtain c where c: "infos s (vec t s ! k) = Some c" by blast
    show ?thesis
    proof (cases "cl_abort c")
      case True
      from remove_spec [OF "1.prems" mem] obtain s1 where s1: "removeClient_type t (vec t s ! k) s = Some s1" "server_inv s1"
        by metis
      with "1.IH"(1) [OF False c True s1] False c True show ?thesis unfolding unfold by simp
    next
      case no: False
      with "1.IH"(2) [OF False c no "1.prems"] False c show ?thesis unfolding unfold by simp
    qed
  qed
qed

lemma clear_aborted_ok: "server_inv s \<Longrightarrow> \<exists>s'. clear_aborted s = Some s' \<and> server_inv s'"
proof -
  have "\<exists>s'. over_types (\<lambda>t. clear_vec t 0) ts s = Some s' \<and> server_inv s'" if "server_inv s" for ts s
    using that
  proof (induction ts arbitrary: s)
    case (Cons t ts)
    from clear_vec_ok [OF Cons.prems, of t 0] obtain s1 where "clear_vec t 0 s = Some s1" "server_inv s1" by blast
    with Cons.IH [of s1] show ?case by simp
  qed simp
  then show "server_inv s \<Longrightarrow> ?thesis" by (simp add: clear_aborted_def)
qed

lemma free_inv [simp]: "server_inv (freeHandle h s) = server_inv s" "clientUuidMap (freeHandle h s) = clientUuidMap s"
  by (simp_all add: freeHandle_def server_inv_def vec_def types_def)

lemma mark_aborted_inv: "server_inv s \<Longrightarrow> server_inv (mark_aborted i s)"
proof (cases "infos s i")
  case (Some c)
  assume inv: "server_inv s"
  note d = server_invD [OF inv]
  let ?s = "s\<lparr>infos := (infos s)(i \<mapsto> c\<lparr>cl_abort := True\<rparr>)\<rparr>"
  have v: "vec t ?s = vec t s" "types ?s = types s" for t by (simp_all add: vec_def types_def)
  have info: "infos ?s j = Some c' \<Longrightarrow> \<exists>c''. infos s j = Some c'' \<and> cl_type c'' = cl_type c' \<and> uuid c'' = uuid c'"
    and info': "infos s j = Some c'' \<Longrightarrow> \<exists>c'. infos ?s j = Some c' \<and> cl_type c'' = cl_type c' \<and> uuid c'' = uuid c'" for j c' c''
    using Some by (auto split: if_splits)
  have "server_inv ?s"
    unfolding server_inv_def v
  proof (intro conjI allI impI)
    show "sorted_wrt (<) (types s)" "distinct (vec t s)" for t by (rule d)+
    show "j < next_cid ?s" "\<exists>c. infos ?s j = Some c \<and> cl_type c = t \<and> clientUuidMap ?s (uuid c) = Some j"
      if "j \<in> set (vec t s)" for t j
      using d(3) [OF that] info' by fastforce+
    show "\<exists>c. infos ?s j = Some c \<and> uuid c = u \<and> j \<in> set (vec (cl_type c) s)" if "clientUuidMap ?s u = Some j" for u j
      using d(4) [of u j] that info' by fastforce
  qed
  with Some show ?thesis by (simp add: mark_aborted_def)
qed (simp add: mark_aborted_def)

lemma add_client_inv:
  assumes inv: "server_inv s" and u: "clientUuidMap s u = None"
  shows "server_inv (snd (add_client h t nm u s))"
proof -
  note d = server_invD [OF inv]
  let ?i = "next_cid s"
  define c where "c = \<lparr>handle = h, cl_type = t, uuid = u, prettyName = nm, cl_abort = False\<rparr>"
  define s' where "s' = snd (add_client h t nm u s)"
  have new: "?i \<notin> set (vec t' s)" for t' using d(3) by blast
  have f: "infos s' = (infos s)(?i \<mapsto> c)" "clientUuidMap s' = (clientUuidMap s)(u \<mapsto> ?i)" "next_cid s' = Suc ?i"
      "clientMap s' = set_vec t (vec t s @ [?i]) (clientMap s)"
    by (simp_all add: s'_def add_client_def c_def Let_def)
  have v: "vec t' s' = (if t' = t then vec t s @ [?i] else vec t' s)" for t'
    by (simp add: vec_def f(4) map_of_set_vec)
  have "server_inv s'"
    unfolding server_inv_def
  proof (intro conjI allI impI)
    show "sorted_wrt (<) (types s')" using d(1) by (simp add: types_def f(4) sorted_set_vec)
    show "distinct (vec t' s')" for t' using d(2) new by (simp add: v)
  next
    fix t' j assume j: "j \<in> set (vec t' s')"
    show "j < next_cid s'" "\<exists>c. infos s' j = Some c \<and> cl_type c = t' \<and> clientUuidMap s' (uuid c) = Some j"
    proof -
      consider "j = ?i" "t' = t" | "j \<in> set (vec t' s)" using j by (auto simp: v split: if_splits)
      then have "j < next_cid s' \<and> (\<exists>c. infos s' j = Some c \<and> cl_type c = t' \<and> clientUuidMap s' (uuid c) = Some j)"
      proof cases
        case 1
        then show ?thesis by (simp add: f c_def)
      next
        case 2
        from d(3) [OF 2] obtain c' where "j < ?i" "infos s j = Some c'" "cl_type c' = t'" "clientUuidMap s (uuid c') = Some j" by blast
        with u show ?thesis by (auto simp: f)
      qed
      then show "j < next_cid s'" "\<exists>c. infos s' j = Some c \<and> cl_type c = t' \<and> clientUuidMap s' (uuid c) = Some j" by blast+
    qed
  next
    fix u' j assume "clientUuidMap s' u' = Some j"
    then consider "u' = u" "j = ?i" | "u' \<noteq> u" "clientUuidMap s u' = Some j" by (auto simp: f(2) split: if_splits)
    then show "\<exists>c. infos s' j = Some c \<and> uuid c = u' \<and> j \<in> set (vec (cl_type c) s')"
    proof cases
      case 1
      then show ?thesis by (simp add: f v c_def)
    next
      case 2
      from d(4) [OF 2(2)] obtain c' where c': "infos s j = Some c'" "uuid c' = u'" "j \<in> set (vec (cl_type c') s)" by blast
      with new have "j \<noteq> ?i" by blast
      with c' show ?thesis by (auto simp: f v)
    qed
  qed
  then show ?thesis by (simp add: s'_def)
qed

lemma resolve_inv: "server_inv s \<Longrightarrow> server_inv (snd (resolve_uuid answers h t nm u rs s))"
proof (induction answers h t nm u rs s rule: resolve_uuid.induct)
  case (1 answers h t nm u rs s)
  then show ?case
    using add_client_inv [of s u h t nm]
    by (subst resolve_uuid.simps) (auto split: list.splits reply.splits prod.splits)
qed

lemma connect_inv: "server_inv s \<Longrightarrow> server_inv (snd (connect answers h rs s))"
  by (auto simp: connect_def resolve_inv split: list.splits reply.splits)

datatype server_event =
    Connect "nat \<Rightarrow> bool" nat "reply list" | Aborted cid | Clear | SendAll "nat \<Rightarrow> bool"
  | SendAny "nat \<Rightarrow> bool" unit_code "nat list"

fun server_step :: "server_event \<Rightarrow> server \<Rightarrow> server option" where
  "server_step (Connect answers h rs) s =
     (case connect answers h rs s of (ExitProcess, s') \<Rightarrow> None | (_, s') \<Rightarrow> Some s')"
| "server_step (Aborted i) s = Some (mark_aborted i s)"
| "server_step Clear s = clear_aborted s"
| "server_step (SendAll answers) s = sendToAll answers s"
| "server_step (SendAny answers t rs) s = sendToAnyOfType answers t rs s"

lemma send_any_inv: "send_any answers t rs s = Some s' \<Longrightarrow> server_inv s \<Longrightarrow> server_inv s'"
proof (induction rs arbitrary: s)
  case (Cons r rs)
  show ?case
  proof (cases "vec t s = []")
    case True
    with Cons.prems show ?thesis by simp
  next
    case False
    then have "vec t s ! (r mod length (vec t s)) \<in> set (vec t s)" by simp
    from sendTo_ok [OF Cons.prems(2) this, of answers] obtain ok s1 where
      "sendTo answers (vec t s ! (r mod length (vec t s))) s = Some (ok, s1)" "server_inv s1" by blast
    with False Cons show ?thesis by (simp split: if_splits)
  qed
qed (simp split: if_splits)

lemma sendToAll_inv:
  assumes "server_inv s" "sendToAll answers s = Some s'"
  shows "server_inv s'"
proof (cases "hasClients s")
  case True
  have "handles (\<lambda>i. handle (the (infos s i))) s" by (simp add: handles_def)
  from over_types_spec [OF assms(1) this, of "types s" answers] server_invD(1) [OF assms(1)] True assms(2)
  show ?thesis by (auto simp: sendToAll_def sends_def strict_sorted_iff)
next
  case False
  with assms show ?thesis by (simp add: sendToAll_def)
qed

lemma server_step_inv: "server_inv s \<Longrightarrow> server_step e s = Some s' \<Longrightarrow> server_inv s'"
proof (cases e)
  case (Connect answers h rs)
  moreover assume "server_inv s" "server_step e s = Some s'"
  ultimately show ?thesis using connect_inv [of s answers h rs] by (auto split: prod.splits outcome.splits)
next
  case Clear
  moreover assume "server_inv s" "server_step e s = Some s'"
  ultimately show ?thesis using clear_aborted_ok [of s] by auto
next
  case (SendAny answers t rs)
  moreover assume "server_inv s" "server_step e s = Some s'"
  ultimately show ?thesis using send_any_inv [of answers t rs s s'] by (auto simp: sendToAnyOfType_def split: if_splits)
qed (auto simp: mark_aborted_inv sendToAll_inv)

interpretation srv: machine server_step server_inv
  by unfold_locales (rule server_step_inv)

lemma new_server_inv: "server_inv new_server"
  by (simp add: server_inv_def new_server_def types_def vec_def)


section \<open>Samples\<close>

definition hello :: "64 word \<Rightarrow> unit_code \<Rightarrow> reply" where
  "hello u t = Reply True (newMetaInfo\<lparr>package_type := UPDATE_UNIT_TYPE, src_uuid := u\<rparr>) t ''unit''"

definition two_units :: "server_event list" where
  "two_units = [Connect (\<lambda>h. True) 4 [hello 10 2], Connect (\<lambda>h. True) 5 [hello 11 2]]"

definition two_server :: server where
  "two_server = the (run server_step two_units new_server)"

lemma two_runs: "run server_step two_units new_server = Some two_server"
proof -
  have "run server_step two_units new_server \<noteq> None"
    by (simp add: two_units_def connect_def hello_def resolve_uuid.simps new_server_def add_client_def Let_def)
  then show ?thesis by (simp add: two_server_def)
qed

lemma two_fields: "vec 2 two_server = [0, 1]" "map snd (entries two_server) = [0, 1]" "clients two_server = 2"
  "infos two_server 0 = Some \<lparr>handle = 4, cl_type = 2, uuid = 10, prettyName = ''unit'', cl_abort = False\<rparr>"
  "infos two_server 1 = Some \<lparr>handle = 5, cl_type = 2, uuid = 11, prettyName = ''unit'', cl_abort = False\<rparr>"
  "sent two_server = []"
  by (simp_all add: two_server_def two_units_def connect_def hello_def resolve_uuid.simps new_server_def add_client_def
      Let_def vec_def entries_def clients_def types_def)


lemma two_inv: "server_inv two_server"
  by (rule srv.run_inv [OF two_runs new_server_inv])

end
