(* ===== verification/Server_Routing.thy ===== *)
theory Server_Routing
  imports Server_Registry
begin

text \<open>
  The server program \<open>examples/tcp_server_example.cpp\<close>: the callbacks that route the messages of the
  clients, and its menu. A callback gets a message from the extraction loop and uses the sending
  functions of the registry; every call copies one buffer to one or more handles. What depends on the
  outside is the parameter \<open>env\<close>: which handles accept data, the random choices, the peers' addresses,
  the protocol library's encoding, and the randomly made work items of the menu.
\<close>

section \<open>Codes and their names\<close>

definition WORK :: package_code where "WORK = 1"
definition REROUTE_WORK :: package_code where "REROUTE_WORK = 2"
definition TASK_FINISHED :: package_code where "TASK_FINISHED = 4"
definition TEXT :: package_code where "TEXT = 5"
definition MONITOR_REQUEST :: package_code where "MONITOR_REQUEST = 8"
definition CONNECT_ACTION :: package_code where "CONNECT_ACTION = 9"
definition CONNECT_ACTION_INFO :: package_code where "CONNECT_ACTION_INFO = 10"
definition CONFIGURATION_ACTION :: package_code where "CONFIGURATION_ACTION = 11"
definition UUID_FOR_UNIT_REQUEST :: package_code where "UUID_FOR_UNIT_REQUEST = 12"
definition UUID_FOR_UNIT_RESPONSE :: package_code where "UUID_FOR_UNIT_RESPONSE = 13"

definition COMPUTE_UNIT :: unit_code where "COMPUTE_UNIT = 2"
definition MONITOR_UNIT :: unit_code where "MONITOR_UNIT = 5"

lemmas codes = WORK_def REROUTE_WORK_def TASK_FINISHED_def TEXT_def MONITOR_REQUEST_def CONNECT_ACTION_def
  CONNECT_ACTION_INFO_def CONFIGURATION_ACTION_def UUID_FOR_UNIT_REQUEST_def UUID_FOR_UNIT_RESPONSE_def

definition unitTypeToString :: "unit_code \<Rightarrow> string" where
  "unitTypeToString t = (case map_of
     [(0, ''Undefined''), (1, ''QueryPlaner''), (2, ''ComputeUnit''), (3, ''MemoryUnit''), (4, ''MetaUnit''),
      (5, ''MonitorUnit''), (6, ''DatabaseUnit'')] t of Some s \<Rightarrow> s | None \<Rightarrow> ''Unknown unit type'')"

definition packageTypeToString :: "package_code \<Rightarrow> string" where
  "packageTypeToString t = (case map_of
     [(0, ''Undefined''), (1, ''Work''), (2, ''RerouteWork''), (3, ''NewTask''), (4, ''TaskFinished''), (5, ''Text''),
      (6, ''UpdateUnitType''), (7, ''QueryPlan''), (8, ''MonitorRequest''), (9, ''ConnectAction''),
      (10, ''ConnectActionInfo''), (11, ''ConfigurationAction''), (12, ''UuidForTypeRequest''),
      (13, ''UuidForTypeResponse''), (14, ''UuidCollision'')] t of Some s \<Rightarrow> s | None \<Rightarrow> ''Unknown package type'')"

section \<open>Buffers\<close>

record env =
  answers :: "nat \<Rightarrow> bool"
  randoms :: "nat list"
  first_try :: nat
  peer_address :: "nat \<Rightarrow> string"
  requested_unit :: "byte list \<Rightarrow> unit_code"
  encode_units :: "unit_code \<Rightarrow> (string \<times> 64 word) list \<Rightarrow> byte list"
  menu_items :: "byte list list"

definition text_bytes :: "string \<Rightarrow> byte list" where
  "text_bytes s = map of_char s"

definition new_header :: "package_code \<Rightarrow> 64 word \<Rightarrow> 64 word \<Rightarrow> nat \<Rightarrow> TCPMetaInfo" where
  "new_header p src tgt len =
     newMetaInfo\<lparr>package_type := p, payload_size := of_nat len, src_uuid := src, tgt_uuid := tgt\<rparr>"

definition copy_buffer :: "package_code \<Rightarrow> 64 word \<Rightarrow> 64 word \<Rightarrow> byte list \<Rightarrow> byte list" where
  "copy_buffer p src tgt data = header_bytes (new_header p src tgt (length data)) @ data"

text \<open>The sending functions take a length of 32 bits.\<close>

definition wire :: "byte list \<Rightarrow> byte list" where
  "wire buf = take (length buf mod 2 ^ 32) buf"

type_synonym posts = "(nat \<times> byte list) list"

text \<open>What a call of the registry has sent: its handles, each with the buffer.\<close>

definition posted :: "byte list \<Rightarrow> server \<Rightarrow> server option \<Rightarrow> (server \<times> posts) option" where
  "posted buf s r = map_option (\<lambda>s'. (s', map (\<lambda>h. (h, wire buf)) (drop (length (sent s)) (sent s')))) r"

section \<open>The callbacks\<close>

definition to_monitors :: "env \<Rightarrow> server \<Rightarrow> server option" where
  "to_monitors E s = sendToAllOfType (answers E) MONITOR_UNIT s"

text \<open>To one client, whether it accepts the data or not, and then to all monitors.\<close>

definition to_target :: "env \<Rightarrow> cid \<Rightarrow> server \<Rightarrow> server option" where
  "to_target E i s = (case sendTo (answers E) i s of None \<Rightarrow> None | Some (_, s') \<Rightarrow> to_monitors E s')"

text \<open>\<open>connect_forward_cb\<close>, \<open>config_forward_cb\<close>, \<open>connect_info_forward_cb\<close> and \<open>finished_forward_cb\<close> differ in
  the type of the message.\<close>

definition forward_cb :: "env \<Rightarrow> package_code \<Rightarrow> message \<Rightarrow> server \<Rightarrow> (server \<times> posts) option" where
  "forward_cb E p m s = (case getClientByUuid (tgt_uuid (fst m)) s of
     None \<Rightarrow> Some (s, [])
   | Some i \<Rightarrow> posted (copy_buffer p (src_uuid (fst m)) (tgt_uuid (fst m)) (snd m)) s (to_target E i s))"

definition connect_forward_cb :: "env \<Rightarrow> message \<Rightarrow> server \<Rightarrow> (server \<times> posts) option" where
  "connect_forward_cb E = forward_cb E CONNECT_ACTION"

definition config_forward_cb :: "env \<Rightarrow> message \<Rightarrow> server \<Rightarrow> (server \<times> posts) option" where
  "config_forward_cb E = forward_cb E CONFIGURATION_ACTION"

definition connect_info_forward_cb :: "env \<Rightarrow> message \<Rightarrow> server \<Rightarrow> (server \<times> posts) option" where
  "connect_info_forward_cb E = forward_cb E CONNECT_ACTION_INFO"

definition finished_forward_cb :: "env \<Rightarrow> message \<Rightarrow> server \<Rightarrow> (server \<times> posts) option" where
  "finished_forward_cb E = forward_cb E TASK_FINISHED"

text \<open>A text without a target is only printed.\<close>

definition text_cb :: "env \<Rightarrow> message \<Rightarrow> server \<Rightarrow> (server \<times> posts) option" where
  "text_cb E m s = (if tgt_uuid (fst m) = 0 then Some (s, []) else forward_cb E TEXT m s)"

text \<open>Work without a target goes to any compute unit.\<close>

definition work_forward_cb :: "env \<Rightarrow> message \<Rightarrow> server \<Rightarrow> (server \<times> posts) option" where
  "work_forward_cb E m s =
     (if tgt_uuid (fst m) = 0 then
        posted (copy_buffer WORK (src_uuid (fst m)) 0 (snd m)) s
          (case sendToAnyOfType (answers E) COMPUTE_UNIT (randoms E) s of None \<Rightarrow> None | Some s' \<Rightarrow> to_monitors E s')
      else forward_cb E WORK m s)"

text \<open>Rerouted work goes to any compute unit but the sender, in the name of the target.\<close>

definition reroute_work_cb :: "env \<Rightarrow> message \<Rightarrow> server \<Rightarrow> (server \<times> posts) option" where
  "reroute_work_cb E m s =
     posted (copy_buffer REROUTE_WORK (tgt_uuid (fst m)) 0 (snd m)) s
       (case rerouteToAnyOfType (answers E) COMPUTE_UNIT (src_uuid (fst m)) (first_try E) s of
          None \<Rightarrow> None | Some s' \<Rightarrow> to_monitors E s')"

text \<open>\<open>monitorInfoToString\<close>: the clients by type, after those that are gone have been removed.\<close>

fun client_lines :: "(nat \<Rightarrow> string) \<Rightarrow> (cid \<rightharpoonup> ClientInfo) \<Rightarrow> cid list \<Rightarrow> string option" where
  "client_lines peer info [] = Some []"
| "client_lines peer info (i # is) = (case info i of
     None \<Rightarrow> None
   | Some c \<Rightarrow> map_option (\<lambda>rest. ''  '' @ prettyName c @ '' ('' @ peer (handle c) @ '')\<newline>'' @ rest) (client_lines peer info is))"

fun type_blocks :: "(nat \<Rightarrow> string) \<Rightarrow> (cid \<rightharpoonup> ClientInfo) \<Rightarrow> (unit_code \<times> cid list) list \<Rightarrow> string option" where
  "type_blocks peer info [] = Some []"
| "type_blocks peer info ((t, v) # m) = (case client_lines peer info v of
     None \<Rightarrow> None
   | Some ls \<Rightarrow> map_option (\<lambda>rest. unitTypeToString t @ '' [\<newline>'' @ ls @ '']\<newline>'' @ rest) (type_blocks peer info m))"

definition monitorInfoToString :: "(nat \<Rightarrow> string) \<Rightarrow> server \<Rightarrow> (string \<times> server) option" where
  "monitorInfoToString peer s = (case clear_aborted s of
     None \<Rightarrow> None
   | Some s' \<Rightarrow> map_option (\<lambda>txt. (txt, s')) (type_blocks peer (infos s') (clientMap s')))"

text \<open>The requester is looked up before the clients that are gone are removed.\<close>

definition monitor_cb :: "env \<Rightarrow> message \<Rightarrow> server \<Rightarrow> (server \<times> posts) option" where
  "monitor_cb E m s = (case getClientByUuid (src_uuid (fst m)) s of
     None \<Rightarrow> Some (s, [])
   | Some i \<Rightarrow> (case monitorInfoToString (peer_address E) s of
       None \<Rightarrow> None
     | Some (txt, s') \<Rightarrow>
         posted (copy_buffer TEXT (src_uuid (fst m)) (tgt_uuid (fst m)) (text_bytes txt)) s' (to_target E i s')))"

text \<open>The memory for the answer to a request for uuids is allocated while the payload size of its header
  is still zero: writing a payload into it leaves the allocation (no value).\<close>

definition serialize_into :: "nat \<Rightarrow> byte list \<Rightarrow> TCPMetaInfo \<Rightarrow> byte list option" where
  "serialize_into room item i =
     (let (mem, n) = serializeItemToMemory item i in if n \<le> room then Some mem else None)"

definition uuid_per_client_cb :: "env \<Rightarrow> message \<Rightarrow> server \<Rightarrow> (server \<times> posts) option" where
  "uuid_per_client_cb E m s =
     (let t = requested_unit E (snd m) in
      case getUuidForUnitType t s of
        None \<Rightarrow> None
      | Some (ns, s') \<Rightarrow>
          (let info = newMetaInfo\<lparr>package_type := UUID_FOR_UNIT_RESPONSE, src_uuid := src_uuid (fst m), tgt_uuid := tgt_uuid (fst m)\<rparr> in
           case serialize_into (bytesize info) (encode_units E t ns) info of
             None \<Rightarrow> None
           | Some buf \<Rightarrow> (case getClientByUuid (src_uuid (fst m)) s' of
               None \<Rightarrow> Some (s', [])
             | Some i \<Rightarrow> posted buf s' (to_target E i s'))))"

text \<open>The callbacks as \<open>main\<close> registers them.\<close>

definition server_callbacks :: "(package_code \<times> (env \<Rightarrow> message \<Rightarrow> server \<Rightarrow> (server \<times> posts) option)) list" where
  "server_callbacks =
     [(TEXT, text_cb), (WORK, work_forward_cb), (REROUTE_WORK, reroute_work_cb), (TASK_FINISHED, finished_forward_cb),
      (MONITOR_REQUEST, monitor_cb), (CONNECT_ACTION, connect_forward_cb), (CONNECT_ACTION_INFO, connect_info_forward_cb),
      (UUID_FOR_UNIT_REQUEST, uuid_per_client_cb), (CONFIGURATION_ACTION, config_forward_cb)]"

definition routed :: "package_code \<Rightarrow> bool" where
  "routed p \<longleftrightarrow> p \<in> set (map fst server_callbacks)"

definition dispatch :: "env \<Rightarrow> message \<Rightarrow> server \<Rightarrow> (server \<times> posts) option" where
  "dispatch E m s = (case map_of server_callbacks (package_type (fst m)) of
     Some cb \<Rightarrow> cb E m s | None \<Rightarrow> Some (s, []))"

fun dispatch_all :: "env \<Rightarrow> message list \<Rightarrow> server \<Rightarrow> (server \<times> posts) option" where
  "dispatch_all E [] s = Some (s, [])"
| "dispatch_all E (m # ms) s = (case dispatch E m s of
     None \<Rightarrow> None
   | Some (s1, ps) \<Rightarrow> map_option (\<lambda>(s2, qs). (s2, ps @ qs)) (dispatch_all E ms s1))"

text \<open>What arrives at a handle.\<close>

definition arriving :: "nat \<Rightarrow> posts \<Rightarrow> byte list" where
  "arriving h ps = concat (map snd (filter (\<lambda>p. fst p = h) ps))"

section \<open>The menu\<close>

text \<open>\<open>std::stol\<close>: blanks, a sign, digits; what follows them is ignored, a missing number and one out of
  64 bits throws.\<close>

definition stol :: "string \<Rightarrow> int option" where
  "stol str =
     (let s = dropWhile is_space str;
          neg = (s \<noteq> [] \<and> hd s = CHR ''-'');
          s = (if s \<noteq> [] \<and> hd s \<in> {CHR ''-'', CHR ''+''} then tl s else s);
          ds = takeWhile is_digit s;
          n = foldl (\<lambda>n c. 10 * n + (of_char c - 48)) (0::int) ds;
          n = (if neg then - n else n)
      in if ds = [] \<or> n < - (2 ^ 63) \<or> 2 ^ 63 \<le> n then None else Some n)"

definition work_stream :: "byte list list \<Rightarrow> byte list" where
  "work_stream items = concat (map (\<lambda>it. fst (serializeItemToMemory it (newMetaInfo\<lparr>package_type := WORK\<rparr>))) items)"

definition to_compute :: "env \<Rightarrow> byte list \<Rightarrow> server \<Rightarrow> (server \<times> posts) option" where
  "to_compute E buf s = posted buf s (sendToAllOfType (answers E) COMPUTE_UNIT s)"

text \<open>Ten items in three parts that cut messages in two, two seconds apart.\<close>

definition message_parts :: "byte list \<Rightarrow> byte list list" where
  "message_parts buf =
     (let a = length buf div 3; b = (length buf - a) div 2
      in [take a buf, take b (drop a buf), drop (a + b) buf])"

fun send_parts :: "env \<Rightarrow> byte list list \<Rightarrow> server \<Rightarrow> (server \<times> posts) option" where
  "send_parts E [] s = Some (s, [])"
| "send_parts E (b # bs) s = (case to_compute E b s of
     None \<Rightarrow> None
   | Some (s1, ps) \<Rightarrow> map_option (\<lambda>(s2, qs). (s2, ps @ qs)) (send_parts E bs s1))"

definition greeting :: "byte list" where
  "greeting = copy_buffer TEXT 0 0 (text_bytes ''Hi from the server.'')"

definition menu_choice :: "env \<Rightarrow> int \<Rightarrow> server \<Rightarrow> (server \<times> posts) option" where
  "menu_choice E k s =
     (if k = 1 then posted greeting s (sendToAll (answers E) s)
      else if k = 2 then to_compute E (work_stream (menu_items E)) s
      else if k = 3 then send_parts E (message_parts (work_stream (menu_items E))) s
      else if k = 4 then map_option (\<lambda>s'. (s', [])) (clear_aborted s)
      else Some (s, []))"

text \<open>Lines until \<open>exit\<close>, or \<open>-1\<close>, which the variable also holds when the input has ended.\<close>

fun menu_loop :: "(env \<times> string) list \<Rightarrow> server \<Rightarrow> (server \<times> posts) option" where
  "menu_loop [] s = Some (closeConnection s, [])"
| "menu_loop ((E, op) # ops) s =
     (if op = ''-1'' \<or> to_lower op = ''exit'' then Some (closeConnection s, [])
      else case stol (to_lower op) of
        None \<Rightarrow> menu_loop ops s
      | Some k \<Rightarrow> (case menu_choice E k s of
          None \<Rightarrow> None
        | Some (s1, ps) \<Rightarrow> map_option (\<lambda>(s2, qs). (s2, ps @ qs)) (menu_loop ops s1)))"

section \<open>Sending to clients that accept\<close>

definition handle_of :: "server \<Rightarrow> cid \<Rightarrow> nat" where
  "handle_of s i = handle (the (infos s i))"

definition sent_to :: "nat list \<Rightarrow> server \<Rightarrow> server" where
  "sent_to hs s = s\<lparr>sent := sent s @ hs\<rparr>"

lemma sent_to_simps [simp]:
  "vec t (sent_to hs s) = vec t s" "types (sent_to hs s) = types s" "infos (sent_to hs s) = infos s"
  "clientUuidMap (sent_to hs s) = clientUuidMap s" "hasClients (sent_to hs s) = hasClients s" "sent (sent_to hs s) = sent s @ hs"
  "server_inv (sent_to hs s) = server_inv s" "handle_of (sent_to hs s) = handle_of s" "sent_to [] s = s"
  "sent_to hs (sent_to gs s) = sent_to (gs @ hs) s"
  by (simp_all add: sent_to_def vec_def types_def hasClients_def server_inv_def handle_of_def [abs_def])

lemma log_send_to: "log_send h s = sent_to [h] s"
  by (simp add: log_send_def sent_to_def)

text \<open>All clients of a type accept data.\<close>

definition accepting :: "env \<Rightarrow> unit_code \<Rightarrow> server \<Rightarrow> bool" where
  "accepting E t s \<longleftrightarrow> (\<forall>i \<in> set (vec t s). answers E (handle_of s i))"

lemma accepting_sent [simp]: "accepting E t (sent_to hs s) = accepting E t s"
  by (simp add: accepting_def)

lemma send_copy_all:
  assumes "\<forall>i \<in> set is. \<exists>c. infos s i = Some c \<and> ans (handle c)"
  shows "send_copy ans t is s = Some (sent_to (map (handle_of s) is) s)"
  using assms
proof (induction "is" arbitrary: s)
  case Nil
  then show ?case by (subst send_copy.simps) simp
next
  case (Cons i "is")
  then obtain c where c: "infos s i = Some c" "ans (handle c)" by auto
  with Cons have "send_copy ans t is (sent_to [handle c] s) = Some (sent_to (handle c # map (handle_of s) is) s)" by simp
  with c show ?case by (subst send_copy.simps) (simp add: log_send_to handle_of_def)
qed

lemma type_all:
  assumes "server_inv s" "accepting E t s"
  shows "sendToAllOfType (answers E) t s = Some (sent_to (map (handle_of s) (vec t s)) s)"
proof -
  have "\<forall>i \<in> set (vec t s). \<exists>c. infos s i = Some c \<and> answers E (handle c)"
    using assms server_invD(3) [OF assms(1)] by (fastforce simp: accepting_def handle_of_def)
  from send_copy_all [OF this] have *: "send_copy (answers E) t (vec t s) s = Some (sent_to (map (handle_of s) (vec t s)) s)" .
  show ?thesis
  proof (cases "vec t s = []")
    case True
    then show ?thesis using * by (simp add: sendToAllOfType_def)
  next
    case False
    then show ?thesis using * no_clients vec_types by (auto simp: sendToAllOfType_def)
  qed
qed

text \<open>A registered client that accepts data.\<close>

definition ready :: "env \<Rightarrow> cid \<Rightarrow> server \<Rightarrow> bool" where
  "ready E i s \<longleftrightarrow> (\<exists>c. infos s i = Some c \<and> \<not> cl_abort c \<and> answers E (handle c))"

lemma ready_sent [simp]: "ready E i (sent_to hs s) = ready E i s"
  by (simp add: ready_def)

lemma ready_sendTo: "ready E i s \<Longrightarrow> sendTo (answers E) i s = Some (True, sent_to [handle_of s i] s)"
  by (auto simp: ready_def sendTo_def log_send_to handle_of_def)

definition monitors :: "server \<Rightarrow> nat list" where
  "monitors s = map (handle_of s) (vec MONITOR_UNIT s)"

lemma target_and_monitors:
  assumes "server_inv s" "accepting E MONITOR_UNIT s" "ready E i s"
  shows "to_target E i s = Some (sent_to (handle_of s i # monitors s) s)"
  using assms by (simp add: to_target_def ready_sendTo to_monitors_def type_all monitors_def)

lemma posted_sent: "posted buf s (Some (sent_to hs s)) = Some (sent_to hs s, map (\<lambda>h. (h, wire buf)) hs)"
  by (simp add: posted_def)

section \<open>Forwarding\<close>

definition forwarded_types :: "package_code set" where
  "forwarded_types = {TEXT, WORK, TASK_FINISHED, CONNECT_ACTION, CONNECT_ACTION_INFO, CONFIGURATION_ACTION}"

text \<open>A message of a client as its sender builds it, for a given target.\<close>

definition addressed :: "64 word \<Rightarrow> message \<Rightarrow> bool" where
  "addressed u m \<longleftrightarrow> package_type (fst m) \<in> forwarded_types \<and> tgt_uuid (fst m) = u \<and>
     message_delimiter (fst m) = TCP_START_DELIM \<and> unit_type (fst m) = 0 \<and>
     unat (payload_size (fst m)) = length (snd m) \<and> 32 + length (snd m) < 2 ^ 32"

lemma forwarded_callback:
  "p \<in> forwarded_types \<Longrightarrow> \<exists>cb. map_of server_callbacks p = Some cb \<and> (tgt_uuid (fst m) \<noteq> 0 \<longrightarrow> cb E m s = forward_cb E p m s)"
  unfolding forwarded_types_def
  by (elim insertE emptyE; simp add: server_callbacks_def codes; simp add: text_cb_def work_forward_cb_def
      finished_forward_cb_def connect_forward_cb_def connect_info_forward_cb_def config_forward_cb_def codes)

lemma dispatch_forward:
  assumes "package_type (fst m) \<in> forwarded_types" "tgt_uuid (fst m) \<noteq> 0"
  shows "dispatch E m s = forward_cb E (package_type (fst m)) m s"
  using forwarded_callback [OF assms(1), of m E s] assms(2) by (auto simp: dispatch_def)

lemma copy_is_frame:
  assumes "addressed u m"
  shows "wire (copy_buffer (package_type (fst m)) (src_uuid (fst m)) (tgt_uuid (fst m)) (snd m)) = frame m"
proof -
  have "new_header (package_type (fst m)) (src_uuid (fst m)) (tgt_uuid (fst m)) (length (snd m)) = fst m"
    using assms by (cases "fst m") (simp add: addressed_def new_header_def newMetaInfo_def word_unat_eq_iff unat_of_nat)
  moreover have "length (frame m) mod 2 ^ 32 = length (frame m)"
    using assms by (simp add: addressed_def length_frame)
  ultimately show ?thesis by (simp add: wire_def copy_buffer_def frame_def)
qed

text \<open>A message is passed on unchanged to its target and to every monitor.\<close>

lemma forward_one:
  assumes "server_inv s" "accepting E MONITOR_UNIT s" "clientUuidMap s u = Some i" "ready E i s"
    and "addressed u m" "u \<noteq> 0"
  shows "dispatch E m s = Some (sent_to (handle_of s i # monitors s) s, map (\<lambda>h. (h, frame m)) (handle_of s i # monitors s))"
proof -
  have "dispatch E m s = forward_cb E (package_type (fst m)) m s"
    using assms(5,6) by (intro dispatch_forward) (auto simp: addressed_def)
  also have "\<dots> = posted (copy_buffer (package_type (fst m)) (src_uuid (fst m)) (tgt_uuid (fst m)) (snd m)) s (to_target E i s)"
    using assms(3,5) by (simp add: forward_cb_def getClientByUuid_def addressed_def)
  finally show ?thesis
    by (simp only: target_and_monitors [OF assms(1,2,4)] posted_sent copy_is_frame [OF assms(5)])
qed

lemma forward_all:
  assumes "server_inv s" "accepting E MONITOR_UNIT s" "clientUuidMap s u = Some i" "ready E i s"
    and "\<forall>m \<in> set ms. addressed u m" "u \<noteq> 0"
  shows "\<exists>hs. dispatch_all E ms s =
    Some (sent_to hs s, concat (map (\<lambda>m. map (\<lambda>h. (h, frame m)) (handle_of s i # monitors s)) ms))"
  using assms
proof (induction ms arbitrary: s)
  case (Cons m ms)
  let ?hs = "handle_of s i # monitors s" and ?s = "sent_to (handle_of s i # monitors s) s"
  have one: "dispatch E m s = Some (?s, map (\<lambda>h. (h, frame m)) ?hs)"
    using Cons.prems by (intro forward_one) auto
  have "\<exists>hs. dispatch_all E ms ?s =
      Some (sent_to hs ?s, concat (map (\<lambda>m. map (\<lambda>h. (h, frame m)) (handle_of ?s i # monitors ?s)) ms))"
    using Cons.prems by (intro Cons.IH) auto
  then obtain hs where "dispatch_all E ms ?s = Some (sent_to (?hs @ hs) s, concat (map (\<lambda>m. map (\<lambda>h. (h, frame m)) ?hs) ms))"
    by (auto simp: monitors_def)
  then show ?case unfolding dispatch_all.simps one by auto
qed (auto intro: exI [of _ "[]"])

lemma arriving_append [simp]: "arriving h (ps @ qs) = arriving h ps @ arriving h qs"
  by (simp add: arriving_def)

lemma arriving_one: "distinct hs \<Longrightarrow> h \<in> set hs \<Longrightarrow> arriving h (map (\<lambda>h. (h, b)) hs) = b"
proof (induction hs)
  case (Cons x hs)
  have none: "h \<notin> set hs \<Longrightarrow> arriving h (map (\<lambda>h. (h, b)) hs) = []" for hs
    by (induction hs) (simp_all add: arriving_def)
  from Cons none [of hs] show ?case by (auto simp: arriving_def)
qed simp

lemma arriving_stream:
  "distinct hs \<Longrightarrow> h \<in> set hs \<Longrightarrow> arriving h (concat (map (\<lambda>m. map (\<lambda>h. (h, frame m)) hs) ms)) = stream ms"
  by (induction ms) (simp_all add: arriving_one, simp add: arriving_def)

section \<open>Rerouting\<close>

lemma find_ready:
  assumes "\<forall>j \<in> set (vec t s). ready E j s" "i + n \<le> length (vec t s)"
  shows "find_and_send (answers E) t u i n s =
    (case filter (\<lambda>j. uuid (the (infos s j)) \<noteq> u) (take n (drop i (vec t s))) of
       [] \<Rightarrow> Some (False, s) | j # _ \<Rightarrow> Some (True, sent_to [handle_of s j] s))"
  using assms(2)
proof (induction n arbitrary: i)
  case (Suc n)
  let ?j = "vec t s ! i"
  have r: "ready E ?j s" using assms(1) Suc.prems by simp
  then obtain c where c: "infos s ?j = Some c" by (auto simp: ready_def)
  have t: "take (Suc n) (drop i (vec t s)) = ?j # take n (drop (Suc i) (vec t s))"
    using Suc.prems by (simp flip: Cons_nth_drop_Suc)
  show ?case using Suc ready_sendTo [OF r] c unfolding t by simp
qed simp

text \<open>The compute units in the order in which rerouting tries them.\<close>

definition try_order :: "env \<Rightarrow> server \<Rightarrow> cid list" where
  "try_order E s = (let v = vec COMPUTE_UNIT s; k = first_try E mod length v in drop k v @ take k v)"

lemma reroute_ready:
  assumes "\<forall>j \<in> set (vec COMPUTE_UNIT s). ready E j s"
  shows "rerouteToAnyOfType (answers E) COMPUTE_UNIT u (first_try E) s =
    (case filter (\<lambda>j. uuid (the (infos s j)) \<noteq> u) (try_order E s) of [] \<Rightarrow> Some s | j # _ \<Rightarrow> Some (sent_to [handle_of s j] s))"
proof (cases "vec COMPUTE_UNIT s = []")
  case True
  then show ?thesis by (simp add: rerouteToAnyOfType_def try_order_def)
next
  case False
  define v where "v = vec COMPUTE_UNIT s"
  define k where "k = first_try E mod length v"
  have k: "k \<le> length v" using False by (simp add: k_def v_def less_imp_le)
  have "hasClients s" "COMPUTE_UNIT \<in> set (types s)" using False no_clients vec_types by blast+
  then show ?thesis
    using False find_ready [OF assms, of k "length v - k" u] find_ready [OF assms, of 0 k u] k
    by (auto simp: rerouteToAnyOfType_def try_order_def Let_def simp flip: v_def k_def split: list.splits)
qed

section \<open>Properties\<close>

lemma addressed_routed: "\<forall>m \<in> set ms. addressed u m \<Longrightarrow> filter (\<lambda>m. routed (package_type (fst m))) ms = ms"
proof -
  have r: "routed p" if p: "p \<in> forwarded_types" for p
  proof -
    obtain cb where "map_of server_callbacks p = Some cb" using forwarded_callback [OF p] by blast
    then have "(p, cb) \<in> set server_callbacks" by (rule map_of_SomeD)
    from imageI [OF this, of fst] show ?thesis by (simp add: routed_def)
  qed
  assume "\<forall>m \<in> set ms. addressed u m"
  with r show ?thesis by (simp add: filter_id_conv addressed_def)
qed


text \<open>C29 Rerouted work never goes back: with all compute units and monitors accepting data, it goes to
  the first compute unit, from a random one on and round, whose uuid is not the sender's, if there is
  one, and a copy to every monitor; its source is then the former target.\<close>

theorem reroute_avoids_sender:
  assumes "server_inv s" "accepting E MONITOR_UNIT s" "\<forall>j \<in> set (vec COMPUTE_UNIT s). ready E j s"
    and "package_type (fst m) = REROUTE_WORK"
    and "others = filter (\<lambda>j. uuid (the (infos s j)) \<noteq> src_uuid (fst m)) (try_order E s)"
    and "hs = map (handle_of s) (take 1 others) @ monitors s"
  shows "dispatch E m s = Some (s\<lparr>sent := sent s @ hs\<rparr>,
    map (\<lambda>h. (h, wire (copy_buffer REROUTE_WORK (tgt_uuid (fst m)) 0 (snd m)))) hs)"
proof -
  have "rerouteToAnyOfType (answers E) COMPUTE_UNIT (src_uuid (fst m)) (first_try E) s =
      Some (sent_to (map (handle_of s) (take 1 others)) s)"
    unfolding reroute_ready [OF assms(3)] assms(5) [symmetric] by (cases others) simp_all
  moreover have "to_monitors E (sent_to gs s) = Some (sent_to (gs @ monitors s) s)" for gs
    using assms(1,2) by (simp add: to_monitors_def type_all monitors_def)
  moreover have "dispatch E m s = reroute_work_cb E m s"
    by (simp add: dispatch_def server_callbacks_def assms(4) codes)
  ultimately have "dispatch E m s = posted (copy_buffer REROUTE_WORK (tgt_uuid (fst m)) 0 (snd m)) s (Some (sent_to hs s))"
    by (simp add: reroute_work_cb_def assms(6))
  then show ?thesis unfolding posted_sent by (simp add: sent_to_def)
qed

text \<open>Every answer to a request for uuids overruns its memory.\<close>

lemma uuid_answer_overruns: "(\<And>t ns. encode_units E t ns \<noteq> []) \<Longrightarrow> uuid_per_client_cb E m s = None"
  by (simp add: uuid_per_client_cb_def serialize_into_def serializeItemToMemory_def bytesize_def newMetaInfo_def Let_def
      split: option.splits)

text \<open>A stream of work items that the menu cuts into parts arrives complete at every compute unit.\<close>

lemma message_parts_all: "concat (message_parts buf) = buf"
proof -
  have "drop (a + b) buf = drop b (drop a buf)" for a b by (simp add: add.commute)
  then have "take a buf @ take b (drop a buf) @ drop (a + b) buf = buf" for a b
    by (metis append_take_drop_id)
  then show ?thesis by (simp add: message_parts_def Let_def)
qed

lemma cut_stream_arrives:
  assumes "server_inv s" "accepting E COMPUTE_UNIT s" "distinct (map (handle_of s) (vec COMPUTE_UNIT s))"
    and "h \<in> set (map (handle_of s) (vec COMPUTE_UNIT s))" "\<forall>b \<in> set bs. length b < 2 ^ 32"
  shows "\<exists>hs ps. send_parts E bs s = Some (sent_to hs s, ps) \<and> arriving h ps = concat bs"
  using assms
proof (induction bs arbitrary: s)
  case Nil
  then show ?case by (auto simp: arriving_def intro!: exI [of _ "[]"])
next
  case (Cons b bs)
  let ?hs = "map (handle_of s) (vec COMPUTE_UNIT s)"
  have one: "to_compute E b s = Some (sent_to ?hs s, map (\<lambda>h. (h, b)) ?hs)"
    using Cons.prems(5) by (simp add: to_compute_def type_all [OF Cons.prems(1,2)] posted_sent wire_def)
  have "\<exists>hs ps. send_parts E bs (sent_to ?hs s) = Some (sent_to hs (sent_to ?hs s), ps) \<and> arriving h ps = concat bs"
    by (rule Cons.IH) (use Cons.prems in simp_all)
  then obtain hs ps where r: "send_parts E bs (sent_to ?hs s) = Some (sent_to (?hs @ hs) s, ps)" "arriving h ps = concat bs"
    by auto
  with arriving_one [OF Cons.prems(3,4), of b] one show ?case by auto
qed

section \<open>A server with two compute units and a monitor\<close>

definition three_units :: "server_event list" where
  "three_units = [Connect (\<lambda>_. True) 4 [hello 10 2], Connect (\<lambda>_. True) 5 [hello 11 2], Connect (\<lambda>_. True) 6 [hello 12 5]]"

definition three_server :: server where
  "three_server = the (run server_step three_units new_server)"

lemma three_runs: "run server_step three_units new_server = Some three_server"
proof -
  have "run server_step three_units new_server \<noteq> None"
    by (simp add: three_units_def connect_def hello_def resolve_uuid.simps new_server_def add_client_def Let_def)
  then show ?thesis by (simp add: three_server_def)
qed

lemma three_inv: "server_inv three_server"
  by (rule srv.run_inv [OF three_runs new_server_inv])

lemma three_fields:
  "vec COMPUTE_UNIT three_server = [0, 1]" "vec MONITOR_UNIT three_server = [2]" "clientUuidMap three_server 11 = Some 1"
  "infos three_server 0 = Some \<lparr>handle = 4, cl_type = 2, uuid = 10, prettyName = ''unit'', cl_abort = False\<rparr>"
  "infos three_server 1 = Some \<lparr>handle = 5, cl_type = 2, uuid = 11, prettyName = ''unit'', cl_abort = False\<rparr>"
  "infos three_server 2 = Some \<lparr>handle = 6, cl_type = 5, uuid = 12, prettyName = ''unit'', cl_abort = False\<rparr>"
  "sent three_server = []"
  by (simp_all add: three_server_def three_units_def connect_def hello_def resolve_uuid.simps new_server_def add_client_def
      Let_def vec_def COMPUTE_UNIT_def MONITOR_UNIT_def)

lemma three_facts:
  "accepting E MONITOR_UNIT three_server = answers E 6" "ready E 0 three_server = answers E 4" "ready E 1 three_server = answers E 5"
  "handle_of three_server 0 = 4" "handle_of three_server 1 = 5" "monitors three_server = [6]"
  using three_fields(5) by (simp_all add: accepting_def ready_def handle_of_def monitors_def three_fields)

definition open_env :: env where
  "open_env = \<lparr>answers = (\<lambda>_. True), randoms = [], first_try = 1, peer_address = (\<lambda>_. ''127.0.0.1''),
     requested_unit = (\<lambda>_. 2), encode_units = (\<lambda>_ _. []), menu_items = []\<rparr>"

definition greet_unit :: message where
  "greet_unit = (newMetaInfo\<lparr>package_type := TEXT, payload_size := 2, src_uuid := 10, tgt_uuid := 11\<rparr>, [104, 105])"


theorem reroute_avoids_sender_witness:
  "dispatch open_env (newMetaInfo\<lparr>package_type := REROUTE_WORK, src_uuid := 11, tgt_uuid := 99\<rparr>, [1]) three_server =
    Some (three_server\<lparr>sent := [4, 6]\<rparr>, map (\<lambda>h. (h, wire (copy_buffer REROUTE_WORK 99 0 [1]))) [4, 6])"
proof -
  have t: "try_order open_env three_server = [1, 0]"
    by (simp add: try_order_def three_fields open_env_def Let_def)
  have "\<forall>j \<in> set (vec COMPUTE_UNIT three_server). ready open_env j three_server" "accepting open_env MONITOR_UNIT three_server"
    using three_facts(3) by (simp_all add: three_fields three_facts open_env_def)
  from reroute_avoids_sender [OF three_inv this(2,1) _ refl refl,
      of "(newMetaInfo\<lparr>package_type := REROUTE_WORK, src_uuid := 11, tgt_uuid := 99\<rparr>, [1])"]
  show ?thesis using three_fields(5) by (simp add: t three_fields three_facts newMetaInfo_def)
qed

end
