(* ===== verification/Json_Plan.thy ===== *)
theory Json_Plan
  imports Base_Types
begin

text \<open>
  The first stages of the JSON front end: \<open>src/ir/plan_node.cpp\<close> reads a PostgreSQL plan from a JSON
  value into nodes with raw data, \<open>pruneTree\<close> of \<open>src/ir/json_to_abstract.cpp\<close> removes the nodes that
  have no counterpart in the optimizer and classifies the others by \<open>include/ir/abstract_ir.hpp\<close>.
  The JSON library is a parameter: its value type is \<open>'j\<close>, its accessors are a record. A plan has
  one owner per node in these stages, so it is a tree.
\<close>

section \<open>Raw data\<close>

record PlanParams =
  baseTable :: "Table option"
  filterPredicate :: "string option"
  sortKeys :: "string list"
  parallelWorkers :: int
  pp_index :: string
  lookupKey :: "string option"
  subplanName :: "string option"

text \<open>A \<open>float\<close> is its 32-bit pattern.\<close>

record Estimates =
  e_cardinality :: "32 word"
  e_cost :: "32 word"

record Measures =
  m_cardinality :: "32 word"
  executionTime :: "32 word"
  cacheHits :: "int option"
  cacheMisses :: "int option"

record JsonRawData =
  nodeType :: string
  nodeOperator :: "string option"
  subPlan :: "string option"
  planParams :: PlanParams
  estimates :: Estimates
  measures :: Measures

section \<open>Abstract data\<close>

record AbstractSource =
  basetable :: string
  filters :: "string list"

record AbstractJoin =
  left_table :: string
  right_table :: string
  condition :: string

record AbstractAgg =
  agg_type :: string
  agg_mapping :: string
  agg_alias :: string
  grouping_cols :: "string list"

record AbstractSort =
  column_names :: "string list"
  aliases :: "string list"
  asc :: "bool list"

record AbstractResult =
  output_cols :: "string list"

datatype AbstractData =
    NoAbstract
  | AbsSource AbstractSource
  | AbsJoin AbstractJoin
  | is_AbsAgg: AbsAgg AbstractAgg
  | is_AbsSort: AbsSort AbstractSort
  | AbsResult AbstractResult

datatype jnode = JNode (rawJson: "JsonRawData option") (abstractData: AbstractData) (jchildren: "jnode list")

section \<open>Reading a plan\<close>

text \<open>The accessors of the JSON library: \<open>operator[]\<close> and \<open>isMember\<close>, the tests, the elements of an
  array, and the conversions, which can throw.\<close>

record 'j json_lib =
  js_at :: "'j \<Rightarrow> string \<Rightarrow> 'j"
  js_has :: "'j \<Rightarrow> string \<Rightarrow> bool"
  js_null :: "'j \<Rightarrow> bool"
  js_object :: "'j \<Rightarrow> bool"
  js_array :: "'j \<Rightarrow> bool"
  js_elems :: "'j \<Rightarrow> 'j list"
  js_string :: "'j \<Rightarrow> string res"
  js_bool :: "'j \<Rightarrow> bool res"
  js_int :: "'j \<Rightarrow> int res"
  js_float :: "'j \<Rightarrow> (32 word) res"

text \<open>\<open>json.get(key, default)\<close> with a conversion, and an optional field.\<close>

definition js_get :: "('j, 'm) json_lib_scheme \<Rightarrow> ('j \<Rightarrow> 'a res) \<Rightarrow> 'j \<Rightarrow> string \<Rightarrow> 'a \<Rightarrow> 'a res" where
  "js_get J conv v key d = (if js_has J v key then conv (js_at J v key) else Inr d)"

definition js_opt :: "('j, 'm) json_lib_scheme \<Rightarrow> ('j \<Rightarrow> 'a res) \<Rightarrow> 'j \<Rightarrow> string \<Rightarrow> 'a option res" where
  "js_opt J conv v key = (if js_null J (js_at J v key) then Inr None else bindE (conv (js_at J v key)) (Inr \<circ> Some))"

fun mapE :: "('a \<Rightarrow> 'b res) \<Rightarrow> 'a list \<Rightarrow> 'b list res" where
  "mapE f [] = Inr []"
| "mapE f (x # xs) = bindE (f x) (\<lambda>y. bindE (mapE f xs) (\<lambda>ys. Inr (y # ys)))"

lemma mapE_cong [fundef_cong]:
  assumes "xs = ys" "\<And>x. x \<in> set ys \<Longrightarrow> f x = g x"
  shows "mapE f xs = mapE g ys"
  using assms(2) unfolding assms(1) by (induction ys) auto

lemma mapE_Inr: "mapE f xs = Inr ys \<longleftrightarrow> list_all2 (\<lambda>x y. f x = Inr y) xs ys"
proof (induction xs arbitrary: ys)
  case (Cons x xs)
  then show ?case by (cases ys) (auto simp: bindE_Inr_iff)
qed auto

definition parse_table :: "('j, 'm) json_lib_scheme \<Rightarrow> 'j \<Rightarrow> Table option res" where
  "parse_table J v =
     (if js_null J v \<or> \<not> js_object J v then Inr None
      else bindE (js_get J (js_string J) v ''full_name'' []) (\<lambda>name.
        bindE (js_get J (js_string J) v ''alias'' []) (\<lambda>al.
        bindE (js_get J (js_bool J) v ''virtual'' False) (\<lambda>virt.
        bindE (js_get J (js_string J) v ''schema'' []) (\<lambda>sch.
        Inr (Some (Table (if name = ''dim_date'' then ''dates'' else name) (Some al) virt sch)))))))"

definition parsePlanParams :: "('j, 'm) json_lib_scheme \<Rightarrow> 'j \<Rightarrow> PlanParams res" where
  "parsePlanParams J v =
     bindE (parse_table J (js_at J v ''base_table'')) (\<lambda>bt.
     bindE (js_opt J (js_string J) v ''filter_predicate'') (\<lambda>fp.
     bindE (js_get J (js_int J) v ''parallel_workers'' 0) (\<lambda>pw.
     bindE (js_get J (js_string J) v ''index'' []) (\<lambda>ix.
     bindE (js_opt J (js_string J) v ''lookup_key'') (\<lambda>lk.
     bindE (js_opt J (js_string J) v ''subplan_name'') (\<lambda>sp.
     bindE (let k = js_at J v ''sort_keys'' in
            if js_null J k \<or> \<not> js_array J k then Inr [] else mapE (js_string J) (js_elems J k)) (\<lambda>sk.
     Inr \<lparr>baseTable = bt, filterPredicate = fp, sortKeys = sk, parallelWorkers = pw, pp_index = ix,
       lookupKey = lk, subplanName = sp\<rparr>)))))))"

definition parseEstimates :: "('j, 'm) json_lib_scheme \<Rightarrow> 'j \<Rightarrow> Estimates res" where
  "parseEstimates J v =
     bindE (js_get J (js_float J) v ''cardinality'' 0) (\<lambda>card.
     bindE (js_get J (js_float J) v ''cost'' 0) (\<lambda>cost.
     Inr \<lparr>e_cardinality = card, e_cost = cost\<rparr>))"

definition parseMeasures :: "('j, 'm) json_lib_scheme \<Rightarrow> 'j \<Rightarrow> Measures res" where
  "parseMeasures J v =
     bindE (js_get J (js_float J) v ''cardinality'' 0) (\<lambda>card.
     bindE (js_get J (js_float J) v ''execution_time'' 0) (\<lambda>time.
     bindE (js_opt J (js_int J) v ''cache_hits'') (\<lambda>hits.
     bindE (js_opt J (js_int J) v ''cache_misses'') (\<lambda>misses.
     Inr \<lparr>m_cardinality = card, executionTime = time, cacheHits = hits, cacheMisses = misses\<rparr>))))"

definition parse_raw :: "('j, 'm) json_lib_scheme \<Rightarrow> 'j \<Rightarrow> JsonRawData res" where
  "parse_raw J v =
     bindE (js_get J (js_string J) v ''node_type'' ''Unknown'') (\<lambda>ty.
     bindE (js_opt J (js_string J) v ''operator'') (\<lambda>op.
     bindE (js_opt J (js_string J) v ''subplan'') (\<lambda>sub.
     bindE (parsePlanParams J (js_at J v ''plan_params'')) (\<lambda>pp.
     bindE (parseEstimates J (js_at J v ''estimates'')) (\<lambda>est.
     bindE (parseMeasures J (js_at J v ''measures'')) (\<lambda>mes.
     Inr \<lparr>nodeType = ty, nodeOperator = op, subPlan = sub, planParams = pp, estimates = est, measures = mes\<rparr>))))))"

definition child_values :: "('j, 'm) json_lib_scheme \<Rightarrow> 'j \<Rightarrow> 'j list" where
  "child_values J v = (let cs = js_at J v ''children'' in if js_null J cs \<or> \<not> js_array J cs then [] else js_elems J cs)"

text \<open>The constructor of \<open>PlanNode\<close>. The depth of the JSON value is not visible through the library,
  so the recursion has a bound; \<open>None\<close> is a value that is nested deeper.\<close>

fun parse_plan :: "('j, 'm) json_lib_scheme \<Rightarrow> nat \<Rightarrow> 'j \<Rightarrow> jnode res option" where
  "parse_plan J 0 v = None"
| "parse_plan J (Suc n) v = (case parse_raw J v of
     Inl e \<Rightarrow> Some (Inl e)
   | Inr raw \<Rightarrow>
       (let rs = map (parse_plan J n) (child_values J v) in
        if list_all (\<lambda>r. r \<noteq> None) rs
        then Some (bindE (mapE the rs) (\<lambda>cs. Inr (JNode (Some raw) NoAbstract cs)))
        else None))"

section \<open>Classes of nodes\<close>

definition HASH :: "string set" where
  "HASH = {''Hash''}"

definition GATHER :: "string set" where
  "GATHER = {''Gather'', ''Gather Merge''}"

definition JOIN :: "string set" where
  "JOIN = {''Nested Loop'', ''Hash Join''}"

definition AGG :: "string set" where
  "AGG = {''Aggregate''}"

definition BITMAP :: "string set" where
  "BITMAP = {''Bitmap Heap Scan'', ''Bitmap Index Scan''}"

definition SCAN :: "string set" where
  "SCAN = {''Index Scan'', ''Seq Scan''}"

definition SORT :: "string set" where
  "SORT = {''Incremental Sort'', ''Sort''}"

lemmas class_defs = HASH_def GATHER_def JOIN_def AGG_def BITMAP_def SCAN_def SORT_def

definition isNodeType :: "jnode \<Rightarrow> string set \<Rightarrow> bool" where
  "isNodeType n types \<longleftrightarrow> (case rawJson n of None \<Rightarrow> False | Some r \<Rightarrow> nodeType r \<in> types)"

definition convertToAbstract :: "JsonRawData \<Rightarrow> AbstractData" where
  "convertToAbstract r =
     (if nodeType r \<in> JOIN then AbsJoin \<lparr>left_table = [], right_table = [], condition = []\<rparr>
      else if nodeType r \<in> AGG then AbsAgg \<lparr>agg_type = [], agg_mapping = [], agg_alias = [], grouping_cols = []\<rparr>
      else if nodeType r \<in> SORT then AbsSort \<lparr>column_names = [], aliases = [], asc = []\<rparr>
      else if nodeType r \<in> SCAN \<or> nodeType r \<in> BITMAP then
        AbsSource \<lparr>basetable = (case baseTable (planParams r) of Some t \<Rightarrow> tname t | None \<Rightarrow> []), filters = []\<rparr>
      else if nodeType r = ''Limit'' then AbsResult \<lparr>output_cols = []\<rparr>
      else NoAbstract)"

section \<open>Pruning\<close>

text \<open>Along the first children, the first node of the class, if it has one child, is replaced by it.\<close>

fun removeDeep :: "string set \<Rightarrow> jnode \<Rightarrow> jnode" where
  "removeDeep types (JNode raw a cs) =
     (if isNodeType (JNode raw a cs) types then (case cs of [c] \<Rightarrow> c | _ \<Rightarrow> JNode raw a cs)
      else (case cs of [] \<Rightarrow> JNode raw a cs | c # rest \<Rightarrow> JNode raw a (removeDeep types c # rest)))"

definition removeDeepAggregate :: "jnode \<Rightarrow> jnode" where
  "removeDeepAggregate n = removeDeep AGG n"

definition removeDeepSort :: "jnode \<Rightarrow> jnode" where
  "removeDeepSort n = removeDeep SORT n"

text \<open>A bitmap scan takes over the filter and the index of the bitmap scan below it.\<close>

definition collapse_bitmap :: "JsonRawData \<Rightarrow> jnode list \<Rightarrow> JsonRawData \<times> jnode list" where
  "collapse_bitmap r cs = (case cs of
     [JNode (Some cr) ca ccs] \<Rightarrow>
       if nodeType r \<in> BITMAP \<and> nodeType cr \<in> BITMAP then
         (let p = planParams r; q = planParams cr;
              p = (if filterPredicate p = None then p\<lparr>filterPredicate := filterPredicate q\<rparr> else p);
              p = (if pp_index p = [] then p\<lparr>pp_index := pp_index q\<rparr> else p)
          in (r\<lparr>planParams := p\<rparr>, ccs))
       else (r, cs)
   | _ \<Rightarrow> (r, cs))"

text \<open>A sort directly below an aggregation changes places with it.\<close>

definition swap_agg_sort :: "JsonRawData \<Rightarrow> AbstractData \<Rightarrow> jnode list \<Rightarrow> jnode" where
  "swap_agg_sort r a cs = (case cs of
     JNode cr ca ccs # rest \<Rightarrow>
       if is_AbsAgg a \<and> is_AbsSort ca then JNode cr ca (JNode (Some r) a ccs # rest) else JNode (Some r) a cs
   | [] \<Rightarrow> JNode (Some r) a cs)"

text \<open>What \<open>pruneTree\<close> does with a node whose children have been pruned.\<close>

definition prune_node :: "JsonRawData option \<Rightarrow> AbstractData \<Rightarrow> jnode list \<Rightarrow> jnode" where
  "prune_node raw a cs = (case raw of
     None \<Rightarrow> JNode raw a cs
   | Some r \<Rightarrow>
       if nodeType r \<in> HASH \<and> length cs = 1 then hd cs
       else if nodeType r \<in> GATHER \<and> length cs = 1 then removeDeepAggregate (hd cs)
       else
         let cs1 = (if nodeType r \<in> SORT \<and> length cs = 1 then [removeDeepSort (hd cs)] else cs);
             (r2, cs2) = collapse_bitmap r cs1
         in swap_agg_sort r2 (convertToAbstract r2) cs2)"

fun pruneTree :: "jnode \<Rightarrow> jnode" where
  "pruneTree (JNode raw a cs) = prune_node raw a (map pruneTree cs)"

section \<open>Reading ends\<close>

lemma parse_plan_total:
  assumes "\<And>v c. c \<in> set (child_values J v) \<Longrightarrow> height c < (height v :: nat)"
  shows "height v < n \<Longrightarrow> \<exists>r. parse_plan J n v = Some r"
proof (induction n arbitrary: v)
  case (Suc n)
  have "\<exists>r. parse_plan J n c = Some r" if "c \<in> set (child_values J v)" for c
    using Suc assms [OF that] by simp
  then show ?case by (auto simp: list_all_iff Let_def split: sum.splits)
qed simp

section \<open>What pruning leaves\<close>

definition node_class :: "jnode \<Rightarrow> string set" where
  "node_class n = (case rawJson n of None \<Rightarrow> {} | Some r \<Rightarrow> {nodeType r})"

text \<open>The shape of PostgreSQL plans: every node has raw data only, a hash or gather node has one child,
  a scan is a leaf, and a bitmap scan has at most one child, a bitmap leaf.\<close>

fun pg_shape :: "jnode \<Rightarrow> bool" where
  "pg_shape (JNode raw a cs) \<longleftrightarrow> (case raw of None \<Rightarrow> False | Some r \<Rightarrow>
     (nodeType r \<in> HASH \<union> GATHER \<longrightarrow> length cs = 1) \<and>
     (nodeType r \<in> SCAN \<longrightarrow> cs = []) \<and>
     (nodeType r \<in> BITMAP \<longrightarrow> list_all (\<lambda>c. isNodeType c BITMAP \<and> jchildren c = []) cs \<and> length cs \<le> 1)) \<and>
     list_all pg_shape cs"

text \<open>After pruning every node is classified by its raw data, no hash or gather node is left, and every
  scan is a leaf.\<close>

fun pruned :: "jnode \<Rightarrow> bool" where
  "pruned (JNode raw a cs) \<longleftrightarrow> (case raw of None \<Rightarrow> False | Some r \<Rightarrow>
     a = convertToAbstract r \<and> nodeType r \<notin> HASH \<union> GATHER \<and> (nodeType r \<in> SCAN \<union> BITMAP \<longrightarrow> cs = [])) \<and>
     list_all pruned cs"

definition scan_name :: "JsonRawData \<Rightarrow> string" where
  "scan_name r = (case baseTable (planParams r) of Some t \<Rightarrow> tname t | None \<Rightarrow> [])"

text \<open>The tables of the scans of a plan, from left to right.\<close>

fun scanned :: "jnode \<Rightarrow> string list" where
  "scanned (JNode raw a cs) = (case raw of None \<Rightarrow> concat (map scanned cs) | Some r \<Rightarrow>
     if nodeType r \<in> SCAN \<union> BITMAP then [scan_name r] else concat (map scanned cs))"

lemma classes_disjoint:
  "ty \<in> AGG \<Longrightarrow> ty \<notin> SCAN \<union> BITMAP \<union> HASH \<union> GATHER \<union> JOIN \<union> SORT"
  "ty \<in> SORT \<Longrightarrow> ty \<notin> SCAN \<union> BITMAP \<union> HASH \<union> GATHER \<union> JOIN \<union> AGG"
  "ty \<in> SCAN \<union> BITMAP \<Longrightarrow> ty \<notin> AGG \<union> SORT \<union> HASH \<union> GATHER \<union> JOIN"
  by (auto simp: class_defs)

lemma removeDeep_pruned:
  "types = AGG \<or> types = SORT \<Longrightarrow> pruned n \<Longrightarrow> pruned (removeDeep types n) \<and> scanned (removeDeep types n) = scanned n"
proof (induction types n rule: removeDeep.induct)
  case (1 types raw a cs)
  then obtain r where r: "raw = Some r" by (auto split: option.splits)
  show ?case
  proof (cases "nodeType r \<in> types")
    case True
    then have "nodeType r \<notin> SCAN \<union> BITMAP" using 1 classes_disjoint by blast
    with True 1 r show ?thesis by (auto simp: isNodeType_def split: list.splits)
  next
    case False
    show ?thesis
    proof (cases cs)
      case (Cons c rest)
      then have "pruned (removeDeep types c) \<and> scanned (removeDeep types c) = scanned c"
        using 1 False r by (auto simp: isNodeType_def)
      with 1 False r Cons show ?thesis by (auto simp: isNodeType_def)
    qed (use 1 False r in \<open>auto simp: isNodeType_def\<close>)
  qed
qed

lemma convert_agg: "is_AbsAgg (convertToAbstract r) \<longleftrightarrow> nodeType r \<in> AGG"
  by (auto simp: convertToAbstract_def class_defs)

lemma convert_sort: "is_AbsSort (convertToAbstract r) \<longleftrightarrow> nodeType r \<in> SORT"
  by (auto simp: convertToAbstract_def class_defs)

lemma swap_pruned:
  assumes "pruned (JNode (Some r) a cs)"
  shows "pruned (swap_agg_sort r a cs) \<and> scanned (swap_agg_sort r a cs) = scanned (JNode (Some r) a cs)"
proof (cases cs)
  case (Cons c rest)
  obtain cr ca ccs where c: "c = JNode cr ca ccs" by (cases c)
  show ?thesis
  proof (cases "is_AbsAgg a \<and> is_AbsSort ca")
    case True
    from assms Cons c obtain cr' where cr: "cr = Some cr'" "ca = convertToAbstract cr'"
      by (auto split: option.splits)
    with True assms have ty: "nodeType cr' \<in> SORT" "nodeType r \<in> AGG" by (auto simp: convert_sort convert_agg)
    with classes_disjoint have "nodeType cr' \<notin> SCAN \<union> BITMAP" "nodeType r \<notin> SCAN \<union> BITMAP" by blast+
    with True assms Cons c cr show ?thesis by (auto simp: swap_agg_sort_def)
  next
    case False
    with assms Cons c show ?thesis by (auto simp: swap_agg_sort_def)
  qed
qed (use assms in \<open>simp add: swap_agg_sort_def\<close>)

lemma collapse_spec:
  assumes "collapse_bitmap r cs = (r', cs')"
  shows "nodeType r' = nodeType r \<and> scan_name r' = scan_name r \<and>
    (nodeType r \<notin> BITMAP \<longrightarrow> cs' = cs) \<and> (\<forall>c \<in> set cs'. c \<in> set cs \<or> (\<exists>d \<in> set cs. c \<in> set (jchildren d)))"
  using assms by (auto simp: collapse_bitmap_def scan_name_def Let_def split: list.splits jnode.splits option.splits if_splits)

lemma bitmap_leaf:
  assumes "isNodeType c BITMAP" "jchildren c = []"
  shows "\<exists>cr a. pruneTree c = JNode (Some cr) a [] \<and> nodeType cr \<in> BITMAP"
proof -
  from assms obtain cr a where c: "c = JNode (Some cr) a []" "nodeType cr \<in> BITMAP"
    by (cases c) (auto simp: isNodeType_def split: option.splits)
  then have "nodeType cr \<notin> HASH \<union> GATHER \<union> SORT" by (auto simp: class_defs)
  with c show ?thesis by (auto simp: prune_node_def collapse_bitmap_def swap_agg_sort_def)
qed

lemma prune_bitmap:
  assumes r: "nodeType r \<in> BITMAP" and cs: "list_all (\<lambda>c. isNodeType c BITMAP \<and> jchildren c = []) cs" "length cs \<le> 1"
  shows "\<exists>r'. pruneTree (JNode (Some r) a cs) = JNode (Some r') (convertToAbstract r') [] \<and>
    nodeType r' = nodeType r \<and> scan_name r' = scan_name r"
proof -
  have nt: "nodeType r \<notin> HASH" "nodeType r \<notin> GATHER" "nodeType r \<notin> SORT" using r by (auto simp: class_defs)
  consider "cs = []" | c where "cs = [c]" using cs(2) by (cases cs) auto
  then show ?thesis
  proof cases
    case 1
    with nt show ?thesis by (auto simp: prune_node_def collapse_bitmap_def swap_agg_sort_def)
  next
    case 2
    with cs bitmap_leaf [of c] obtain cr ca where
      c: "pruneTree c = JNode (Some cr) ca []" "nodeType cr \<in> BITMAP" by auto
    obtain r' cs' where col: "collapse_bitmap r [JNode (Some cr) ca []] = (r', cs')" by fastforce
    with c r have "cs' = []" by (auto simp: collapse_bitmap_def Let_def)
    with collapse_spec [OF col] col c 2 nt show ?thesis
      by (auto simp: prune_node_def swap_agg_sort_def)
  qed
qed

lemma prune_spec: "pg_shape t \<Longrightarrow> pruned (pruneTree t) \<and> scanned (pruneTree t) = scanned t"
proof (induction t rule: pruneTree.induct)
  case (1 raw a cs)
  then obtain r where raw: "raw = Some r" by (auto split: option.splits)
  have kids: "pruned (pruneTree c) \<and> scanned (pruneTree c) = scanned c" if "c \<in> set cs" for c
    using 1 that by (auto simp: list_all_iff)
  then have all: "list_all pruned (map pruneTree cs)" "concat (map (scanned \<circ> pruneTree) cs) = concat (map scanned cs)"
    by (auto simp: list_all_iff intro!: arg_cong [of _ _ concat])
  note shape = "1.prems" [unfolded raw, simplified]
  consider (hash) "nodeType r \<in> HASH" | (gather) "nodeType r \<in> GATHER" "nodeType r \<notin> HASH"
    | (bitmap) "nodeType r \<in> BITMAP" "nodeType r \<notin> HASH \<union> GATHER"
    | (sort) "nodeType r \<in> SORT" "nodeType r \<notin> HASH \<union> GATHER \<union> BITMAP"
    | (other) "nodeType r \<notin> HASH \<union> GATHER \<union> BITMAP \<union> SORT" by auto
  then show ?case
  proof cases
    case hash
    then obtain c where "cs = [c]" using shape by (auto simp: length_Suc_conv)
    moreover have "nodeType r \<notin> SCAN \<union> BITMAP" using hash by (auto simp: class_defs)
    ultimately show ?thesis using hash kids raw by (simp add: prune_node_def)
  next
    case gather
    then obtain c where "cs = [c]" using shape by (auto simp: length_Suc_conv)
    moreover have "nodeType r \<notin> SCAN \<union> BITMAP" using gather by (auto simp: class_defs)
    ultimately show ?thesis using gather kids raw removeDeep_pruned [of AGG] by (simp add: prune_node_def removeDeepAggregate_def)
  next
    case bitmap
    with prune_bitmap [of r cs a] shape raw show ?thesis by auto
  next
    case sort
    let ?cs = "if length cs = 1 then [removeDeepSort (hd (map pruneTree cs))] else map pruneTree cs"
    have ok: "list_all pruned ?cs \<and> concat (map scanned ?cs) = concat (map scanned cs)"
    proof (cases "length cs = 1")
      case True
      then obtain c where "cs = [c]" by (auto simp: length_Suc_conv)
      with kids removeDeep_pruned [of SORT] show ?thesis by (simp add: removeDeepSort_def)
    qed (use all in simp)
    have ns: "nodeType r \<notin> SCAN \<union> BITMAP" "nodeType r \<notin> BITMAP" using sort by (auto simp: class_defs)
    obtain r' cs' where col: "collapse_bitmap r ?cs = (r', cs')" by fastforce
    have same: "nodeType r' = nodeType r" "cs' = ?cs" using collapse_spec [OF col] ns by auto
    have "pruned (JNode (Some r') (convertToAbstract r') cs')" using ok same sort ns by auto
    from swap_pruned [OF this] have "pruned (swap_agg_sort r' (convertToAbstract r') cs')"
      "scanned (swap_agg_sort r' (convertToAbstract r') cs') = concat (map scanned cs)"
      using ok same ns by auto
    then show ?thesis using sort raw col ns by (simp add: prune_node_def)
  next
    case other
    obtain r' cs' where col: "collapse_bitmap r (map pruneTree cs) = (r', cs')" by fastforce
    have same: "nodeType r' = nodeType r" "cs' = map pruneTree cs" "scan_name r' = scan_name r"
      using collapse_spec [OF col] other by auto
    have "pruned (JNode (Some r') (convertToAbstract r') cs')" using all same other shape by auto
    from swap_pruned [OF this] have "pruned (swap_agg_sort r' (convertToAbstract r') cs')"
      "scanned (swap_agg_sort r' (convertToAbstract r') cs') = scanned (JNode (Some r) a cs)"
      using all same by auto
    then show ?thesis using other raw col by (simp add: prune_node_def)
  qed
qed

end
