(* ===== verification/Std_Regex.thy ===== *)
theory Std_Regex
  imports Prelude
begin

text \<open>
  The part of \<open>std::regex\<close> (ECMAScript grammar) that the front ends use. A pattern is matched by
  backtracking: \<open>matches_at\<close> lists the ways in which it can match at a position in the order in which
  they are tried, and the first one counts. Every repetition of the program's patterns is over a
  character class. \<open>regex_search\<close>, \<open>regex_match\<close>, the two iterators and \<open>regex_replace\<close> are built on it.
\<close>

section \<open>Patterns\<close>

datatype re =
    Eps
  | Cls "char \<Rightarrow> bool"
  | Many bool "char \<Rightarrow> bool"
  | Cat re re
  | Or re re
  | Grp nat re
  | Edge
  | End

text \<open>\<open>\w\<close>, \<open>.\<close>, a literal (in either case with \<open>icase\<close>), and the repetitions \<open>*\<close> and \<open>+\<close>.\<close>

definition is_alpha :: "char \<Rightarrow> bool" where
  "is_alpha c \<longleftrightarrow> (let n = (of_char c :: nat) in (65 \<le> n \<and> n \<le> 90) \<or> (97 \<le> n \<and> n \<le> 122))"

definition is_word :: "char \<Rightarrow> bool" where
  "is_word c \<longleftrightarrow> is_alpha c \<or> is_digit c \<or> c = CHR ''_''"

definition is_dot :: "char \<Rightarrow> bool" where
  "is_dot c \<longleftrightarrow> c \<noteq> CHR 0x0A \<and> c \<noteq> CHR 0x0D"

fun cat :: "re list \<Rightarrow> re" where
  "cat [] = Eps"
| "cat (r # rs) = Cat r (cat rs)"

fun alts :: "re list \<Rightarrow> re" where
  "alts [] = Eps"
| "alts [r] = r"
| "alts (r # rs) = Or r (alts rs)"

definition lit :: "string \<Rightarrow> re" where
  "lit w = cat (map (\<lambda>x. Cls (\<lambda>c. c = x)) w)"

definition ilit :: "string \<Rightarrow> re" where
  "ilit w = cat (map (\<lambda>x. Cls (\<lambda>c. lower_char c = lower_char x)) w)"

definition rep0 :: "(char \<Rightarrow> bool) \<Rightarrow> re" where
  "rep0 p = Many True p"

definition rep1 :: "(char \<Rightarrow> bool) \<Rightarrow> re" where
  "rep1 p = Cat (Cls p) (Many True p)"

definition lazy0 :: "(char \<Rightarrow> bool) \<Rightarrow> re" where
  "lazy0 p = Many False p"

definition lazy1 :: "(char \<Rightarrow> bool) \<Rightarrow> re" where
  "lazy1 p = Cat (Cls p) (Many False p)"

section \<open>Matching at a position\<close>

text \<open>A position: the characters before it, the last one first, those after it, and the groups.\<close>

type_synonym groups = "(nat \<times> string) list"

type_synonym pos = "string \<times> string \<times> groups"

fun runs :: "bool \<Rightarrow> (char \<Rightarrow> bool) \<Rightarrow> string \<Rightarrow> string \<Rightarrow> groups \<Rightarrow> pos list" where
  "runs greedy p seen [] g = [(seen, [], g)]"
| "runs greedy p seen (c # s) g =
     (if \<not> p c then [(seen, c # s, g)]
      else if greedy then runs greedy p (c # seen) s g @ [(seen, c # s, g)]
      else (seen, c # s, g) # runs greedy p (c # seen) s g)"

definition word_before :: "string \<Rightarrow> bool" where
  "word_before s \<longleftrightarrow> s \<noteq> [] \<and> is_word (hd s)"

fun matches_at :: "re \<Rightarrow> pos \<Rightarrow> pos list" where
  "matches_at Eps x = [x]"
| "matches_at (Cls p) x = (case x of (seen, c # s, g) \<Rightarrow> if p c then [(c # seen, s, g)] else [] | _ \<Rightarrow> [])"
| "matches_at (Many greedy p) x = (case x of (seen, s, g) \<Rightarrow> runs greedy p seen s g)"
| "matches_at (Cat a b) x = concat (map (matches_at b) (matches_at a x))"
| "matches_at (Or a b) x = matches_at a x @ matches_at b x"
| "matches_at (Grp n a) x = (case x of (seen, s, g) \<Rightarrow>
     map (\<lambda>(seen', s', g'). (seen', s', (n, take (length s - length s') s) # g')) (matches_at a x))"
| "matches_at Edge x = (case x of (seen, s, g) \<Rightarrow> if word_before seen \<noteq> word_before s then [x] else [])"
| "matches_at End x = (case x of (seen, s, g) \<Rightarrow> if s = [] then [x] else [])"

definition group_of :: "nat \<Rightarrow> groups \<Rightarrow> string" where
  "group_of n g = (case map_of g n of Some w \<Rightarrow> w | None \<Rightarrow> [])"

section \<open>The algorithms\<close>

definition regex_match :: "re \<Rightarrow> string \<Rightarrow> groups option" where
  "regex_match r s = (case matches_at (Cat r End) ([], s, []) of (_, _, g) # _ \<Rightarrow> Some g | [] \<Rightarrow> None)"

record found =
  f_prefix :: string
  f_str :: string
  f_groups :: groups
  f_suffix :: string

fun search_from :: "re \<Rightarrow> string \<Rightarrow> string \<Rightarrow> string \<Rightarrow> found option" where
  "search_from r seen pre s = (case matches_at r (seen, s, []) of
       (_, s', g) # _ \<Rightarrow> Some \<lparr>f_prefix = rev pre, f_str = take (length s - length s') s, f_groups = g, f_suffix = s'\<rparr>
     | [] \<Rightarrow> (case s of [] \<Rightarrow> None | c # t \<Rightarrow> search_from r (c # seen) (c # pre) t))"

declare search_from.simps [simp del]

definition regex_search :: "re \<Rightarrow> string \<Rightarrow> found option" where
  "regex_search r s = search_from r [] [] s"

text \<open>The matches one after the other, each one from the end of the one before; no pattern that the
  program iterates over matches the empty string.\<close>

lemma search_shorter:
  "search_from r seen pre s = Some m \<Longrightarrow> f_str m \<noteq> [] \<Longrightarrow> length (f_suffix m) < length s"
proof (induction r seen pre s rule: search_from.induct)
  case (1 r seen pre s)
  show ?case
  proof (cases "matches_at r (seen, s, [])")
    case Nil
    with 1 show ?thesis
      by (subst (asm) (2) search_from.simps) (auto split: list.splits intro: less_SucI)
  next
    case (Cons x xs)
    with "1.prems" show ?thesis
      by (subst (asm) search_from.simps) (auto split: prod.splits)
  qed
qed

function matches_from :: "re \<Rightarrow> string \<Rightarrow> string \<Rightarrow> found list" where
  "matches_from r seen s = (case search_from r seen [] s of
       None \<Rightarrow> []
     | Some m \<Rightarrow> m # (if f_str m = [] then [] else
         matches_from r (rev (f_str m) @ rev (f_prefix m) @ seen) (f_suffix m)))"
  by pat_completeness auto
termination
  by (relation "measure (\<lambda>(r, seen, s). length s)") (auto dest: search_shorter)

declare matches_from.simps [simp del]

definition regex_iterator :: "re \<Rightarrow> string \<Rightarrow> string list" where
  "regex_iterator r s = map f_str (matches_from r [] s)"

text \<open>\<open>sregex_token_iterator\<close> with submatch -1: what is between the matches, and the rest if there is any.\<close>

definition regex_split :: "re \<Rightarrow> string \<Rightarrow> string list" where
  "regex_split r s = (let ms = matches_from r [] s in
     if ms = [] then [s]
     else map f_prefix ms @ (if f_suffix (last ms) = [] then [] else [f_suffix (last ms)]))"

definition regex_replace :: "re \<Rightarrow> (groups \<Rightarrow> string) \<Rightarrow> string \<Rightarrow> string" where
  "regex_replace r f s = (let ms = matches_from r [] s in
     concat (map (\<lambda>m. f_prefix m @ f (f_groups m)) ms) @ (if ms = [] then s else f_suffix (last ms)))"

section \<open>The first match\<close>

definition first_match :: "re \<Rightarrow> pos \<Rightarrow> pos option" where
  "first_match r x = (case matches_at r x of y # _ \<Rightarrow> Some y | [] \<Rightarrow> None)"

named_theorems re_simps \<open>the first match of a pattern, from those of its parts\<close>

lemma first_Some: "first_match r x = Some y \<longleftrightarrow> (\<exists>ys. matches_at r x = y # ys)"
  by (auto simp: first_match_def split: list.splits)

lemma first_None: "first_match r x = None \<longleftrightarrow> matches_at r x = []"
  by (auto simp: first_match_def split: list.splits)

text \<open>When the first way to match \<open>a\<close> can be continued with \<open>b\<close>, nothing is tried again.\<close>

lemma first_cat: "first_match a x = Some y \<Longrightarrow> first_match b y = Some z \<Longrightarrow> first_match (Cat a b) x = Some z"
  by (auto simp: first_Some)

lemma first_cat_None: "first_match (Cat a b) x = None \<longleftrightarrow> (\<forall>y \<in> set (matches_at a x). first_match b y = None)"
  by (auto simp: first_None)

lemma first_or: "first_match (Or a b) x = (case first_match a x of Some y \<Rightarrow> Some y | None \<Rightarrow> first_match b x)"
  by (auto simp: first_match_def split: list.splits)

lemma first_grp:
  "first_match a (seen, s, g) = Some (seen', s', g') \<Longrightarrow>
    first_match (Grp n a) (seen, s, g) = Some (seen', s', (n, take (length s - length s') s) # g')"
  by (auto simp: first_Some)

lemma runs_first: "\<exists>ys. runs True p seen s g = (rev (takeWhile p s) @ seen, dropWhile p s, g) # ys"
proof (induction True p seen s g rule: runs.induct)
  case (2 p seen c s g)
  then show ?case by (cases "p c") auto
qed simp

lemma runs_set:
  "set (runs greedy p seen s g) = {(rev (take k s) @ seen, drop k s, g) | k. k \<le> length (takeWhile p s)}"
proof (induction greedy p seen s g rule: runs.induct)
  case (2 greedy p seen c s g)
  show ?case
  proof (cases "p c")
    case True
    have "{(rev (take k (c # s)) @ seen, drop k (c # s), g) | k. k \<le> Suc n} =
      insert (seen, c # s, g) {(rev (take k s) @ c # seen, drop k s, g) | k. k \<le> n}" for n
    proof -
      have "{(rev (take k (c # s)) @ seen, drop k (c # s), g) | k. k \<le> Suc n} =
        (\<lambda>k. (rev (take k (c # s)) @ seen, drop k (c # s), g)) ` {..Suc n}" by auto
      also have "{..Suc n} = insert 0 (Suc ` {..n})" by (rule atMost_Suc_eq_insert_0)
      finally show ?thesis by (auto simp: image_iff)
    qed
    with 2 True show ?thesis by auto
  qed auto
qed auto

lemma first_simps [re_simps, simp]:
  "first_match Eps x = Some x"
  "first_match (Cls p) (seen, [], g) = None"
  "first_match (Cls p) (seen, c # s, g) = (if p c then Some (c # seen, s, g) else None)"
  "first_match (Many True p) (seen, s, g) = Some (rev (takeWhile p s) @ seen, dropWhile p s, g)"
  "first_match End (seen, s, g) = (if s = [] then Some (seen, s, g) else None)"
  using runs_first [of p seen s g] by (auto simp: first_match_def)

lemma first_rep1 [re_simps]:
  "s \<noteq> [] \<Longrightarrow> p (hd s) \<Longrightarrow>
    first_match (rep1 p) (seen, s, g) = Some (rev (takeWhile p s) @ seen, dropWhile p s, g)"
  by (cases s) (auto simp: rep1_def intro: first_cat)

lemma first_lit: "first_match (lit w) (seen, w @ s, g) = Some (rev w @ seen, s, g)"
proof (induction w arbitrary: seen)
  case (Cons c w)
  have "first_match (Cat (Cls (\<lambda>x. x = c)) (lit w)) (seen, c # w @ s, g) = Some (rev w @ c # seen, s, g)"
    using Cons by (intro first_cat) auto
  then show ?case by (simp add: lit_def)
qed (simp add: lit_def)

lemma lit_None: "take (length w) s \<noteq> w \<Longrightarrow> first_match (lit w) (seen, s, g) = None"
proof (induction w arbitrary: s seen)
  case (Cons c w)
  show ?case
  proof (cases s)
    case (Cons d t)
    with Cons.prems Cons.IH [of t "d # seen"] show ?thesis
      by (auto simp: lit_def first_cat_None)
  qed (simp add: lit_def first_None)
qed (simp add: lit_def)

lemma ilit_None: "w \<noteq> [] \<Longrightarrow> s = [] \<or> lower_char (hd s) \<noteq> lower_char (hd w) \<Longrightarrow> first_match (ilit w) (seen, s, g) = None"
  by (cases w; cases s) (auto simp: ilit_def first_None)

text \<open>A match moves forward over the string and leaves it as it is.\<close>

lemma matches_split:
  "(seen', s', g') \<in> set (matches_at r (seen, s, g)) \<Longrightarrow> rev seen' @ s' = rev seen @ s \<and> length s' \<le> length s"
proof (induction r arbitrary: seen s g seen' s' g')
  case (Many greedy p)
  then show ?case by (auto simp: runs_set)
next
  case (Cat a b)
  then show ?case by fastforce
next
  case (Or a b)
  then show ?case by auto
next
  case (Grp n a)
  then show ?case by auto
qed (auto split: list.splits if_splits)

end
