(* ===== verification/Condition_Parser.thy ===== *)
theory Condition_Parser
  imports Transform_Helpers Std_Regex
begin

text \<open>
  \<open>ConditionParser::parseCondition\<close> of \<open>src/ir/transform_helpers.cpp\<close>: a condition of the \<open>WHERE\<close> clause
  is matched against three patterns in turn, \<open>BETWEEN\<close>, \<open>IN\<close>, and a comparison symbol. The patterns
  are those of the source; \<open>^\<close> is where \<open>regex_match\<close> starts anyway.
\<close>

section \<open>The patterns\<close>

record ParsedCondition =
  pcColumn :: string
  pcOp :: string
  pcArguments :: "string list"

definition column_re :: re where
  "column_re = Grp 1 (rep1 is_word)"

definition betweenRegex :: re where
  "betweenRegex = cat [column_re, rep1 is_space, ilit ''BETWEEN'', rep1 is_space, Grp 2 (rep1 is_dot),
     rep1 is_space, ilit ''AND'', rep1 is_space, Grp 3 (rep1 is_dot), End]"

definition inRegex :: re where
  "inRegex = cat [column_re, rep1 is_space, ilit ''IN'', rep0 is_space, lit ''('', Grp 2 (rep1 is_dot), lit '')'', End]"

definition valueRegex :: re where
  "valueRegex = rep1 (\<lambda>c. c \<noteq> CHR '','')"

definition comparison_symbols :: "string list" where
  "comparison_symbols = [''='', ''<>'', ''!='', ''<='', ''>='', ''<'', ''>'']"

definition compRegex :: re where
  "compRegex = cat [column_re, rep0 is_space, Grp 2 (alts (map lit comparison_symbols)), rep0 is_space,
     Grp 3 (rep1 is_dot), End]"

definition parseCondition :: "string \<Rightarrow> ParsedCondition res" where
  "parseCondition input =
     (let s = cond_trim input in
      case regex_match betweenRegex s of
        Some g \<Rightarrow> Inr \<lparr>pcColumn = group_of 1 g, pcOp = ''BETWEEN'',
          pcArguments = [cond_trim (group_of 2 g), cond_trim (group_of 3 g)]\<rparr>
      | None \<Rightarrow> (case regex_match inRegex s of
          Some g \<Rightarrow> Inr \<lparr>pcColumn = group_of 1 g, pcOp = ''IN'',
            pcArguments = map cond_trim (regex_iterator valueRegex (group_of 2 g))\<rparr>
        | None \<Rightarrow> (case regex_match compRegex s of
            Some g \<Rightarrow> Inr \<lparr>pcColumn = group_of 1 g, pcOp = group_of 2 g, pcArguments = [cond_trim (group_of 3 g)]\<rparr>
          | None \<Rightarrow> Inl (InvalidArgument ''Invalid SQL condition format''))))"

section \<open>Keywords that are not there\<close>

lemma regex_match_None: "regex_match r s = None \<longleftrightarrow> first_match (Cat r End) ([], s, []) = None"
  by (auto simp: regex_match_def first_match_def simp del: matches_at.simps split: list.splits)

lemma regex_match_Some: "first_match (Cat r End) ([], s, []) = Some (seen, s', g) \<Longrightarrow> regex_match r s = Some g"
  by (auto simp: regex_match_def first_Some)

lemma drop_word:
  assumes "list_all is_word col" "k \<le> length col"
  shows "drop k (col @ t) = t \<or> (\<exists>c u. drop k (col @ t) = c # u \<and> is_word c)"
proof (cases "drop k col")
  case (Cons c u)
  then have "c \<in> set col" by (metis in_set_dropD list.set_intros(1))
  with Cons assms show ?thesis by (auto simp: list_all_iff)
qed (use assms in auto)

lemma word_not_space: "is_word c \<Longrightarrow> \<not> is_space c"
  by (auto simp: is_word_def is_alpha_def is_space_def is_digit_def Let_def)

lemma takeWhile_col: "list_all is_word col \<Longrightarrow> takeWhile is_word (col @ CHR '' '' # t) = col"
  by (induction col) (auto simp: is_word_def is_alpha_def is_digit_def)

lemma column_matches:
  assumes "list_all is_word col" "(seen, s, g) \<in> set (matches_at column_re ([], col @ CHR '' '' # t, []))"
  shows "s = CHR '' '' # t \<or> (\<exists>c u. s = c # u \<and> is_word c)"
proof -
  from assms(2) obtain c u k where c: "col @ CHR '' '' # t = c # u" "is_word c" "s = drop k u" "k \<le> length (takeWhile is_word u)"
    by (cases "col @ CHR '' '' # t") (auto simp: column_re_def rep1_def runs_set split: if_splits)
  then obtain col' where col: "col = c # col'" by (cases col) (auto simp: is_word_def is_alpha_def is_digit_def)
  with c assms(1) have "k \<le> length col'" using takeWhile_col [of col' t] by auto
  with drop_word [of col' k "CHR '' '' # t"] col c assms(1) show ?thesis by auto
qed

lemma keyword_fails:
  assumes "list_all is_word col" "w \<noteq> []" "\<not> is_space (hd t)" "lower_char (hd t) \<noteq> lower_char (hd w)" "t \<noteq> []"
  shows "first_match (Cat column_re (Cat (rep1 is_space) (Cat (ilit w) r))) ([], col @ CHR '' '' # t, []) = None"
proof -
  have "first_match (Cat (rep1 is_space) (Cat (ilit w) r)) (seen, s, g) = None"
    if "(seen, s, g) \<in> set (matches_at column_re ([], col @ CHR '' '' # t, []))" for seen s g
  proof (cases "s = CHR '' '' # t")
    case True
    have "first_match (ilit w) (seen', t, g') = None" for seen' g'
      using assms by (intro ilit_None) auto
    moreover from assms obtain c u where "t = c # u" "\<not> is_space c" by (cases t) auto
    ultimately show ?thesis using True
      by (auto simp: first_cat_None rep1_def runs_set first_None split: if_splits)
  next
    case False
    with column_matches [OF assms(1) that] obtain c u where "s = c # u" "is_word c" by auto
    with word_not_space show ?thesis by (auto simp: first_cat_None rep1_def)
  qed
  then show ?thesis by (auto simp: first_cat_None)
qed

lemma keyword_regex_fails:
  assumes "list_all is_word col" "w \<noteq> []" "\<not> is_space (hd t)" "lower_char (hd t) \<noteq> lower_char (hd w)" "t \<noteq> []"
  shows "regex_match (cat (column_re # rep1 is_space # ilit w # rs)) (col @ CHR '' '' # t) = None"
  using keyword_fails [OF assms, where r = "Cat (cat rs) End"] by (simp add: regex_match_None first_cat_None)

lemma keyword_letters: "lower_char CHR ''B'' = CHR ''b''" "lower_char CHR ''I'' = CHR ''i''"
  by code_simp+

section \<open>Comparisons\<close>

text \<open>A text between operators: not empty, on one line, without white space at its ends.\<close>

definition value_text :: "string \<Rightarrow> bool" where
  "value_text v \<longleftrightarrow> v \<noteq> [] \<and> trimmed v \<and> list_all is_dot v"

lemma blank_is_space: "c \<in> set blank_chars \<Longrightarrow> is_space c"
  by (auto simp: blank_chars_def is_space_def)

lemma dropWhile_blank_chars: "s = [] \<or> hd s \<notin> set blank_chars \<Longrightarrow> dropWhile (\<lambda>c. c \<in> set blank_chars) s = s"
  by (cases s) auto

lemma cond_trim_id: "s = [] \<or> hd s \<notin> set blank_chars \<and> last s \<notin> set blank_chars \<Longrightarrow> cond_trim s = s"
  by (cases "s = []") (auto simp: cond_trim_def dropWhile_blank_chars hd_rev)

lemma value_trim: "value_text v \<Longrightarrow> cond_trim v = v"
  using blank_is_space by (intro cond_trim_id) (auto simp: value_text_def trimmed_def)

lemma takeWhile_dot: "list_all is_dot v \<Longrightarrow> takeWhile is_dot v = v \<and> dropWhile is_dot v = []"
  by (induction v) auto

lemma first_symbol:
  "op \<in> set comparison_symbols \<Longrightarrow>
    first_match (alts (map lit comparison_symbols)) (seen, op @ CHR '' '' # t, g) = Some (rev op @ seen, CHR '' '' # t, g)"
  by (auto simp: comparison_symbols_def lit_def first_match_def)

lemma first_column:
  assumes "list_all is_word col" "col \<noteq> []"
  shows "first_match column_re ([], col @ CHR '' '' # t, []) = Some (rev col, CHR '' '' # t, [(1, col)])"
proof -
  have "dropWhile is_word (col @ CHR '' '' # t) = CHR '' '' # t"
    using assms(1) by (induction col) (auto simp: is_word_def is_alpha_def is_digit_def)
  then have "first_match (rep1 is_word) ([], col @ CHR '' '' # t, []) = Some (rev col, CHR '' '' # t, [])"
    using assms takeWhile_col [OF assms(1), of t] by (subst first_rep1) (auto simp: list_all_iff hd_append)
  from first_grp [OF this, of 1] show ?thesis by (simp add: column_re_def)
qed

lemma parse_comparison:
  assumes "list_all is_word col" "col \<noteq> []" "op \<in> set comparison_symbols" "value_text v"
  shows "parseCondition (col @ '' '' @ op @ '' '' @ v) = Inr \<lparr>pcColumn = col, pcOp = op, pcArguments = [v]\<rparr>"
proof -
  let ?t = "op @ CHR '' '' # v"
  have v: "v \<noteq> []" "\<not> is_space (hd v)" "\<not> is_space (last v)" "list_all is_dot v"
    using assms(4) by (auto simp: value_text_def trimmed_def)
  have trim: "cond_trim (col @ CHR '' '' # ?t) = col @ CHR '' '' # ?t"
    using v assms(1,2) blank_is_space word_not_space by (intro cond_trim_id) (cases col, auto)
  have hd: "?t \<noteq> []" "\<not> is_space (hd ?t)" "lower_char (hd ?t) \<noteq> CHR ''b''" "lower_char (hd ?t) \<noteq> CHR ''i''"
    using assms(3) by (auto simp: comparison_symbols_def is_space_def lower_char_def)
  note fails = keyword_regex_fails [OF assms(1) _ hd(2) _ hd(1)]
  have no1: "regex_match betweenRegex (col @ CHR '' '' # ?t) = None"
    unfolding betweenRegex_def using hd(3) keyword_letters by (intro fails) simp_all
  have no2: "regex_match inRegex (col @ CHR '' '' # ?t) = None"
    unfolding inRegex_def using hd(4) keyword_letters by (intro fails) simp_all
  have sp: "dropWhile is_space (CHR '' '' # w) = w" "takeWhile is_space (CHR '' '' # w) = '' ''"
    if "w \<noteq> []" "\<not> is_space (hd w)" for w
    using that by (cases w; simp add: is_space_def)+
  have "first_match (Cat compRegex End) ([], col @ CHR '' '' # ?t, []) =
    Some (rev (col @ CHR '' '' # ?t), [], [(3, v), (2, op), (1, col)])"
  proof -
    note c = first_column [OF assms(1,2), of ?t]
    have s1: "first_match (rep0 is_space) (rev col, CHR '' '' # ?t, [(1, col)]) = Some (CHR '' '' # rev col, ?t, [(1, col)])"
      using sp [OF hd(1,2)] by (simp add: rep0_def)
    have o: "first_match (Grp 2 (alts (map lit comparison_symbols))) (CHR '' '' # rev col, ?t, [(1, col)]) =
        Some (rev op @ CHR '' '' # rev col, CHR '' '' # v, [(2, op), (1, col)])"
      using first_grp [OF first_symbol [OF assms(3)]] by simp
    have s2: "first_match (rep0 is_space) (rev op @ CHR '' '' # rev col, CHR '' '' # v, [(2, op), (1, col)]) =
        Some (CHR '' '' # rev op @ CHR '' '' # rev col, v, [(2, op), (1, col)])"
      using sp [OF v(1,2)] by (simp add: rep0_def)
    have "first_match (rep1 is_dot) (CHR '' '' # rev op @ CHR '' '' # rev col, v, [(2, op), (1, col)]) =
        Some (rev v @ CHR '' '' # rev op @ CHR '' '' # rev col, [], [(2, op), (1, col)])"
      using v takeWhile_dot [OF v(4)] by (subst first_rep1) (auto simp: list_all_iff)
    from first_grp [OF this] have d: "first_match (Grp 3 (rep1 is_dot)) (CHR '' '' # rev op @ CHR '' '' # rev col, v, [(2, op), (1, col)]) =
        Some (rev v @ CHR '' '' # rev op @ CHR '' '' # rev col, [], [(3, v), (2, op), (1, col)])" by simp
    have e: "first_match End (w, [], g) = Some (w, [], g)" for w g by simp
    show ?thesis
      unfolding compRegex_def cat.simps
      by (rule first_cat, (rule first_cat c s1 o s2 d e first_simps(1))+) simp
  qed
  from regex_match_Some [OF this] show ?thesis
    using no1 no2 value_trim [OF assms(4)]
    by (simp add: parseCondition_def trim group_of_def)
qed

section \<open>Lists of values\<close>

text \<open>A greedy group before a last character gives that character back.\<close>

lemma runs_back:
  assumes "list_all p w" "p c"
  shows "\<exists>ys. runs True p seen (w @ [c]) g = (c # rev w @ seen, [], g) # (rev w @ seen, [c], g) # ys"
  using assms
proof (induction w arbitrary: seen)
  case (Cons d w)
  from Cons.IH [of "d # seen"] Cons.prems show ?case by auto
qed simp

lemma first_back:
  assumes "list_all p w" "w \<noteq> []" "p c" "first_match k (c # rev w @ seen, [], (n, w) # g) = Some z"
  shows "first_match (Cat (Grp n (rep1 p)) (Cat (lit [c]) k)) (seen, w @ [c], g) = Some z"
proof -
  obtain d u where w: "w = d # u" using assms(2) by (cases w) auto
  from runs_back [of p u c "d # seen" g] assms(1,3) w obtain ys where
    "matches_at (rep1 p) (seen, w @ [c], g) = (c # rev w @ seen, [], g) # (rev w @ seen, [c], g) # ys"
    by (auto simp: rep1_def)
  with assms(4) show ?thesis by (auto simp: first_match_def lit_def split: list.splits)
qed

fun comma_list :: "string list \<Rightarrow> string" where
  "comma_list [] = []"
| "comma_list [v] = v"
| "comma_list (v # vs) = v @ CHR '','' # comma_list vs"

definition no_comma :: "string \<Rightarrow> bool" where
  "no_comma v \<longleftrightarrow> v \<noteq> [] \<and> CHR '','' \<notin> set v"

lemma search_value:
  assumes "no_comma v" "rest = [] \<or> hd rest = CHR '',''"
  shows "search_from valueRegex seen pre (v @ rest) =
    Some \<lparr>f_prefix = rev pre, f_str = v, f_groups = [], f_suffix = rest\<rparr>"
proof -
  let ?p = "\<lambda>c. c \<noteq> CHR '',''"
  have "takeWhile ?p rest = []" "dropWhile ?p rest = rest" using assms(2) by (cases rest; auto)+
  moreover have "\<forall>c \<in> set v. ?p c" using assms(1) by (auto simp: no_comma_def)
  ultimately have "takeWhile ?p (v @ rest) = v" "dropWhile ?p (v @ rest) = rest"
    by (simp_all add: dropWhile_append)
  then have "first_match valueRegex (seen, v @ rest, []) = Some (rev v @ seen, rest, [])"
    using assms(1) unfolding valueRegex_def
    by (subst first_rep1) (auto simp: no_comma_def hd_append dest: list.set_sel(1))
  then show ?thesis by (subst search_from.simps) (auto simp: first_Some)
qed

lemma search_comma: "search_from valueRegex seen pre (CHR '','' # t) = search_from valueRegex (CHR '','' # seen) (CHR '','' # pre) t"
  by (subst search_from.simps) (simp add: valueRegex_def rep1_def)

lemma values_found:
  "\<forall>v \<in> set vs. no_comma v \<Longrightarrow> vs \<noteq> [] \<Longrightarrow>
    map f_str (matches_from valueRegex seen (comma_list vs)) = vs \<and>
    map f_str (matches_from valueRegex seen (CHR '','' # comma_list vs)) = vs"
proof (induction vs arbitrary: seen rule: comma_list.induct)
  case (2 v)
  have "matches_from valueRegex sn [] = []" for sn
    by (subst matches_from.simps) (simp add: search_from.simps valueRegex_def rep1_def)
  with search_value [of v "[]"] 2 show ?case
    by (auto simp: matches_from.simps [of valueRegex seen] search_comma no_comma_def)
next
  case (3 v v' vs)
  let ?rest = "CHR '','' # comma_list (v' # vs)"
  have IH: "map f_str (matches_from valueRegex sn ?rest) = v' # vs" for sn using 3 by simp
  have "v \<noteq> []" "no_comma v" using 3 by (auto simp: no_comma_def)
  with search_value [of v ?rest] IH show ?case
    by (simp add: matches_from.simps [of valueRegex seen] search_comma)
qed simp

text \<open>The values of an \<open>IN\<close> list are written with a comma and a blank between them.\<close>

definition in_list :: "string list \<Rightarrow> string" where
  "in_list vs = comma_list (hd vs # map (Cons CHR '' '') (tl vs))"

lemma comma_list_dot: "\<forall>v \<in> set vs. list_all is_dot v \<Longrightarrow> list_all is_dot (comma_list vs)"
  by (induction vs rule: comma_list.induct) (auto simp: is_dot_def)

lemma trim_blank: "value_text v \<Longrightarrow> cond_trim (CHR '' '' # v) = v"
  using value_trim [of v] by (simp add: cond_trim_def blank_chars_def)

lemma parse_in:
  assumes "list_all is_word col" "col \<noteq> []" "vs \<noteq> []" "\<forall>v \<in> set vs. value_text v \<and> CHR '','' \<notin> set v"
  shows "parseCondition (col @ '' IN ('' @ in_list vs @ '')'') = Inr \<lparr>pcColumn = col, pcOp = ''IN'', pcArguments = vs\<rparr>"
proof -
  let ?body = "in_list vs" and ?t = "''IN ('' @ in_list vs @ '')''"
  let ?ps = "hd vs # map (Cons CHR '' '') (tl vs)"
  have hv: "hd vs \<in> set vs" "\<And>v. v \<in> set (tl vs) \<Longrightarrow> v \<in> set vs" using assms(3) by (auto dest: list.set_sel(2))
  have ps: "\<forall>v \<in> set ?ps. no_comma v \<and> list_all is_dot v"
    using assms(4) hv by (auto simp: no_comma_def value_text_def is_dot_def)
  have body: "list_all is_dot ?body" using ps by (auto simp: in_list_def intro!: comma_list_dot)
  have ne: "?body \<noteq> []"
    using ps by (cases "tl vs") (auto simp: in_list_def no_comma_def)
  have args: "map cond_trim (regex_iterator valueRegex ?body) = vs"
  proof -
    have "regex_iterator valueRegex ?body = ?ps"
      using values_found [of ?ps "[]"] ps by (simp add: regex_iterator_def in_list_def)
    moreover have "map cond_trim ?ps = vs"
      using assms(3,4) hv trim_blank value_trim by (cases vs) (auto simp: map_idI)
    ultimately show ?thesis by simp
  qed
  have trim: "cond_trim (col @ CHR '' '' # ?t) = col @ CHR '' '' # ?t"
    using assms(1,2) blank_is_space word_not_space by (intro cond_trim_id) (cases col, auto simp: blank_chars_def)
  have no1: "regex_match betweenRegex (col @ CHR '' '' # ?t) = None"
    unfolding betweenRegex_def using keyword_letters by (intro keyword_regex_fails assms(1)) (simp_all add: is_space_def)
  have "first_match (Cat inRegex End) ([], col @ CHR '' '' # ?t, []) =
    Some (CHR '')'' # rev ?body @ rev (col @ '' IN (''), [], [(2, ?body), (1, col)])"
  proof -
    let ?g = "[(1, col)]" and ?k = "?body @ '')''"
    note c = first_column [OF assms(1,2), of ?t]
    have s1: "first_match (rep1 is_space) (rev col, CHR '' '' # ?t, ?g) = Some (CHR '' '' # rev col, ?t, ?g)"
      by (subst first_rep1) (simp_all add: is_space_def)
    have i: "first_match (ilit ''IN'') (CHR '' '' # rev col, ?t, ?g) = Some (rev (col @ '' IN''), '' ('' @ ?k, ?g)"
      by (simp add: ilit_def first_match_def)
    have s2: "first_match (rep0 is_space) (rev (col @ '' IN''), '' ('' @ ?k, ?g) = Some (rev (col @ '' IN ''), ''('' @ ?k, ?g)"
      by (simp add: rep0_def is_space_def)
    have o: "first_match (lit ''('') (rev (col @ '' IN ''), ''('' @ ?k, ?g) = Some (rev (col @ '' IN (''), ?k, ?g)"
      using first_lit [of "''(''" "rev (col @ '' IN '')" ?k ?g] by simp
    have e: "first_match (Cat End Eps) (w, [], g) = Some (w, [], g)" for w g by (rule first_cat) simp_all
    have b: "first_match (Cat (Grp 2 (rep1 is_dot)) (Cat (lit '')'') (Cat End Eps))) (rev (col @ '' IN (''), ?k, ?g) =
      Some (CHR '')'' # rev ?body @ rev (col @ '' IN (''), [], [(2, ?body), (1, col)])"
      by (rule first_back [OF body ne]) (simp_all add: is_dot_def e)
    have e2: "first_match End (w, [], g) = Some (w, [], g)" for w g by simp
    show ?thesis
      unfolding inRegex_def cat.simps by (rule first_cat, (rule first_cat c s1 i s2 o b)+) (rule e2)
  qed
  from regex_match_Some [OF this] show ?thesis
    using no1 args trim by (simp add: parseCondition_def group_of_def)
qed

section \<open>The parser reads what is written\<close>

text \<open>C28 A condition that compares a column with a value, or tests it against a list, is read back: the
  column, the operator and the values, whatever characters the values have apart from line ends, white
  space around them, and commas inside a list.\<close>

theorem parseCondition_roundtrip:
  assumes "list_all is_word col" "col \<noteq> []"
    and "op \<in> set comparison_symbols" "value_text v"
    and "vs \<noteq> []" "\<forall>w \<in> set vs. value_text w \<and> CHR '','' \<notin> set w"
  shows "parseCondition (col @ '' '' @ op @ '' '' @ v) = Inr \<lparr>pcColumn = col, pcOp = op, pcArguments = [v]\<rparr> \<and>
    parseCondition (col @ '' IN ('' @ in_list vs @ '')'') = Inr \<lparr>pcColumn = col, pcOp = ''IN'', pcArguments = vs\<rparr>"
  using parse_comparison [OF assms(1-4)] parse_in [OF assms(1,2,5,6)] by blast

theorem parseCondition_roundtrip_witness:
  "parseCondition ''lo_discount <= 3'' = Inr \<lparr>pcColumn = ''lo_discount'', pcOp = ''<='', pcArguments = [''3'']\<rparr> \<and>
   parseCondition ''lo_discount IN (1, x)'' = Inr \<lparr>pcColumn = ''lo_discount'', pcOp = ''IN'', pcArguments = [''1'', ''x'']\<rparr>"
proof -
  have "list_all is_word ''lo_discount''" "''<='' \<in> set comparison_symbols" "value_text ''3''" "value_text ''1''" "value_text ''x''"
    by code_simp+
  with parseCondition_roundtrip [of "''lo_discount''" "''<=''" "''3''" "[''1'', ''x'']"]
  show ?thesis by (simp add: in_list_def)
qed

end
