(* ===== verification/Query_Info.thy ===== *)
theory Query_Info
  imports Condition_Parser
begin

text \<open>
  \<open>src/ir/get_query_info.cpp\<close>: the JSON front end reads what the plan does not say (the selected
  columns, the conditions, grouping and order) from the text of the query, with one pattern per
  clause.
\<close>

section \<open>What is read\<close>

record Selection =
  content :: string
  s_alias :: string

record Aggregation =
  func :: string
  mapping :: string
  g_alias :: string

record Sort =
  sort_field :: string
  sort_asc :: bool

record SqlQueryData =
  selections :: "Selection list"
  aggregations :: "Aggregation list"
  groupBys :: "string list"
  tables :: "string set"
  attributes :: "string set"
  conditions :: "string list"
  sorting :: "Sort list"

section \<open>Pieces of text\<close>

definition query_trim :: "string \<Rightarrow> string" where
  "query_trim s = cond_trim s"

text \<open>\<open>std::getline\<close> with a delimiter until it fails: no empty piece after the last delimiter.\<close>

fun getlines :: "char \<Rightarrow> string \<Rightarrow> string \<Rightarrow> string list" where
  "getlines d cur [] = (if cur = [] then [] else [cur])"
| "getlines d cur (c # s) = (if c = d then cur # getlines d [] s else getlines d (cur @ [c]) s)"

definition one_line :: "string \<Rightarrow> string" where
  "one_line s = map (\<lambda>c. if c = CHR 0x0A then CHR '' '' else c) s"

definition pieces :: "string \<Rightarrow> string list" where
  "pieces s = filter (\<lambda>t. t \<noteq> []) (map query_trim (getlines CHR '','' [] s))"

definition any_char :: "char \<Rightarrow> bool" where
  "any_char c \<longleftrightarrow> True"

section \<open>The clauses\<close>

definition selectRegex :: re where
  "selectRegex = cat [ilit ''SELECT'', rep1 is_space, Grp 1 (lazy1 any_char), rep1 is_space, ilit ''FROM'']"

definition aliasRegex :: re where
  "aliasRegex = cat [Grp 1 (lazy0 is_dot), rep1 is_space, ilit ''AS'', rep1 is_space, Grp 2 (rep1 is_word)]"

definition aggRegex :: re where
  "aggRegex = cat [Grp 1 (alts (map ilit [''SUM'', ''COUNT'', ''AVG'', ''MIN'', ''MAX''])), rep0 is_space, lit ''('',
     Grp 2 (lazy0 is_dot), lit '')'']"

definition select_item :: "string \<Rightarrow> Selection" where
  "select_item token = (case regex_search aliasRegex token of
     Some m \<Rightarrow> \<lparr>content = query_trim (group_of 1 (f_groups m)), s_alias = query_trim (group_of 2 (f_groups m))\<rparr>
   | None \<Rightarrow> \<lparr>content = token, s_alias = []\<rparr>)"

definition select_agg :: "Selection \<Rightarrow> Aggregation list" where
  "select_agg s = (case regex_search aggRegex (content s) of
     Some m \<Rightarrow> [\<lparr>func = group_of 1 (f_groups m), mapping = group_of 2 (f_groups m), g_alias = s_alias s\<rparr>]
   | None \<Rightarrow> [])"

definition parse_selections :: "string \<Rightarrow> Selection list" where
  "parse_selections sql = (case regex_search selectRegex sql of
     Some m \<Rightarrow> map select_item (pieces (one_line (group_of 1 (f_groups m))))
   | None \<Rightarrow> [])"

definition fromRegex :: re where
  "fromRegex = cat [ilit ''FROM'', rep1 is_space, Grp 1 (lazy0 is_dot), rep1 is_space, ilit ''WHERE'']"

definition parse_tables :: "string \<Rightarrow> string set" where
  "parse_tables sql = (case regex_search fromRegex sql of
     Some m \<Rightarrow> set (map query_trim (getlines CHR '','' [] (group_of 1 (f_groups m))))
   | None \<Rightarrow> {})"

definition is_small :: "char \<Rightarrow> bool" where
  "is_small c \<longleftrightarrow> (let n = (of_char c :: nat) in 97 \<le> n \<and> n \<le> 122)"

definition attrRegex :: re where
  "attrRegex = cat [Edge, rep1 is_small, lit ''_'', rep1 (\<lambda>c. is_small c \<or> is_digit c), Edge]"

definition whereRegex :: re where
  "whereRegex = cat [ilit ''WHERE'', rep1 is_space, Grp 1 (lazy0 any_char), rep0 is_space,
     alts [ilit ''GROUP BY'', ilit ''ORDER BY'', lit '';'', End]]"

definition between_mask :: re where
  "between_mask = cat [ilit ''BETWEEN'', rep1 is_space, Grp 1 (rep1 (\<lambda>c. \<not> is_space c)), rep1 is_space, ilit ''AND'',
     rep1 is_space, Grp 2 (rep1 (\<lambda>c. \<not> is_space c))]"

definition splitAnd :: re where
  "splitAnd = cat [rep1 is_space, lit ''AND'', rep1 is_space]"

text \<open>The first placeholder is turned back into \<open>AND\<close>, then one pair of parentheses is removed.\<close>

definition unmask :: "string \<Rightarrow> string" where
  "unmask cond = (case find_sub '' _AND_ '' cond of
     Some pos \<Rightarrow> take pos cond @ '' AND '' @ drop (pos + 7) cond
   | None \<Rightarrow> cond)"

definition strip_parens :: "string \<Rightarrow> string" where
  "strip_parens cond =
     (if 1 < length cond \<and> hd cond = CHR ''('' \<and> last cond = CHR '')'' then query_trim (butlast (tl cond)) else cond)"

definition split_conditions :: "string \<Rightarrow> string list" where
  "split_conditions clause =
     (let masked = regex_replace between_mask
        (\<lambda>g. ''BETWEEN '' @ group_of 1 g @ '' _AND_ '' @ group_of 2 g) (one_line clause)
      in map (\<lambda>c. strip_parens (unmask c)) (filter (\<lambda>c. c \<noteq> []) (map query_trim (regex_split splitAnd masked))))"

definition parse_conditions :: "string \<Rightarrow> string list" where
  "parse_conditions sql = (case regex_search whereRegex sql of
     Some m \<Rightarrow> split_conditions (group_of 1 (f_groups m))
   | None \<Rightarrow> [])"

definition groupRegex :: re where
  "groupRegex = cat [ilit ''GROUP'', rep1 is_space, ilit ''BY'', rep1 is_space, Grp 1 (lazy1 any_char),
     alts [cat [ilit ''ORDER'', rep1 is_space, ilit ''BY''], lit '';'', End]]"

definition parse_groups :: "string \<Rightarrow> string list" where
  "parse_groups sql = (case regex_search groupRegex sql of
     Some m \<Rightarrow> pieces (one_line (group_of 1 (f_groups m)))
   | None \<Rightarrow> [])"

definition orderRegex :: re where
  "orderRegex = cat [ilit ''ORDER'', rep1 is_space, ilit ''BY'', rep1 is_space, Grp 1 (lazy1 any_char), alts [lit '';'', End]]"

definition ends_in :: "string \<Rightarrow> string \<Rightarrow> bool" where
  "ends_in w s \<longleftrightarrow> length w \<le> length s \<and> drop (length s - length w) s = w"

definition sort_item :: "string \<Rightarrow> Sort" where
  "sort_item s =
     (if ends_in '' DESC'' s then \<lparr>sort_field = query_trim (take (length s - 5) s), sort_asc = False\<rparr>
      else if ends_in '' ASC'' s then \<lparr>sort_field = query_trim (take (length s - 4) s), sort_asc = True\<rparr>
      else \<lparr>sort_field = query_trim s, sort_asc = True\<rparr>)"

definition parse_sorting :: "string \<Rightarrow> Sort list" where
  "parse_sorting sql = (case regex_search orderRegex sql of
     Some m \<Rightarrow> map sort_item (pieces (one_line (group_of 1 (f_groups m))))
   | None \<Rightarrow> [])"

definition parseQuery :: "string \<Rightarrow> SqlQueryData" where
  "parseQuery sql =
     \<lparr>selections = parse_selections sql,
      aggregations = concat (map select_agg (parse_selections sql)),
      groupBys = parse_groups sql,
      tables = parse_tables sql,
      attributes = set (regex_iterator attrRegex sql),
      conditions = parse_conditions sql,
      sorting = parse_sorting sql\<rparr>"

end
