(* ===== verification/Json_To_Abstract.thy ===== *)
theory Json_To_Abstract
  imports Json_Plan Query_Info
begin

text \<open>
  The second half of \<open>src/ir/json_to_abstract.cpp\<close>: the pruned plan is filled with what the query text
  says. A scan gets the conditions over its table alone, a join the first condition between the tables
  of its two sides, the aggregation and the sort what was selected, and a result node becomes the root.
\<close>

section \<open>Tables of a condition\<close>

definition starts_with :: "string \<Rightarrow> string \<Rightarrow> bool" where
  "starts_with w s \<longleftrightarrow> take (length w) s = w"

definition getTableFromColumn :: "string \<Rightarrow> string" where
  "getTableFromColumn col =
     (if starts_with ''lo_'' col then ''lineorder''
      else if starts_with ''c_'' col then ''customer''
      else if starts_with ''s_'' col then ''supplier''
      else if starts_with ''p_'' col then ''part''
      else if starts_with ''d_'' col then ''dates''
      else [])"

definition blank_or_tab :: "char \<Rightarrow> bool" where
  "blank_or_tab c \<longleftrightarrow> c = CHR '' '' \<or> c = CHR 0x09"

definition side_trim :: "string \<Rightarrow> string" where
  "side_trim s = rev (dropWhile blank_or_tab (rev (dropWhile blank_or_tab s)))"

definition parseConditionTables :: "string \<Rightarrow> string \<times> string" where
  "parseConditionTables cond = (case find_sub ''='' cond of
     None \<Rightarrow> ([], [])
   | Some pos \<Rightarrow> (getTableFromColumn (side_trim (take pos cond)), getTableFromColumn (side_trim (drop (pos + 1) cond))))"

definition tables_in :: "string \<Rightarrow> string set" where
  "tables_in cond = set (map getTableFromColumn (regex_iterator attrRegex cond))"

section \<open>Enriching a node\<close>

definition enrich_source :: "SqlQueryData \<Rightarrow> AbstractSource \<Rightarrow> AbstractSource" where
  "enrich_source q s = s\<lparr>filters := filters s @ filter (\<lambda>c. tables_in c = {basetable s}) (conditions q)\<rparr>"

definition alias_map :: "SqlQueryData \<Rightarrow> string \<rightharpoonup> string" where
  "alias_map q = map_of (rev (map (\<lambda>s. (s_alias s, content s)) (filter (\<lambda>s. s_alias s \<noteq> []) (selections q))))"

definition sort_column :: "SqlQueryData \<Rightarrow> Sort \<Rightarrow> string" where
  "sort_column q s = (case alias_map q (sort_field s) of Some c \<Rightarrow> c | None \<Rightarrow> sort_field s)"

definition sort_alias :: "SqlQueryData \<Rightarrow> Sort \<Rightarrow> string" where
  "sort_alias q s = (if alias_map q (sort_field s) = None then [] else sort_field s)"

definition enrich_sort :: "SqlQueryData \<Rightarrow> AbstractSort" where
  "enrich_sort q =
     \<lparr>column_names = map (sort_column q) (sorting q), aliases = map (sort_alias q) (sorting q),
      asc = map sort_asc (sorting q)\<rparr>"

definition enrich_agg :: "SqlQueryData \<Rightarrow> AbstractAgg res" where
  "enrich_agg q = bindE (atE (aggregations q) 0) (\<lambda>g.
     Inr \<lparr>agg_type = func g, agg_mapping = mapping g, agg_alias = g_alias g, grouping_cols = groupBys q\<rparr>)"

text \<open>The first condition between the two sides; the children change places when it names the right
  side first.\<close>

fun find_join :: "string set \<Rightarrow> string set \<Rightarrow> string list \<Rightarrow> (AbstractJoin \<times> bool) option" where
  "find_join L R [] = None"
| "find_join L R (c # cs) =
     (let (t1, t2) = parseConditionTables c;
          normal = (t1 \<in> L \<and> t2 \<in> R); swapped = (t2 \<in> L \<and> t1 \<in> R)
      in if normal \<or> swapped then Some (\<lparr>left_table = t1, right_table = t2, condition = c\<rparr>, \<not> normal)
         else find_join L R cs)"

definition enrich_join :: "SqlQueryData \<Rightarrow> AbstractJoin \<Rightarrow> string set list \<Rightarrow> AbstractJoin \<times> bool" where
  "enrich_join q j sets = (case sets of
     [L, R] \<Rightarrow> (case find_join L R (conditions q) of Some r \<Rightarrow> r | None \<Rightarrow> (j, False))
   | _ \<Rightarrow> (j, False))"

text \<open>The tables below a node and the node itself.\<close>

fun enrichTreeSub :: "SqlQueryData \<Rightarrow> jnode \<Rightarrow> (string set \<times> jnode) res" where
  "enrichTreeSub q (JNode raw a cs) =
     bindE (mapE (enrichTreeSub q) cs) (\<lambda>rs.
       let sets = map fst rs; kids = map snd rs; current = \<Union> (set sets) in
       case a of
         AbsSource s \<Rightarrow> Inr ({basetable s}, JNode raw (AbsSource (enrich_source q s)) kids)
       | AbsSort s \<Rightarrow> Inr (current, JNode raw (AbsSort (enrich_sort q)) kids)
       | AbsAgg g \<Rightarrow> bindE (enrich_agg q) (\<lambda>g'. Inr (current, JNode raw (AbsAgg g') kids))
       | AbsJoin j \<Rightarrow> (case enrich_join q j sets of (j', swap) \<Rightarrow>
           Inr (current, JNode raw (AbsJoin j') (if swap then swap01 kids else kids)))
       | _ \<Rightarrow> Inr (current, JNode raw a kids))"

definition result_column :: "Selection \<Rightarrow> string" where
  "result_column s = (if s_alias s = [] then content s else content s @ '' AS '' @ s_alias s)"

definition enrichTree :: "jnode \<Rightarrow> SqlQueryData \<Rightarrow> jnode res" where
  "enrichTree root q = bindE (enrichTreeSub q root) (\<lambda>(_, n).
     Inr (JNode None (AbsResult \<lparr>output_cols = map result_column (selections q)\<rparr>) [n]))"

section \<open>What the plan keeps\<close>

text \<open>The tables of the source nodes.\<close>

fun sources :: "jnode \<Rightarrow> string list" where
  "sources (JNode raw a cs) = (case a of AbsSource s \<Rightarrow> [basetable s] | _ \<Rightarrow> concat (map sources cs))"

text \<open>A join that has found its condition names a table of its left child first and one of its right
  child second; the columns of a sort have their aliases and directions.\<close>

fun oriented :: "jnode \<Rightarrow> bool" where
  "oriented (JNode raw a cs) \<longleftrightarrow> (case a of
     AbsJoin j \<Rightarrow> condition j = [] \<or> (case cs of
        [l, r] \<Rightarrow> left_table j \<in> set (sources l) \<and> right_table j \<in> set (sources r) \<and>
          parseConditionTables (condition j) = (left_table j, right_table j)
      | _ \<Rightarrow> False)
   | AbsSort s \<Rightarrow> length (aliases s) = length (column_names s) \<and> length (asc s) = length (column_names s)
   | _ \<Rightarrow> True) \<and> list_all oriented cs"

lemma find_join_spec:
  "find_join L R cs = Some (j, swap) \<Longrightarrow>
    parseConditionTables (condition j) = (left_table j, right_table j) \<and>
    (if swap then left_table j \<in> R \<and> right_table j \<in> L else left_table j \<in> L \<and> right_table j \<in> R)"
  by (induction cs) (auto simp: Let_def split: prod.splits if_splits)

text \<open>No join has a condition yet.\<close>

fun fresh :: "jnode \<Rightarrow> bool" where
  "fresh (JNode raw a cs) \<longleftrightarrow> (case a of AbsJoin j \<Rightarrow> condition j = [] | _ \<Rightarrow> True) \<and> list_all fresh cs"

lemma pruned_sources: "pruned t \<Longrightarrow> sources t = scanned t \<and> fresh t"
proof (induction t rule: pruned.induct)
  case (1 raw a cs)
  then obtain r where r: "raw = Some r" "a = convertToAbstract r" by (auto split: option.splits)
  have kids: "\<forall>c \<in> set cs. sources c = scanned c \<and> fresh c" using 1 r by (auto simp: list_all_iff)
  then have cat: "concat (map sources cs) = concat (map scanned cs)" by (auto intro!: arg_cong [of _ _ concat])
  consider (scan) "nodeType r \<in> SCAN \<union> BITMAP" | (other) "nodeType r \<notin> SCAN \<union> BITMAP" by blast
  then show ?case
  proof cases
    case scan
    then have "nodeType r \<notin> JOIN" "nodeType r \<notin> AGG" "nodeType r \<notin> SORT" by (auto simp: class_defs)
    with scan kids r show ?thesis by (auto simp: convertToAbstract_def scan_name_def list_all_iff)
  next
    case other
    with kids cat r show ?thesis by (auto simp: convertToAbstract_def list_all_iff)
  qed
qed

definition enriched :: "jnode \<Rightarrow> string set \<times> jnode \<Rightarrow> bool" where
  "enriched t r \<longleftrightarrow> fst r = set (sources (snd r)) \<and> mset (sources (snd r)) = mset (sources t) \<and> oriented (snd r)"

lemma mset_concat_pointwise:
  "list_all2 (\<lambda>x y. mset (f x) = mset (g y)) xs ys \<Longrightarrow> mset (concat (map f xs)) = mset (concat (map g ys))"
  by (induction xs ys rule: list_all2_induct) auto

lemma enriched_kids:
  assumes "mapE (enrichTreeSub q) cs = Inr rs" "\<forall>c \<in> set cs. \<forall>r. enrichTreeSub q c = Inr r \<longrightarrow> enriched c r"
  shows "list_all oriented (map snd rs)" "\<Union> (set (map fst rs)) = set (concat (map sources (map snd rs)))"
    "mset (concat (map sources (map snd rs))) = mset (concat (map sources cs))"
    "\<forall>r \<in> set rs. fst r = set (sources (snd r))"
proof -
  have e: "list_all2 enriched cs rs"
    using assms(1) unfolding mapE_Inr by (rule list.rel_mono_strong) (use assms(2) in blast)
  have all: "\<forall>r \<in> set rs. fst r = set (sources (snd r)) \<and> oriented (snd r)"
    using e by (induction cs rs rule: list_all2_induct) (auto simp: enriched_def)
  then show "\<forall>r \<in> set rs. fst r = set (sources (snd r))" "list_all oriented (map snd rs)"
    "\<Union> (set (map fst rs)) = set (concat (map sources (map snd rs)))" by (auto simp: list_all_iff)
  have "list_all2 (\<lambda>c r. mset (sources c) = mset (sources (snd r))) cs rs"
    using e by (rule list.rel_mono_strong) (simp add: enriched_def)
  from mset_concat_pointwise [OF this, of] show "mset (concat (map sources (map snd rs))) = mset (concat (map sources cs))"
    by (simp add: comp_def)
qed

lemma enrich_spec:
  "fresh t \<Longrightarrow> enrichTreeSub q t = Inr r \<Longrightarrow> enriched t r"
proof (induction q t arbitrary: r rule: enrichTreeSub.induct)
  case (1 q raw a cs)
  from "1.prems"(2) obtain rs where rs: "mapE (enrichTreeSub q) cs = Inr rs" by (auto simp: bindE_Inr_iff)
  have IH: "\<forall>c \<in> set cs. \<forall>r. enrichTreeSub q c = Inr r \<longrightarrow> enriched c r"
    using 1 by (auto simp: list_all_iff)
  note kids = enriched_kids [OF rs IH]
  show ?case
  proof (cases a)
    case (AbsJoin j)
    obtain j' swap where ej: "enrich_join q j (map fst rs) = (j', swap)" by fastforce
    have r: "r = (\<Union> (set (map fst rs)), JNode raw (AbsJoin j') (if swap then swap01 (map snd rs) else map snd rs))"
      using "1.prems"(2) rs AbsJoin ej by (simp add: Let_def)
    have j: "condition j = []" using "1.prems"(1) AbsJoin by simp
    show ?thesis
    proof (cases "\<exists>x y. rs = [x, y] \<and> find_join (fst x) (fst y) (conditions q) \<noteq> None")
      case True
      then obtain x y where xy: "rs = [x, y]" "find_join (fst x) (fst y) (conditions q) = Some (j', swap)"
        using ej by (auto simp: enrich_join_def)
      have o: "oriented (snd x)" "oriented (snd y)" using kids(1) xy(1) by simp_all
      have f: "fst x = set (sources (snd x))" "fst y = set (sources (snd y))" using kids(4) xy(1) by simp_all
      have m: "mset (concat (map sources cs)) = mset (sources (snd x)) + mset (sources (snd y))"
        using kids(3) xy(1) by simp
      show ?thesis
      proof (cases swap)
        case True
        with r xy(1) have "r = (fst x \<union> fst y, JNode raw (AbsJoin j') [snd y, snd x])" by simp
        with find_join_spec [OF xy(2)] True o f m AbsJoin show ?thesis by (simp add: enriched_def Un_commute)
      next
        case False
        with r xy(1) have "r = (fst x \<union> fst y, JNode raw (AbsJoin j') [snd x, snd y])" by simp
        with find_join_spec [OF xy(2)] False o f m AbsJoin show ?thesis by (simp add: enriched_def)
      qed
    next
      case False
      then have "j' = j" "\<not> swap" using ej by (auto simp: enrich_join_def split: list.splits option.splits)
      with kids r j AbsJoin show ?thesis by (auto simp: enriched_def)
    qed
  qed (use "1.prems"(2) rs kids in \<open>auto simp: enriched_def Let_def bindE_Inr_iff enrich_source_def enrich_sort_def\<close>)
qed

end
