(* ===== verification/Abstract_To_Ir.thy ===== *)
theory Abstract_To_Ir
  imports Json_To_Abstract Plan_Node
begin

text \<open>
  \<open>src/ir/abstract_to_ir.cpp\<close> and \<open>DBClient::getIrRootJson\<close>: the enriched JSON plan becomes the plan of
  the optimizer. A source becomes its filters above a fetch, an aggregation up to three nodes, every
  other node is translated in place; a node without abstract data stays without an operator.
\<close>

section \<open>Sources and joins\<close>

definition filter_data :: "string \<Rightarrow> string \<Rightarrow> IrData res" where
  "filter_data tbl text = bindE (parseCondition text) (\<lambda>c.
     let col = mkColumn (table_of tbl) (pcColumn c) (getSSBColumnType tbl (pcColumn c)) None in
     Inr (filter_create col (mapStringToCompType (pcOp c)) None (map ScalarString (pcArguments c)) col))"

definition fetch_data :: "string \<Rightarrow> IrData" where
  "fetch_data tbl = fetch_create (mkColumn (table_of tbl) [] TYPE_INTEGER None) True"

definition chain :: "IrData list \<Rightarrow> plan \<Rightarrow> plan" where
  "chain ds p = foldr (\<lambda>d q. Plan d [q]) ds p"

definition source_plan :: "AbstractSource \<Rightarrow> plan res" where
  "source_plan s = bindE (mapE (filter_data (basetable s)) (filters s)) (\<lambda>ds.
     Inr (chain ds (Plan (fetch_data (basetable s)) [])))"

definition join_data :: "AbstractJoin \<Rightarrow> IrData res" where
  "join_data j = bindE (parseJoinCondition (condition j)) (\<lambda>(l, r, op).
     Inr (join_create
       (mkColumn (table_of (left_table j)) l (getSSBColumnType (left_table j) l) None)
       (mkColumn (table_of (right_table j)) r (getSSBColumnType (right_table j) r) None)
       (mkColumn (table_of ''JOIN'') (l @ op @ r) TYPE_INTEGER None) INNER_JOIN (mapStringToCompType op)))"

section \<open>Aggregations\<close>

text \<open>The arithmetic below the aggregate. The source compares the operator character with the number
  5 of \<open>ARITH_MOD\<close>.\<close>

definition map_data :: "string \<Rightarrow> (IrData \<times> TableColumn) res" where
  "map_data m = bindE (parseMapping m) (\<lambda>(in1, op, in2).
     let t1 = getTableName in1; ty1 = getSSBColumnType t1 in1;
         t2 = getTableName in2; ty2 = getSSBColumnType t2 in2
     in if ty1 = TYPE_STRING \<or> ty2 = TYPE_STRING \<or>
           (of_char op = (5 :: nat) \<and> \<not> (ty1 = TYPE_INTEGER \<and> ty2 = TYPE_INTEGER))
        then Inl (RuntimeError ''Invalid types for arithmetic operation'')
        else
          let out = mkColumn (table_of ''MAP'') (in1 @ [op] @ in2)
                (if ty1 = TYPE_FLOAT \<or> ty2 = TYPE_FLOAT then TYPE_FLOAT else TYPE_INTEGER) None
          in Inr (map_create (mkColumn (table_of t1) in1 ty1 None) (mapStringToArithOp [op])
               (PartnerCol (mkColumn (table_of t2) in2 ty2 None)) out, out))"

definition agg_output :: "AggFunc \<Rightarrow> ColumnType \<Rightarrow> ColumnType" where
  "agg_output f ty = (case f of AGG_COUNT \<Rightarrow> TYPE_INTEGER | AGG_AVG \<Rightarrow> TYPE_FLOAT | _ \<Rightarrow> ty)"

definition agg_data :: "AbstractAgg \<Rightarrow> TableColumn option \<Rightarrow> IrData list" where
  "agg_data g mapOut = (case mapStringToAggFunc (agg_type g) of
     None \<Rightarrow> []
   | Some f \<Rightarrow>
       let inCol = (case mapOut of
             Some c \<Rightarrow> c
           | None \<Rightarrow>
               let name = getFirstTokenString (agg_mapping g) in
               mkColumn (table_of (getTableName name)) name (getSSBColumnType [] name) None)
       in [agg_create inCol
             (mkColumn (table_of ''AGG'') (agg_type g @ ''('' @ columnName inCol @ '')'')
               (agg_output f (columnType inCol)) (Some (agg_alias g))) f])"

text \<open>The table of a column of the grouping, the sort or the result.\<close>

definition column_table :: "string \<Rightarrow> string" where
  "column_table name =
     (let t = getTableName name in if t = ''Default'' \<and> isAggColumn name then ''AGG'' else t)"

definition group_data :: "AbstractAgg \<Rightarrow> IrData list" where
  "group_data g =
     (if grouping_cols g = [] then []
      else let groups = map (\<lambda>c. mkColumn (table_of (column_table c)) c (getSSBColumnType (column_table c) c) None)
                 (grouping_cols g)
           in [group_create groups (group_generateOutCol groups)])"

definition agg_items :: "AbstractAgg \<Rightarrow> IrData list res" where
  "agg_items g =
     bindE (if containsArithMapOp (agg_mapping g)
            then bindE (map_data (agg_mapping g)) (\<lambda>(d, out). Inr ([d], Some out))
            else Inr ([], None)) (\<lambda>(maps, out).
     Inr (maps @ agg_data g out @ group_data g))"

text \<open>The items are put on top of the only child, the last one uppermost.\<close>

definition agg_plan :: "AbstractAgg \<Rightarrow> plan list \<Rightarrow> plan res" where
  "agg_plan g ps = bindE (agg_items g) (\<lambda>ds. case ps of
     [p] \<Rightarrow> Inr (chain (rev ds) p)
   | _ \<Rightarrow> Inl (RuntimeError ''Abstract aggregation must always have exactly one child''))"

section \<open>Sort and result\<close>

definition sort_data :: "AbstractSort \<Rightarrow> IrData res" where
  "sort_data s = bindE
     (mapE (\<lambda>i. bindE (atE (aliases s) i) (\<lambda>al. bindE (atE (asc s) i) (\<lambda>up.
        let name = column_names s ! i in
        Inr \<lparr>column = mkColumn (table_of (column_table name)) name (getSSBColumnType [] name) (Some al),
             orderType = up, nullordering = False\<rparr>)))
       [0..<length (column_names s)])
     (\<lambda>orders. Inr (sort_create orders (sort_generateOutCol (map column orders)) None))"

definition result_data :: "AbstractResult \<Rightarrow> IrData" where
  "result_data r = select_create
     (map (\<lambda>name. let al = extractAlias name in
        mkColumn (table_of (column_table name)) (removeAllWhitespace (cwaName al)) (getSSBColumnType [] name)
          (cwaAlias al)) (output_cols r)) None []"

section \<open>The translation\<close>

definition abstract_node :: "AbstractData \<Rightarrow> plan list \<Rightarrow> plan res" where
  "abstract_node a ps = (case a of
     NoAbstract \<Rightarrow> Inr (Plan emptyIr ps)
   | AbsSource s \<Rightarrow> source_plan s
   | AbsJoin j \<Rightarrow> bindE (join_data j) (\<lambda>d. Inr (Plan d ps))
   | AbsAgg g \<Rightarrow> agg_plan g ps
   | AbsSort s \<Rightarrow> bindE (sort_data s) (\<lambda>d. Inr (Plan d ps))
   | AbsResult r \<Rightarrow> Inr (Plan (result_data r) ps))"

fun abstractToIr :: "jnode \<Rightarrow> plan res" where
  "abstractToIr (JNode raw a cs) = bindE (mapE abstractToIr cs) (abstract_node a)"

text \<open>From the raw plan and the query text to the plan; \<open>getIrRootJson\<close> reads the JSON value first.\<close>

definition json_to_ir :: "jnode \<Rightarrow> string \<Rightarrow> plan res" where
  "json_to_ir t sql = bindE (enrichTree (pruneTree t) (parseQuery sql)) abstractToIr"

definition getIrRootJson :: "('j, 'm) json_lib_scheme \<Rightarrow> nat \<Rightarrow> 'j \<Rightarrow> string \<Rightarrow> plan res option" where
  "getIrRootJson J n v sql = map_option (\<lambda>r. bindE r (\<lambda>t. json_to_ir t sql)) (parse_plan J n v)"

section \<open>What the translation keeps\<close>

lemma plan_ok_chain [simp]: "plan_ok (chain ds p) \<longleftrightarrow> (\<forall>d \<in> set ds. ir_ok d) \<and> plan_ok p"
  by (induction ds) (auto simp: chain_def)

lemma fetched_chain: "\<forall>d \<in> set ds. \<not> base_fetch d \<Longrightarrow> fetched_tables (chain ds p) = fetched_tables p"
  by (induction ds) (auto simp: chain_def)

text \<open>A join takes its first column from a table below its left child, its second from below its right
  child.\<close>

fun joins_local :: "plan \<Rightarrow> bool" where
  "joins_local (Plan d cs) \<longleftrightarrow> (is_join d \<longrightarrow> (case (inputColumns d, cs) of
     ([a, b], [l, r]) \<Rightarrow> tname (ctable a) \<in> set (fetched_tables l) \<and> tname (ctable b) \<in> set (fetched_tables r)
   | _ \<Rightarrow> False)) \<and> list_all joins_local cs"

lemma joins_local_chain: "\<forall>d \<in> set ds. \<not> is_join d \<Longrightarrow> joins_local (chain ds p) = joins_local p"
  by (induction ds) (auto simp: chain_def)

definition plain_data :: "IrData \<Rightarrow> bool" where
  "plain_data d \<longleftrightarrow> ir_ok d \<and> \<not> base_fetch d \<and> \<not> is_join d"

lemma created_plain [simp]:
  "plain_data (filter_create a b c e f)" "plain_data (map_create g h i j)" "plain_data (agg_create k l m)"
  "plain_data (group_create n p)" "plain_data (sort_create q r s)" "plain_data (select_create t u v)" "plain_data emptyIr"
  by (auto simp: plain_data_def base_fetch_def is_join_def create_defs ir_ok_def emptyIr_def is_mat_def
      split: option.splits Partner.splits)

lemma chain_plain:
  "\<forall>d \<in> set ds. plain_data d \<Longrightarrow>
    plan_ok (chain ds p) = plan_ok p \<and> fetched_tables (chain ds p) = fetched_tables p \<and> joins_local (chain ds p) = joins_local p"
  by (auto simp: plain_data_def fetched_chain joins_local_chain)

definition translates :: "jnode \<Rightarrow> plan \<Rightarrow> bool" where
  "translates t p \<longleftrightarrow> plan_ok p \<and> fetched_tables p = sources t \<and> joins_local p"

lemma source_translates: "source_plan s = Inr p \<Longrightarrow> translates (JNode raw (AbsSource s) cs) p"
proof -
  assume "source_plan s = Inr p"
  then obtain ds where ds: "mapE (filter_data (basetable s)) (filters s) = Inr ds"
    and p: "p = chain ds (Plan (fetch_data (basetable s)) [])" by (auto simp: source_plan_def bindE_Inr_iff)
  from ds have "\<forall>d \<in> set ds. plain_data d" unfolding mapE_Inr
    by (induction rule: list_all2_induct) (auto simp: filter_data_def bindE_Inr_iff Let_def)
  from chain_plain [OF this, of "Plan (fetch_data (basetable s)) []"] show ?thesis
    by (simp add: p translates_def fetch_data_def base_fetch_def ir_simps is_join_def)
qed

lemma agg_items_plain: "agg_items g = Inr ds \<Longrightarrow> \<forall>d \<in> set ds. plain_data d"
  by (auto simp: agg_items_def map_data_def agg_data_def group_data_def bindE_Inr_iff Let_def
      split: if_splits option.splits prod.splits)

lemma sort_data_plain: "sort_data s = Inr d \<Longrightarrow> plain_data d"
  by (auto simp: sort_data_def bindE_Inr_iff)

lemma no_condition: "parseJoinCondition [] = Inl (InvalidArgument ''Unsupported condition'')"
  by code_simp

lemma fetched_kids: "list_all2 translates cs ps \<Longrightarrow> concat (map fetched_tables ps) = concat (map sources cs)"
  by (induction rule: list_all2_induct) (auto simp: translates_def)

lemma kids_ok: "list_all2 translates cs ps \<Longrightarrow> (\<forall>p \<in> set ps. plan_ok p) \<and> list_all joins_local ps"
  by (induction rule: list_all2_induct) (auto simp: translates_def)

lemma plain_translates:
  assumes "list_all2 translates cs ps" "plain_data d" "\<And>s. a \<noteq> AbsSource s"
  shows "translates (JNode raw a cs) (Plan d ps)"
  using assms fetched_kids [OF assms(1)] kids_ok [OF assms(1)]
  by (auto simp: translates_def plain_data_def split: AbstractData.splits)

lemma join_translates:
  assumes "list_all2 translates cs ps" "oriented (JNode raw (AbsJoin j) cs)" "join_data j = Inr d"
  shows "translates (JNode raw (AbsJoin j) cs) (Plan d ps)"
proof -
  have "condition j \<noteq> []" using assms(3) no_condition by (auto simp: join_data_def)
  with assms(2) obtain l r where cs: "cs = [l, r]" "left_table j \<in> set (sources l)" "right_table j \<in> set (sources r)"
    by (auto split: list.splits)
  with assms(1) obtain pl pr where ps: "ps = [pl, pr]" "translates l pl" "translates r pr"
    by (auto simp: list_all2_Cons1)
  from assms(3) obtain a b out op where d: "d = join_create a b out INNER_JOIN op"
      "tname (ctable a) = left_table j" "tname (ctable b) = right_table j"
    by (auto simp: join_data_def bindE_Inr_iff)
  have "\<not> base_fetch d" "ir_ok d" "inputColumns d = [a, b]" unfolding d(1) by (simp_all add: base_fetch_def join_create_def ir_ok_def is_mat_def)
  with cs ps d(2,3) show ?thesis by (simp add: translates_def)
qed

lemma agg_translates:
  assumes "list_all2 translates cs ps" "agg_plan g ps = Inr p"
  shows "translates (JNode raw (AbsAgg g) cs) p"
proof -
  from assms(2) obtain ds q where ds: "agg_items g = Inr ds" "ps = [q]" "p = chain (rev ds) q"
    unfolding agg_plan_def bindE_Inr_iff by (cases ps rule: remdups_adj.cases) auto
  with assms(1) obtain c where c: "cs = [c]" "translates c q" by (auto simp: list_all2_Cons2)
  have "\<forall>d \<in> set (rev ds). plain_data d" using agg_items_plain [OF ds(1)] by simp
  from chain_plain [OF this, of q] c ds(3) show ?thesis by (simp add: translates_def)
qed

lemma abstract_spec: "oriented t \<Longrightarrow> abstractToIr t = Inr p \<Longrightarrow> translates t p"
proof (induction t arbitrary: p rule: abstractToIr.induct)
  case (1 raw a cs)
  from "1.prems"(2) obtain ps where ps: "mapE abstractToIr cs = Inr ps" "abstract_node a ps = Inr p"
    by (auto simp: bindE_Inr_iff)
  have kids: "list_all2 translates cs ps"
    using ps(1) unfolding mapE_Inr by (rule list.rel_mono_strong) (use 1 in \<open>auto simp: list_all_iff\<close>)
  show ?case
  proof (cases a)
    case (AbsSource s)
    with ps(2) source_translates show ?thesis by (simp add: abstract_node_def)
  next
    case (AbsJoin j)
    with ps(2) obtain d where "join_data j = Inr d" "p = Plan d ps" by (auto simp: abstract_node_def bindE_Inr_iff)
    with join_translates [OF kids] "1.prems"(1) AbsJoin show ?thesis by blast
  next
    case (AbsAgg g)
    with ps(2) agg_translates [OF kids] show ?thesis by (simp add: abstract_node_def)
  next
    case (AbsSort s)
    with ps(2) obtain d where "sort_data s = Inr d" "p = Plan d ps" by (auto simp: abstract_node_def bindE_Inr_iff)
    with plain_translates [OF kids sort_data_plain] AbsSort show ?thesis by blast
  next
    case (AbsResult r)
    with ps(2) plain_translates [OF kids, of "result_data r"] show ?thesis by (simp add: abstract_node_def result_data_def)
  next
    case NoAbstract
    with ps(2) plain_translates [OF kids, of emptyIr] show ?thesis by (simp add: abstract_node_def)
  qed
qed

section \<open>Properties\<close>

text \<open>C40 The second front end keeps the plan: for a PostgreSQL plan and any query text, the plan that
  \<open>getIrRootJson\<close> returns is well formed, fetches each scanned table as often as the plan scans it,
  and every join takes its two columns from tables below its left and its right child.\<close>

theorem json_plan_kept:
  assumes "parse_plan J n v = Some (Inr t)" "pg_shape t" "getIrRootJson J n v sql = Some (Inr p)"
  shows "plan_ok p \<and> mset (fetched_tables p) = mset (scanned t) \<and> joins_local p"
proof -
  from assms(1,3) obtain S t' where e: "enrichTreeSub (parseQuery sql) (pruneTree t) = Inr (S, t')"
    and a: "abstractToIr (JNode None (AbsResult \<lparr>output_cols = map result_column (selections (parseQuery sql))\<rparr>) [t']) = Inr p"
    by (auto simp: getIrRootJson_def json_to_ir_def enrichTree_def bindE_Inr_iff)
  have pr: "pruned (pruneTree t)" "scanned (pruneTree t) = scanned t" using prune_spec [OF assms(2)] by auto
  from enrich_spec [OF _ e] pruned_sources [OF pr(1)] pr(2)
  have "oriented t'" "mset (sources t') = mset (scanned t)" by (auto simp: enriched_def)
  with abstract_spec [OF _ a] show ?thesis by (simp add: translates_def)
qed

end
