(* ===== verification/Json_Samples.thy ===== *)
theory Json_Samples
  imports Abstract_To_Ir
begin

text \<open>
  A JSON library for samples, and a plan as PostgreSQL writes it, read and translated with its query.
\<close>

datatype json = JNull | JBool bool | JInt int | JStr string | JArr "json list" | JObj "(string \<times> json) list"

fun member :: "json \<Rightarrow> string \<Rightarrow> json" where
  "member (JObj fs) k = (case map_of fs k of Some v \<Rightarrow> v | None \<Rightarrow> JNull)"
| "member _ k = JNull"

fun has_member :: "json \<Rightarrow> string \<Rightarrow> bool" where
  "has_member (JObj fs) k = (map_of fs k \<noteq> None)"
| "has_member _ k = False"

fun elems :: "json \<Rightarrow> json list" where
  "elems (JArr vs) = vs"
| "elems _ = []"

fun is_obj :: "json \<Rightarrow> bool" where
  "is_obj (JObj _) = True"
| "is_obj _ = False"

fun is_arr :: "json \<Rightarrow> bool" where
  "is_arr (JArr _) = True"
| "is_arr _ = False"

fun as_string :: "json \<Rightarrow> string res" where
  "as_string (JStr s) = Inr s"
| "as_string JNull = Inr []"
| "as_string _ = Inl (RuntimeError ''Type is not convertible to string'')"

fun as_bool :: "json \<Rightarrow> bool res" where
  "as_bool (JBool b) = Inr b"
| "as_bool _ = Inr False"

fun as_int :: "json \<Rightarrow> int res" where
  "as_int (JInt i) = Inr i"
| "as_int _ = Inr 0"

definition sample_lib :: "json json_lib" where
  "sample_lib = \<lparr>js_at = member, js_has = has_member, js_null = (\<lambda>v. v = JNull), js_object = is_obj,
     js_array = is_arr, js_elems = elems, js_string = as_string, js_bool = as_bool, js_int = as_int,
     js_float = (\<lambda>v. Inr 0)\<rparr>"

definition node :: "string \<Rightarrow> json list \<Rightarrow> json" where
  "node ty cs = JObj [(''node_type'', JStr ty), (''children'', JArr cs)]"

definition scan :: "string \<Rightarrow> json" where
  "scan t = JObj [(''node_type'', JStr ''Seq Scan''),
     (''plan_params'', JObj [(''base_table'', JObj [(''full_name'', JStr t)])])]"

definition sample_json :: json where
  "sample_json = node ''Aggregate'' [node ''Gather'' [node ''Aggregate'' [
     node ''Hash Join'' [scan ''dim_date'', node ''Hash'' [scan ''lineorder'']]]]]"

definition sample_sql :: string where
  "sample_sql = ''SELECT SUM(lo_revenue) FROM lineorder, dates WHERE lo_orderdate = d_datekey AND d_year = 1993;''"

text \<open>What the reader makes of it, what pruning leaves, and what the query adds.\<close>

definition raw :: "string \<Rightarrow> Table option \<Rightarrow> JsonRawData" where
  "raw ty t = \<lparr>nodeType = ty, nodeOperator = None, subPlan = None,
     planParams = \<lparr>baseTable = t, filterPredicate = None, sortKeys = [], parallelWorkers = 0, pp_index = [],
       lookupKey = None, subplanName = None\<rparr>,
     estimates = \<lparr>e_cardinality = 0, e_cost = 0\<rparr>,
     measures = \<lparr>m_cardinality = 0, executionTime = 0, cacheHits = None, cacheMisses = None\<rparr>\<rparr>"

definition op_node :: "string \<Rightarrow> AbstractData \<Rightarrow> jnode list \<Rightarrow> jnode" where
  "op_node ty a cs = JNode (Some (raw ty None)) a cs"

definition scan_node :: "string \<Rightarrow> AbstractData \<Rightarrow> jnode" where
  "scan_node t a = JNode (Some (raw ''Seq Scan'' (Some (Table t (Some []) False [])))) a []"

definition sample_tree :: jnode where
  "sample_tree = op_node ''Aggregate'' NoAbstract [op_node ''Gather'' NoAbstract [op_node ''Aggregate'' NoAbstract [
     op_node ''Hash Join'' NoAbstract [scan_node ''dates'' NoAbstract,
       op_node ''Hash'' NoAbstract [scan_node ''lineorder'' NoAbstract]]]]]"

definition agg0 :: AbstractAgg where
  "agg0 = \<lparr>agg_type = [], agg_mapping = [], agg_alias = [], grouping_cols = []\<rparr>"

definition join0 :: AbstractJoin where
  "join0 = \<lparr>left_table = [], right_table = [], condition = []\<rparr>"

definition src :: "string \<Rightarrow> string list \<Rightarrow> AbstractData" where
  "src t fs = AbsSource \<lparr>basetable = t, filters = fs\<rparr>"

definition pruned_tree :: jnode where
  "pruned_tree = op_node ''Aggregate'' (AbsAgg agg0) [op_node ''Hash Join'' (AbsJoin join0)
     [scan_node ''dates'' (src ''dates'' []), scan_node ''lineorder'' (src ''lineorder'' [])]]"

definition enriched_tree :: jnode where
  "enriched_tree = op_node ''Aggregate''
     (AbsAgg \<lparr>agg_type = ''SUM'', agg_mapping = ''lo_revenue'', agg_alias = [], grouping_cols = []\<rparr>)
     [op_node ''Hash Join'' (AbsJoin \<lparr>left_table = ''lineorder'', right_table = ''dates'', condition = ''lo_orderdate = d_datekey''\<rparr>)
       [scan_node ''lineorder'' (src ''lineorder'' []), scan_node ''dates'' (src ''dates'' [''d_year = 1993''])]]"

definition result_tree :: jnode where
  "result_tree = JNode None (AbsResult \<lparr>output_cols = [''SUM(lo_revenue)'']\<rparr>) [enriched_tree]"

section \<open>The steps\<close>

lemma sample_parsed: "parse_plan sample_lib 6 sample_json = Some (Inr sample_tree)"
  by code_simp

lemma sample_shape: "pg_shape sample_tree" "scanned sample_tree = [''dates'', ''lineorder'']"
  by code_simp+

lemma sample_pruned: "pruneTree sample_tree = pruned_tree"
  by code_simp

lemma sample_selections: "parse_selections sample_sql = [\<lparr>content = ''SUM(lo_revenue)'', s_alias = []\<rparr>]"
  by code_simp

lemma sample_agg: "select_agg \<lparr>content = ''SUM(lo_revenue)'', s_alias = []\<rparr> = [\<lparr>func = ''SUM'', mapping = ''lo_revenue'', g_alias = []\<rparr>]"
  by code_simp

lemma sample_conditions: "parse_conditions sample_sql = [''lo_orderdate = d_datekey'', ''d_year = 1993'']"
  by code_simp

lemma sample_groups: "parse_groups sample_sql = []"
  by code_simp

lemma sample_tables: "tables_in ''lo_orderdate = d_datekey'' = {''lineorder'', ''dates''}" "tables_in ''d_year = 1993'' = {''dates''}"
  by code_simp+

lemma sample_join: "parseConditionTables ''lo_orderdate = d_datekey'' = (''lineorder'', ''dates'')"
  by code_simp

lemma sample_query: "selections (parseQuery sample_sql) = [\<lparr>content = ''SUM(lo_revenue)'', s_alias = []\<rparr>]"
  "aggregations (parseQuery sample_sql) = [\<lparr>func = ''SUM'', mapping = ''lo_revenue'', g_alias = []\<rparr>]"
  "conditions (parseQuery sample_sql) = [''lo_orderdate = d_datekey'', ''d_year = 1993'']"
  "groupBys (parseQuery sample_sql) = []"
  by (simp_all add: parseQuery_def sample_selections sample_agg sample_conditions sample_groups)

lemma sample_enriched: "enrichTree pruned_tree (parseQuery sample_sql) = Inr result_tree"
  by (simp add: enrichTree_def pruned_tree_def op_node_def scan_node_def agg0_def join0_def src_def enrich_source_def
      enrich_agg_def enrich_join_def atE_def sample_query sample_tables sample_join Let_def result_tree_def
      enriched_tree_def result_column_def)

lemma sample_translated: "\<exists>p. abstractToIr result_tree = Inr p"
proof -
  have "(case abstractToIr result_tree of Inr p \<Rightarrow> True | Inl e \<Rightarrow> False)" by code_simp
  then show ?thesis by (simp split: sum.splits)
qed

theorem json_plan_kept_witness:
  "\<exists>p. getIrRootJson sample_lib 6 sample_json sample_sql = Some (Inr p) \<and> plan_ok p \<and>
     mset (fetched_tables p) = {#''dates'', ''lineorder''#} \<and> joins_local p"
proof -
  obtain p where "abstractToIr result_tree = Inr p" using sample_translated by blast
  then have r: "getIrRootJson sample_lib 6 sample_json sample_sql = Some (Inr p)"
    by (simp add: getIrRootJson_def sample_parsed json_to_ir_def sample_pruned sample_enriched)
  from json_plan_kept [OF sample_parsed sample_shape(1) r] r show ?thesis by (simp add: sample_shape(2))
qed

end
