(* ===== verification/Plan_Dot.thy ===== *)
theory Plan_Dot
  imports Ir_To_Api
begin

text \<open>
  \<open>src/ir/plan_node_to_dot.cpp\<close>: a plan as a graph description for Graphviz. A label is the text of one
  node; the traversal writes every node once and an edge for every child. The address of a node is its
  number. How a stream writes a floating point number is the parameter \<open>float_text\<close>. A label that reads
  a column the node does not have has no value.
\<close>

section \<open>Texts\<close>

fun join_text :: "string \<Rightarrow> string list \<Rightarrow> string" where
  "join_text sep [] = []"
| "join_text sep [x] = x"
| "join_text sep (x # xs) = x @ sep @ join_text sep xs"

definition escape_char :: "char \<Rightarrow> string" where
  \<open>escape_char c = (if c = CHR ''"'' then [CHR 0x5C, CHR ''"''] else if c = CHR 0x5C then [CHR 0x5C, CHR 0x5C]
     else if c = CHR 0x0A then [CHR 0x5C, CHR ''n''] else [c])\<close>

definition escapeLabel :: "string \<Rightarrow> string" where
  "escapeLabel s = concat (map escape_char s)"

definition html_char :: "char \<Rightarrow> string" where
  \<open>html_char c = (if c = CHR ''<'' then ''&lt;'' else if c = CHR ''>'' then ''&gt;''
     else if c = CHR ''&'' then ''&amp;'' else if c = CHR ''"'' then ''&quot;'' else [c])\<close>

definition escapeHtml :: "string \<Rightarrow> string" where
  "escapeHtml s = concat (map html_char s)"

text \<open>\<open>operator<<\<close> of a column, and \<open>ColumnPrinter\<close>, which can leave the table out.\<close>

definition print_column :: "bool \<Rightarrow> TableColumn \<Rightarrow> string" where
  "print_column short c =
     (if \<not> short \<and> tname (ctable c) \<noteq> [] then tname (ctable c) @ ''.'' else []) @ columnName c @
     (case calias c of Some a \<Rightarrow> '' AS '' @ a | None \<Rightarrow> [])"

abbreviation col_text :: "TableColumn \<Rightarrow> string" where
  "col_text \<equiv> print_column False"

definition joinTypeToString :: "Join \<Rightarrow> string" where
  "joinTypeToString j = (case j of INNER_JOIN \<Rightarrow> ''INNER'' | LEFT_OUTER_JOIN \<Rightarrow> ''LEFT'' | RIGHT_OUTER_JOIN \<Rightarrow> ''RIGHT''
     | FULL_OUTER_JOIN \<Rightarrow> ''FULL'')"

definition getCompSymbol :: "CompType \<Rightarrow> string" where
  "getCompSymbol t = (case t of COMP_EQ \<Rightarrow> ''='' | COMP_NE \<Rightarrow> ''!='' | COMP_LT \<Rightarrow> ''<'' | COMP_LE \<Rightarrow> ''<='' | COMP_GT \<Rightarrow> ''>''
     | COMP_GE \<Rightarrow> ''>='' | COMP_IN \<Rightarrow> ''IN'' | COMP_BETWEEN \<Rightarrow> ''BETWEEN'')"

definition getArithSymbol :: "ArithOp \<Rightarrow> string" where
  "getArithSymbol t = (case t of ARITH_ADD \<Rightarrow> ''+'' | ARITH_SUB \<Rightarrow> ''-'' | ARITH_MUL \<Rightarrow> ''*'' | ARITH_DIV \<Rightarrow> ''/'' | ARITH_MOD \<Rightarrow> ''%'')"

definition AggFunc_Name :: "AggFunc \<Rightarrow> string" where
  "AggFunc_Name f = (case f of AGG_COUNT \<Rightarrow> ''AGG_COUNT'' | AGG_SUM \<Rightarrow> ''AGG_SUM'' | AGG_MIN \<Rightarrow> ''AGG_MIN''
     | AGG_MAX \<Rightarrow> ''AGG_MAX'' | AGG_AVG \<Rightarrow> ''AGG_AVG'')"

definition relop_text :: "RelOp \<Rightarrow> string" where
  "relop_text r = (case r of REL_UNION \<Rightarrow> ''1'' | REL_INTERSECTION \<Rightarrow> ''2'' | REL_NEGATION \<Rightarrow> ''3'')"

type_synonym float_text = "32 word \<Rightarrow> string"

fun scalar_text :: "float_text \<Rightarrow> Scalar \<Rightarrow> string" where
  "scalar_text ft (ScalarInt w) = to_string (unat w)"
| "scalar_text ft (ScalarFloat w) = ft w"
| "scalar_text ft (ScalarString s) = s"

fun partner_text :: "float_text \<Rightarrow> Partner \<Rightarrow> string" where
  "partner_text ft (PartnerCol c) = col_text c"
| "partner_text ft (PartnerVal v) = scalar_text ft v"

text \<open>The values of a condition: two of a \<open>BETWEEN\<close>, the list of an \<open>IN\<close>, otherwise the first one.\<close>

definition args_text :: "float_text \<Rightarrow> CompType \<Rightarrow> Scalar list \<Rightarrow> string" where
  "args_text ft t args = (case args of
     [] \<Rightarrow> []
   | x # rest \<Rightarrow>
       if t = COMP_BETWEEN \<and> rest \<noteq> [] then scalar_text ft x @ '' AND '' @ scalar_text ft (hd rest)
       else if t = COMP_IN then ''('' @ join_text '', '' (map (scalar_text ft) args) @ '')''
       else scalar_text ft x)"

definition columns_text :: "bool \<Rightarrow> string \<Rightarrow> TableColumn list \<Rightarrow> string" where
  "columns_text short sep cs = join_text sep (map (print_column short) cs)"

section \<open>Plain labels\<close>

definition label_head :: "IrData \<Rightarrow> string" where
  "label_head d = (if outputCols d = [] then []
     else ''Output: '' @ columns_text False '', '' (outputCols d) @ ''\<newline>----------------\<newline>'')"

definition label_tail :: "IrData \<Rightarrow> string" where
  "label_tail d = (if outputsPosList d then ''\<newline>POSLIST-OUT'' else []) @ (if outputsMatVals d then ''\<newline>MATDATA-OUT'' else []) @
     (if inputColumns d = [] then [] else ''\<newline>----------------\<newline>Input: '' @ columns_text False '', '' (inputColumns d))"

definition condition_text :: "bool \<Rightarrow> string \<Rightarrow> CompType \<Rightarrow> IrData \<Rightarrow> string option" where
  "condition_text short kind p d =
     do { i \<leftarrow> at (inputColumns d) 0; u \<leftarrow> at (inputColumns d) 1;
          Some (kind @ ''ON '' @ print_column short i @ '' '' @ getCompSymbol p @ '' '' @ print_column short u) }"

definition ir_text :: "float_text \<Rightarrow> IrData \<Rightarrow> string option" where
  "ir_text ft d = (case opInfo d of
     OpFetch f \<Rightarrow> do { i \<leftarrow> at (inputColumns d) 0;
       Some (''Fetch: '' @ col_text i @ (if wasTableBaseNode f then ''\<newline>[TBN]'' else [])) }
   | OpSelect s \<Rightarrow> Some (''Select'' @ (case resultIdx s of Some c \<Rightarrow> ''\<newline>[Idx: '' @ col_text c @ '']'' | None \<Rightarrow> []) @
       ''\<newline>'' @ join_text '', '' (resultHeaders s))
   | OpAgg g \<Rightarrow> do { i \<leftarrow> at (inputColumns d) 0; Some (''Agg '' @ AggFunc_Name (aggFunc g) @ ''\<newline>('' @ col_text i @ '')'') }
   | OpJoin j \<Rightarrow> condition_text False (''Join '' @ joinTypeToString (joinType j) @ ''\<newline>'') (joinPredicate j) d
   | OpSemiJoin j \<Rightarrow> condition_text False (''SemiJoin '' @ joinTypeToString (semiJoinType j) @ ''\<newline>'') (semiJoinPredicate j) d
   | OpFilter f \<Rightarrow> do { i \<leftarrow> at (inputColumns d) 0;
       Some (''Filter '' @ col_text i @ '' '' @ getCompSymbol (filterType f) @ '' '' @
         (case filter_col2 d of Some c \<Rightarrow> col_text c | None \<Rightarrow> args_text ft (filterType f) (filterArgs f))) }
   | OpGroup g \<Rightarrow> Some (''GroupBy ('' @ columns_text False '' '' (inputColumns d) @ '')'' @
       (case group_aggCol d of Some c \<Rightarrow> ''\<newline>Agg: '' @ col_text c | None \<Rightarrow> []))
   | OpSort s \<Rightarrow> Some (''Sort ('' @ columns_text False '' '' (map column (columnList s)) @ '')'')
   | OpMap m \<Rightarrow> do { i \<leftarrow> at (inputColumns d) 0;
       Some (''Map '' @ col_text i @ '' '' @ getArithSymbol (operatorType m) @ '' '' @ partner_text ft (partnerVal m)) }
   | OpSet s \<Rightarrow> Some (''SetOp ['' @ relop_text (operation s) @ '']'')
   | OpMat _ \<Rightarrow> do { i \<leftarrow> at (inputColumns d) 0; f \<leftarrow> at (inputColumns d) 1;
       Some (''Mat\<newline>Idx: '' @ col_text i @ ''\<newline>Filter: '' @ col_text f) }
   | NoOp \<Rightarrow> Some ''[Empty/Unknown IR]'')"

definition join_node_text :: "string \<Rightarrow> JoinNode \<Rightarrow> string" where
  "join_node_text kind n = kind @ ''\<newline>Inner: '' @ col_text (jnInner n) @ ''\<newline>Outer: '' @ col_text (jnOuter n) @
     ''\<newline>iOut: '' @ col_text (jnInnerOut n) @ ''\<newline>oOut: '' @ col_text (jnOuterOut n)"

definition api_text :: "float_text \<Rightarrow> IrData \<Rightarrow> ApiData \<Rightarrow> string" where
  "api_text ft d x = (case x of
     NoApi \<Rightarrow> ''[Empty API]''
   | ApiFetch n \<Rightarrow> ''API Fetch '' @ col_text (fetchColumn n) @ (if printToFile n then ''[f]'' else [])
   | ApiFilter n \<Rightarrow> ''API Filter\<newline>'' @ col_text (fnInput n) @ '' -> '' @ col_text (fnOutput n) @ ''\<newline>['' @ getCompSymbol (fnType n) @
       ''] ('' @ join_text '', '' (map (scalar_text ft) (fnArgs n)) @ '')''
   | ApiJoin n \<Rightarrow> join_node_text ''API Join'' n
   | ApiSemiJoin n \<Rightarrow> join_node_text ''API SemiJoin'' n
   | ApiMap n \<Rightarrow> ''API Map\<newline>'' @ col_text (mnOutput n)
   | ApiMaterialize n \<Rightarrow> ''API Mat\<newline>Idx: '' @ col_text (matIdx n) @ ''\<newline>Filter: '' @ col_text (matFilter n)
   | ApiGroup n \<Rightarrow> ''API MultiGroup\<newline>('' @ columns_text False '', '' (gnColumns n) @ '')\<newline>Agg: '' @ col_text (gnAggColumn n) @
       ''\<newline>SrtIdx: '' @ col_text (gnOutputSortIndex n)
   | ApiSet n \<Rightarrow> ''API SetOp ['' @ relop_text (onOperation n) @ '']''
   | ApiSort n \<Rightarrow> ''API Sort\<newline>('' @ columns_text False '', '' (snInputs n) @ '')''
   | ApiAgg n \<Rightarrow> ''API Agg '' @ AggFunc_Name (anFunc n) @ ''\<newline>('' @ col_text (anInput n) @ '')''
   | ApiResult n \<Rightarrow> ''API Result'' @ (case opInfo d of
       OpSelect s \<Rightarrow> ''\<newline>'' @ join_text '', '' (resultHeaders s)
     | _ \<Rightarrow> ''\<newline>-> '' @ rnFilename n))"

definition ir_content :: "float_text \<Rightarrow> IrData \<Rightarrow> string option" where
  "ir_content ft d = map_option (\<lambda>t. label_head d @ t @ label_tail d) (ir_text ft d)"

definition api_content :: "float_text \<Rightarrow> IrData \<Rightarrow> ApiData \<Rightarrow> string" where
  "api_content ft d x = label_head d @ api_text ft d x @ label_tail d"

definition getIrLabel :: "float_text \<Rightarrow> IrData \<Rightarrow> string option" where
  "getIrLabel ft d = map_option escapeLabel (ir_content ft d)"

definition getApiLabel :: "float_text \<Rightarrow> IrData \<Rightarrow> ApiData \<Rightarrow> string" where
  "getApiLabel ft d x = escapeLabel (api_content ft d x)"

section \<open>Labels as tables\<close>

text \<open>\<open>HtmlLabelBuilder\<close>: every part is escaped when it is set, except for the raw details.\<close>

record html_label =
  title :: string
  details :: "string list"
  inputStr :: string
  outputStr :: string

definition html_output :: "string \<Rightarrow> string" where
  \<open>html_output t = (if t = [] then [] else
     ''            <TR><TD ALIGN="LEFT">Output: '' @ t @ ''</TD></TR>\<newline>            <HR/>\<newline>'')\<close>

definition html_middle :: "string \<Rightarrow> string list \<Rightarrow> string" where
  \<open>html_middle t ds = ''            <TR><TD ALIGN="CENTER"><FONT POINT-SIZE="16"><B>'' @ t @ ''</B></FONT>'' @
     concat (map (\<lambda>d. ''<BR/>'' @ d) ds) @ ''</TD></TR>\<newline>''\<close>

definition html_input :: "string \<Rightarrow> string" where
  \<open>html_input t = (if t = [] then [] else
     ''            <HR/>\<newline>            <TR><TD ALIGN="LEFT">Input: '' @ t @ ''</TD></TR>\<newline>'')\<close>

definition html_body :: "html_label \<Rightarrow> string" where
  \<open>html_body b =
     ''\<newline>        <TABLE BORDER="0" CELLBORDER="1" CELLSPACING="0" CELLPADDING="4">\<newline>'' @
     html_output (outputStr b) @ html_middle (title b) (details b) @ html_input (inputStr b) @ ''        </TABLE>\<newline>    ''\<close>

definition html_build :: "html_label \<Rightarrow> string" where
  "html_build b = ''<'' @ html_body b @ ''>''"

definition filter_detail :: "float_text \<Rightarrow> bool \<Rightarrow> TableColumn \<Rightarrow> CompType \<Rightarrow> TableColumn option \<Rightarrow> Scalar list \<Rightarrow> string" where
  "filter_detail ft short c t c2 args = print_column short c @ '' '' @
     (case c2 of Some c' \<Rightarrow> getCompSymbol t @ '' '' @ print_column short c'
      | None \<Rightarrow> if args = [] then [] else getCompSymbol t @ '' '' @ args_text ft t args)"

text \<open>Title and details of a node of the plan.\<close>

definition ir_details :: "float_text \<Rightarrow> bool \<Rightarrow> IrData \<Rightarrow> (string \<times> string list) option" where
  "ir_details ft short d = (case opInfo d of
     OpFetch f \<Rightarrow> do { i \<leftarrow> at (inputColumns d) 0;
       Some (''IR Fetch'', [print_column short i @ (if wasTableBaseNode f then '' [TBN]'' else [])]) }
   | OpSelect s \<Rightarrow> Some (''IR Select'', (case resultIdx s of Some c \<Rightarrow> [''Idx: '' @ print_column short c] | None \<Rightarrow> []) @
       [join_text '', '' (resultHeaders s)])
   | OpAgg g \<Rightarrow> do { i \<leftarrow> at (inputColumns d) 0; Some (''IR Agg '' @ AggFunc_Name (aggFunc g), [''('' @ col_text i @ '')'']) }
   | OpJoin j \<Rightarrow> map_option (\<lambda>t. (''IR Join '' @ joinTypeToString (joinType j), [t])) (condition_text short [] (joinPredicate j) d)
   | OpSemiJoin j \<Rightarrow>
       map_option (\<lambda>t. (''IR SemiJoin '' @ joinTypeToString (semiJoinType j), [t])) (condition_text short [] (semiJoinPredicate j) d)
   | OpFilter f \<Rightarrow> do { i \<leftarrow> at (inputColumns d) 0;
       Some (''IR Filter'', [filter_detail ft short i (filterType f) (filter_col2 d) (filterArgs f)]) }
   | OpGroup g \<Rightarrow> Some (''IR GroupBy'', (''('' @ columns_text short '' '' (inputColumns d) @ '')'') #
       (case group_aggCol d of Some c \<Rightarrow> [''Agg: '' @ print_column short c] | None \<Rightarrow> []))
   | OpSort s \<Rightarrow> Some (''IR Sort'', [''('' @ columns_text short '' '' (map column (columnList s)) @ '')''])
   | OpMap m \<Rightarrow> do { i \<leftarrow> at (inputColumns d) 0;
       Some (''IR Map'', [print_column short i @ '' '' @ getArithSymbol (operatorType m) @ '' '' @ partner_text ft (partnerVal m)]) }
   | OpSet s \<Rightarrow> Some (''IR SetOp'', [''['' @ relop_text (operation s) @ '']''])
   | OpMat _ \<Rightarrow> do { i \<leftarrow> at (inputColumns d) 0; f \<leftarrow> at (inputColumns d) 1;
       Some (''IR Mat'', [''Idx: '' @ print_column short i, ''Filter: '' @ print_column short f]) }
   | NoOp \<Rightarrow> Some (''Empty/Unknown IR'', []))"

definition join_node_details :: "bool \<Rightarrow> JoinNode \<Rightarrow> string list" where
  "join_node_details short n = [''Inner: '' @ print_column short (jnInner n), ''Outer: '' @ print_column short (jnOuter n),
     ''iOut: '' @ print_column short (jnInnerOut n), ''oOut: '' @ print_column short (jnOuterOut n)]"

text \<open>For an operator description a filter always shows the symbol of its condition.\<close>

definition api_details :: "float_text \<Rightarrow> bool \<Rightarrow> IrData \<Rightarrow> ApiData \<Rightarrow> string \<times> string list" where
  "api_details ft short d x = (case x of
     NoApi \<Rightarrow> (''Empty API'', [])
   | ApiFetch n \<Rightarrow> (''API Fetch'', [print_column short (fetchColumn n) @ (if printToFile n then ''[f]'' else [])])
   | ApiFilter n \<Rightarrow> (''API Filter'',
       [print_column short (fnInput n) @ '' '' @ getCompSymbol (fnType n) @
         (if fnType n = COMP_IN \<and> fnArgs n = [] then '' ()'' else '' '' @ args_text ft (fnType n) (fnArgs n))])
   | ApiJoin n \<Rightarrow> (''API Join'', join_node_details short n)
   | ApiSemiJoin n \<Rightarrow> (''API SemiJoin'', join_node_details short n)
   | ApiMap n \<Rightarrow> (''API Map'', [print_column short (mnOutput n)])
   | ApiMaterialize n \<Rightarrow> (''API Mat'', [''Idx: '' @ print_column short (matIdx n), ''Filter: '' @ print_column short (matFilter n)])
   | ApiGroup n \<Rightarrow> (''API MultiGroup'', [''('' @ columns_text short '', '' (gnColumns n) @ '')'',
       ''Agg: '' @ print_column short (gnAggColumn n), ''SrtIdx: '' @ print_column short (gnOutputSortIndex n)])
   | ApiSet n \<Rightarrow> (''API SetOp'', [''['' @ relop_text (onOperation n) @ '']''])
   | ApiSort n \<Rightarrow> (''API Sort'', [''('' @ columns_text short '', '' (snInputs n) @ '')''])
   | ApiAgg n \<Rightarrow> (''API Agg '' @ AggFunc_Name (anFunc n), [''('' @ print_column short (anInput n) @ '')''])
   | ApiResult n \<Rightarrow> (''API Result'', [case opInfo d of
       OpSelect s \<Rightarrow> join_text '', '' (resultHeaders s)
     | _ \<Rightarrow> ''-> '' @ rnFilename n]))"

definition flag_details :: "IrData \<Rightarrow> string list" where
  \<open>flag_details d = (if outputsPosList d then [''<FONT COLOR="blue">POSLIST-OUT</FONT>''] else []) @
     (if outputsMatVals d then [''<FONT COLOR="blue">MATDATA-OUT</FONT>''] else [])\<close>

text \<open>In an IR label the input columns are never shortened.\<close>

definition html_node :: "bool \<Rightarrow> bool \<Rightarrow> IrData \<Rightarrow> string \<times> string list \<Rightarrow> string" where
  "html_node short short_inputs d td =
     html_build \<lparr>title = escapeHtml (fst td), details = map escapeHtml (snd td) @ flag_details d,
       inputStr = escapeHtml (columns_text short_inputs '', '' (inputColumns d)),
       outputStr = escapeHtml (columns_text short '', '' (outputCols d))\<rparr>"

definition getIrLabelV2 :: "float_text \<Rightarrow> bool \<Rightarrow> IrData \<Rightarrow> string option" where
  "getIrLabelV2 ft short d = map_option (html_node short False d) (ir_details ft short d)"

definition getApiLabelV2 :: "float_text \<Rightarrow> bool \<Rightarrow> IrData \<Rightarrow> ApiData \<Rightarrow> string" where
  "getApiLabelV2 ft short d x = html_node short short d (api_details ft short d x)"

section \<open>The graph\<close>

datatype content = IR_DATA | API_DATA

text \<open>\<open>useV2\<close>, \<open>shortColumns\<close> and \<open>ignoreFetch\<close> of the code.\<close>

record dot_options =
  contentType :: content
  useV2 :: bool
  shortColumns :: bool
  ignoreFetch :: bool

datatype dot_stmt = DotNode nat string | DotEdge nat nat

definition dot_label :: "float_text \<Rightarrow> dot_options \<Rightarrow> astate \<Rightarrow> nat \<Rightarrow> string option" where
  "dot_label ft opt s a = (let d = data_at (aheap s) a in
     if useV2 opt then
       (case contentType opt of IR_DATA \<Rightarrow> getIrLabelV2 ft (shortColumns opt) d
        | API_DATA \<Rightarrow> Some (getApiLabelV2 ft (shortColumns opt) d (api s a)))
     else (case contentType opt of IR_DATA \<Rightarrow> getIrLabel ft d | API_DATA \<Rightarrow> Some (getApiLabel ft d (api s a))))"

definition shown :: "dot_options \<Rightarrow> heap \<Rightarrow> nat \<Rightarrow> bool" where
  "shown opt h b \<longleftrightarrow> \<not> (ignoreFetch opt \<and> contentType opt = IR_DATA \<and> is_fetch (data_at h b))"

text \<open>\<open>writePlanNodeDot\<close>. The pending calls of the recursion are a stack: a call for a node, or what is left
  of its loop over the children. A node that has been written is not written again, so that the recursion
  ends on a cyclic plan as well; a pointer to no cell has no value.\<close>

datatype task = Visit nat | Child nat nat

fun task_weight :: "task \<Rightarrow> nat" where
  "task_weight (Visit a) = 1"
| "task_weight (Child a b) = 2"

lemma fewer_left:
  fixes a n :: nat
  assumes "a < n" "a \<notin> V"
  shows "card ({..<n} - insert a V) < card ({..<n} - V)"
proof (rule psubset_card_mono)
  have "a \<in> {..<n} - V" "a \<notin> {..<n} - insert a V" using assms by simp_all
  moreover have "{..<n} - insert a V \<subseteq> {..<n} - V" by blast
  ultimately show "{..<n} - insert a V \<subset> {..<n} - V" by blast
qed simp

function writePlanNodeDot :: "float_text \<Rightarrow> dot_options \<Rightarrow> astate \<Rightarrow> task list \<Rightarrow> nat set \<Rightarrow> dot_stmt list option" where
  "writePlanNodeDot ft opt s [] visited = Some []"
| "writePlanNodeDot ft opt s (Visit a # ts) visited =
     (if length (aheap s) \<le> a then None
      else if a \<in> visited then writePlanNodeDot ft opt s ts visited
      else case dot_label ft opt s a of
        None \<Rightarrow> None
      | Some l \<Rightarrow> map_option (Cons (DotNode a l))
          (writePlanNodeDot ft opt s (map (Child a) (children_at (aheap s) a) @ ts) (insert a visited)))"
| "writePlanNodeDot ft opt s (Child a b # ts) visited =
     (if length (aheap s) \<le> b then None
      else if shown opt (aheap s) b
      then map_option (Cons (DotEdge a b)) (writePlanNodeDot ft opt s (Visit b # ts) visited)
      else writePlanNodeDot ft opt s ts visited)"
  by pat_completeness auto
termination
proof (relation "measures [\<lambda>(_, _, s, _, vis). card ({..<length (aheap s)} - vis), \<lambda>(_, _, _, ts, _). sum_list (map task_weight ts)]")
  fix ft :: float_text and opt :: dot_options and s :: astate and a ts vis l
  assume "\<not> length (aheap s) \<le> a" "a \<notin> vis"
  from fewer_left [of a "length (aheap s)" vis] this
  show "((ft, opt, s, map (Child a) (children_at (aheap s) a) @ ts, insert a vis), ft, opt, s, Visit a # ts, vis)
      \<in> measures [\<lambda>(_, _, s, _, vis). card ({..<length (aheap s)} - vis), \<lambda>(_, _, _, ts, _). sum_list (map task_weight ts)]"
    by simp
qed simp_all

definition stmt_text :: "bool \<Rightarrow> dot_stmt \<Rightarrow> string" where
  \<open>stmt_text v2 st = (case st of
     DotNode a l \<Rightarrow> ''    '' @ to_string a @ (if v2 then '' [label='' @ l @ ''];\<newline>'' else '' [label="'' @ l @ ''"];\<newline>'')
   | DotEdge a b \<Rightarrow> ''    '' @ to_string a @ '' -> '' @ to_string b @ '' [dir=back];\<newline>'')\<close>

definition dot_preamble :: "bool \<Rightarrow> string" where
  \<open>dot_preamble v2 = ''digraph PlanNode {\<newline>'' @
     (if v2 then ''    node [shape=none, fontname="Helvetica", margin=0];\<newline>'' else ''    node [shape=box, fontname="Helvetica"];\<newline>'')\<close>

definition dot_file :: "bool \<Rightarrow> dot_stmt list \<Rightarrow> string" where
  "dot_file v2 sts = dot_preamble v2 @ concat (map (stmt_text v2) sts) @ ''}\<newline>''"

definition generatePlanDotFile :: "float_text \<Rightarrow> content \<Rightarrow> astate \<Rightarrow> nat \<Rightarrow> string option" where
  "generatePlanDotFile ft c s root =
     map_option (dot_file False)
       (writePlanNodeDot ft \<lparr>contentType = c, useV2 = False, shortColumns = False, ignoreFetch = False\<rparr> s [Visit root] {})"

definition generatePlanDotFileV2 :: "float_text \<Rightarrow> content \<Rightarrow> bool \<Rightarrow> bool \<Rightarrow> astate \<Rightarrow> nat \<Rightarrow> string option" where
  "generatePlanDotFileV2 ft c short ignore s root =
     map_option (dot_file True)
       (writePlanNodeDot ft \<lparr>contentType = c, useV2 = True, shortColumns = short, ignoreFetch = ignore\<rparr> s [Visit root] {})"

end
