(* ===== verification/Plan_Print.thy ===== *)
theory Plan_Print
  imports Plan_Dot Json_Plan
begin

text \<open>
  \<open>src/ir/plan_node_printing.cpp\<close>: a plan as text on the terminal. A node is printed in one of its four
  stages (JSON, abstract, IR, operator description); a plan is printed as a tree whose branches are drawn
  in front of the lines, as a sequence, or with its raw data. What is printed is the value of a function;
  it is \<open>None\<close> when the code reads a column, an order or a child that does not exist. The address of a
  node is its number, how a stream writes an address or a \<open>float\<close> is a parameter.
\<close>

section \<open>Nodes in all their stages\<close>

record stage_node =
  sn_raw :: "JsonRawData option"
  sn_abstract :: AbstractData
  sn_ir :: IrData
  sn_api :: ApiData
  sn_children :: "nat option list"

type_synonym address_text = "nat \<Rightarrow> string"

text \<open>The names of the enumerators, which the protocol compiler makes available.\<close>

definition CompType_Name :: "CompType \<Rightarrow> string" where
  "CompType_Name t = (case t of COMP_LT \<Rightarrow> ''COMP_LT'' | COMP_LE \<Rightarrow> ''COMP_LE'' | COMP_EQ \<Rightarrow> ''COMP_EQ'' | COMP_GE \<Rightarrow> ''COMP_GE''
     | COMP_GT \<Rightarrow> ''COMP_GT'' | COMP_NE \<Rightarrow> ''COMP_NE'' | COMP_BETWEEN \<Rightarrow> ''COMP_BETWEEN'' | COMP_IN \<Rightarrow> ''COMP_IN'')"

definition ArithOp_Name :: "ArithOp \<Rightarrow> string" where
  "ArithOp_Name t = (case t of ARITH_ADD \<Rightarrow> ''ARITH_ADD'' | ARITH_SUB \<Rightarrow> ''ARITH_SUB'' | ARITH_MUL \<Rightarrow> ''ARITH_MUL''
     | ARITH_DIV \<Rightarrow> ''ARITH_DIV'' | ARITH_MOD \<Rightarrow> ''ARITH_MOD'')"

section \<open>One node\<close>

definition printNodeJson :: "stage_node \<Rightarrow> string option" where
  "printNodeJson nd = map_option nodeType (sn_raw nd)"

text \<open>A list in which every element but the first is preceded by a comma.\<close>

definition bracketed :: "string list \<Rightarrow> string" where
  "bracketed xs = ''['' @ join_text '', '' xs @ '']''"

text \<open>The \<open>i\<close>-th key of a sort. The vector of the orders is read without a check.\<close>

definition sort_key_text :: "AbstractSort \<Rightarrow> nat \<Rightarrow> string option" where
  "sort_key_text s i =
     do { c \<leftarrow> at (column_names s) i;
          up \<leftarrow> at (asc s) i;
          Some (c @ (case at (aliases s) i of Some a \<Rightarrow> if a = [] then [] else '' AS '' @ a | None \<Rightarrow> []) @
            (if up then '' ASC'' else '' DESC'')) }"

definition printNodeAbstract :: "stage_node \<Rightarrow> string option" where
  "printNodeAbstract nd = (case sn_abstract nd of
     NoAbstract \<Rightarrow> Some ''Empty''
   | AbsSource s \<Rightarrow> Some (''AbstractSource '' @ basetable s @ (if filters s = [] then [] else '' '' @ bracketed (filters s)))
   | AbsJoin j \<Rightarrow> Some (''AbstractJoin '' @ condition j @ '' ['' @ left_table j @ '', '' @ right_table j @ '']'')
   | AbsAgg g \<Rightarrow> Some (''AbstractAgg '' @ agg_type g @ ''('' @ agg_mapping g @ '') AS '' @ agg_alias g)
   | AbsSort s \<Rightarrow> map_option (\<lambda>ks. ''AbstractSort '' @ bracketed ks)
       (those (map (sort_key_text s) [0..<length (column_names s)]))
   | AbsResult r \<Rightarrow> Some (''AbstractResult '' @ bracketed (output_cols r)))"

definition select_item_text :: "IrData \<Rightarrow> SelectOp \<Rightarrow> nat \<Rightarrow> string" where
  "select_item_text d s i = col_text (inputColumns d ! i) @
     (if i < length (resultHeaders s) then '' AS '' @ resultHeaders s ! i else [])"

definition join_line :: "string \<Rightarrow> Join \<Rightarrow> CompType \<Rightarrow> IrData \<Rightarrow> string option" where
  "join_line kind j p d =
     do { i \<leftarrow> at (inputColumns d) 0; u \<leftarrow> at (inputColumns d) 1;
          Some (kind @ joinTypeToString j @ '' ON '' @ col_text i @ '' '' @ CompType_Name p @ '' '' @ col_text u) }"

definition printNodeIr :: "float_text \<Rightarrow> stage_node \<Rightarrow> string option" where
  "printNodeIr ft nd = (let d = sn_ir nd in case opInfo d of
     OpFetch f \<Rightarrow> do { i \<leftarrow> at (inputColumns d) 0; Some (''Fetch: '' @ col_text i @ (if wasTableBaseNode f then '' [TBN]'' else [])) }
   | OpSelect s \<Rightarrow> Some (''Select'' @ (case resultIdx s of Some c \<Rightarrow> '' [Idx: '' @ col_text c @ '']'' | None \<Rightarrow> []) @ '' '' @
       join_text '', '' (map (select_item_text d s) [0..<length (inputColumns d)]))
   | OpAgg g \<Rightarrow> do { i \<leftarrow> at (inputColumns d) 0; Some (''Agg '' @ AggFunc_Name (aggFunc g) @ ''('' @ col_text i @ '')'') }
   | OpJoin j \<Rightarrow> join_line ''Join '' (joinType j) (joinPredicate j) d
   | OpSemiJoin j \<Rightarrow> join_line ''SemiJoin '' (semiJoinType j) (semiJoinPredicate j) d
   | OpFilter f \<Rightarrow> do { i \<leftarrow> at (inputColumns d) 0;
       Some (''Filter '' @ col_text i @ '' '' @ CompType_Name (filterType f) @ '' '' @
         (case filter_col2 d of Some c \<Rightarrow> col_text c | None \<Rightarrow> args_text ft (filterType f) (filterArgs f))) }
   | OpGroup g \<Rightarrow> Some (''GroupBy ('' @ columns_text False '' '' (inputColumns d) @ '')'' @
       (case group_aggCol d of Some c \<Rightarrow> '' Agg: '' @ col_text c | None \<Rightarrow> []))
   | OpSort s \<Rightarrow> Some (''Sort ('' @ columns_text False '' '' (map column (columnList s)) @ '')'')
   | OpMap m \<Rightarrow> do { i \<leftarrow> at (inputColumns d) 0;
       Some (''Map '' @ col_text i @ '' '' @ ArithOp_Name (operatorType m) @ '' '' @ partner_text ft (partnerVal m)) }
   | OpSet s \<Rightarrow> Some (''SetOp '' @ relop_text (operation s))
   | OpMat _ \<Rightarrow> do { i \<leftarrow> at (inputColumns d) 0; f \<leftarrow> at (inputColumns d) 1;
       Some (''Mat Idx: '' @ col_text i @ '' Filter: '' @ col_text f) }
   | NoOp \<Rightarrow> Some ''[Empty/Unknown IR]'')"

text \<open>Descriptions point to columns of their node; none of these pointers is null.\<close>

definition printCol :: "TableColumn \<Rightarrow> string" where
  "printCol c = (if columnName c = [] then ''UDEFCOL!'' else columnName c)"

definition join_api_line :: "string \<Rightarrow> JoinNode \<Rightarrow> string" where
  "join_api_line kind n = kind @ '': Inner='' @ printCol (jnInner n) @ '' Outer='' @ printCol (jnOuter n) @
     '' iOut='' @ printCol (jnInnerOut n) @ '' oOut='' @ printCol (jnOuterOut n)"

definition printNodeApi :: "float_text \<Rightarrow> stage_node \<Rightarrow> string" where
  "printNodeApi ft nd = (case sn_api nd of
     NoApi \<Rightarrow> ''[Empty API]''
   | ApiFetch n \<Rightarrow> ''API Fetch '' @ printCol (fetchColumn n) @ (if printToFile n then ''[f]'' else [])
   | ApiFilter n \<Rightarrow> ''API Filter '' @ printCol (fnInput n) @ '' -> '' @ printCol (fnOutput n) @ '' ['' @ CompType_Name (fnType n) @
       ''] ('' @ join_text '', '' (map (scalar_text ft) (fnArgs n)) @ '')''
   | ApiJoin n \<Rightarrow> join_api_line ''API Join'' n
   | ApiSemiJoin n \<Rightarrow> join_api_line ''API SemiJoin'' n
   | ApiMap n \<Rightarrow> ''API Map: '' @ printCol (mnInput n) @ '' -> '' @ printCol (mnOutput n)
   | ApiMaterialize n \<Rightarrow> ''API Mat Idx: '' @ printCol (matIdx n) @ '' Filter: '' @ printCol (matFilter n)
   | ApiGroup n \<Rightarrow> ''API MultiGroup ('' @ join_text '', '' (map printCol (gnColumns n)) @ '') Agg='' @ printCol (gnAggColumn n) @
       '' SrtIdx='' @ printCol (gnOutputSortIndex n)
   | ApiSet n \<Rightarrow> ''API SetOp ['' @ relop_text (onOperation n) @ '']''
   | ApiSort n \<Rightarrow> ''API Sort ('' @ join_text '', '' (map printCol (snInputs n)) @ '')''
   | ApiAgg n \<Rightarrow> ''API Agg '' @ AggFunc_Name (anFunc n) @ '' ('' @ join_text '', '' (anGroupColumns n) @ '')''
   | ApiResult n \<Rightarrow> ''API Result -> '' @ rnFilename n)"

text \<open>An unknown mode prints nothing.\<close>

definition printNode :: "float_text \<Rightarrow> stage_node \<Rightarrow> nat \<Rightarrow> string option" where
  "printNode ft nd mode =
     (if mode = 0 then printNodeJson nd
      else if mode = 1 then printNodeAbstract nd
      else if mode = 2 then printNodeIr ft nd
      else if mode = 3 then Some (printNodeApi ft nd)
      else Some [])"

section \<open>A plan as a sequence\<close>

definition printSequencedPlan :: "float_text \<Rightarrow> stage_node list \<Rightarrow> nat list \<Rightarrow> nat \<Rightarrow> string option" where
  "printSequencedPlan ft h seq mode =
     map_option (\<lambda>ls. concat (map (\<lambda>l. '' -- '' @ l @ ''\<newline>'') ls) @ ''\<newline>'')
       (those (map (\<lambda>a. Option.bind (at h a) (\<lambda>nd. printNode ft nd mode)) seq))"

section \<open>A plan as a tree\<close>

text \<open>The characters of the drawing, in their UTF-8 encoding.\<close>

definition marker :: "bool \<Rightarrow> string" where
  "marker isLast = (if isLast then [CHR 0xE2, CHR 0x94, CHR 0x94] else [CHR 0xE2, CHR 0x94, CHR 0x9C]) @
     [CHR 0xE2, CHR 0x94, CHR 0x80, CHR 0xE2, CHR 0x94, CHR 0x80, CHR '' '']"

definition indentation :: "bool \<Rightarrow> string" where
  "indentation isLast = (if isLast then ''    '' else [CHR 0xE2, CHR 0x94, CHR 0x82] @ ''   '')"

text \<open>The calls for the children of a node: the last one is marked.\<close>

fun child_calls :: "string \<Rightarrow> nat list \<Rightarrow> (nat \<times> string \<times> bool) list" where
  "child_calls p [] = []"
| "child_calls p (c # cs) = (c, p, cs = []) # child_calls p cs"

text \<open>\<open>printPlanTreeSub\<close>: the pending calls of the recursion are a stack. A node that has been printed is
  only mentioned again, so the recursion ends on every plan.\<close>

function printPlanTreeSub :: "float_text \<Rightarrow> address_text \<Rightarrow> stage_node list \<Rightarrow> nat \<Rightarrow> (nat \<times> string \<times> bool) list \<Rightarrow> nat set \<Rightarrow>
    string option" where
  "printPlanTreeSub ft adr h mode [] visited = Some []"
| "printPlanTreeSub ft adr h mode ((a, pre, isLast) # calls) visited =
     (if length h \<le> a then None
      else if a \<in> visited then
        map_option (append (pre @ marker isLast @ ''[Visited/Shared] '' @ adr a @ ''\<newline>'')) (printPlanTreeSub ft adr h mode calls visited)
      else case printNode ft (h ! a) mode of
        None \<Rightarrow> None
      | Some t \<Rightarrow> (case those (sn_children (h ! a)) of
          None \<Rightarrow> None
        | Some cs \<Rightarrow> map_option (append (pre @ marker isLast @ t @ ''\<newline>''))
            (printPlanTreeSub ft adr h mode (child_calls (pre @ indentation isLast) cs @ calls) (insert a visited))))"
  by pat_completeness auto
termination
proof (relation "List.measures [\<lambda>(_, _, h, _, _, vis). card ({..<length h} - vis), \<lambda>(_, _, _, _, calls, _). length calls]")
  fix ft :: float_text and adr :: address_text and h :: "stage_node list" and mode a vis and pre :: string and isLast calls t cs
  assume "\<not> length h \<le> a" "a \<notin> vis"
  from fewer_left [of a "length h" vis] this
  show "((ft, adr, h, mode, child_calls (pre @ indentation isLast) cs @ calls, insert a vis), ft, adr, h, mode, (a, pre, isLast) # calls, vis)
      \<in> List.measures [\<lambda>(_, _, h, _, _, vis). card ({..<length h} - vis), \<lambda>(_, _, _, _, calls, _). length calls]"
    by simp
qed simp_all

definition tree_heading :: "nat \<Rightarrow> string" where
  "tree_heading mode =
     (if mode = 0 then ''############ Printing Json Data ############''
      else if mode = 1 then ''############ Printing Abstract Data ############''
      else if mode = 2 then ''############ Printing IR Data ############''
      else if mode = 3 then ''############ Printing API Data ############''
      else []) @ ''\<newline>''"

definition printPlanTree :: "float_text \<Rightarrow> address_text \<Rightarrow> stage_node list \<Rightarrow> nat \<Rightarrow> nat \<Rightarrow> string option" where
  "printPlanTree ft adr h root mode = map_option (append (tree_heading mode)) (printPlanTreeSub ft adr h mode [(root, [], True)] {})"

section \<open>The raw data of a plan\<close>

definition int_text :: "int \<Rightarrow> string" where
  "int_text i = (if i < 0 then ''-'' @ to_string (nat (- i)) else to_string (nat i))"

definition params_text :: "PlanParams \<Rightarrow> string" where
  "params_text p = ''  Params: '' @
     (case baseTable p of Some t \<Rightarrow> ''[Table: '' @ tname t @ '' ('' @ (case talias t of Some a \<Rightarrow> a | None \<Rightarrow> []) @ '')] '' | None \<Rightarrow> []) @
     (case filterPredicate p of Some f \<Rightarrow> ''[Filter: '' @ f @ ''] '' | None \<Rightarrow> []) @
     (if sortKeys p = [] then [] else ''[Sort: '' @ concat (map (\<lambda>k. k @ '' '') (sortKeys p)) @ ''] '') @
     ''Workers: '' @ int_text (parallelWorkers p) @ (if pp_index p = [] then [] else '' Index: '' @ pp_index p) @ ''\<newline>''"

definition stats_text :: "float_text \<Rightarrow> JsonRawData \<Rightarrow> string" where
  "stats_text ft r =
     ''  Est: Card='' @ ft (e_cardinality (estimates r)) @ '' Cost='' @ ft (e_cost (estimates r)) @ ''\<newline>'' @
     ''  Mes: Card='' @ ft (m_cardinality (measures r)) @ '' Time='' @ ft (executionTime (measures r)) @
     (case cacheHits (measures r) of Some n \<Rightarrow> '' Hits='' @ int_text n | None \<Rightarrow> []) @ ''\<newline>''"

definition raw_text :: "float_text \<Rightarrow> JsonRawData option \<Rightarrow> string" where
  "raw_text ft r = (case r of
     None \<Rightarrow> ''Node: [Synthetic/Abstract Node]\<newline>''
   | Some x \<Rightarrow> ''Node: '' @ nodeType x @ (case nodeOperator x of Some p \<Rightarrow> '' | Op: '' @ p | None \<Rightarrow> []) @ ''\<newline>'' @
       params_text (planParams x) @ stats_text ft x)"

definition debug_rule :: string where
  "debug_rule = ''--------------------------------------\<newline>''"

text \<open>\<open>printDebugSub\<close>: here a null child is passed over.\<close>

function printDebugSub :: "float_text \<Rightarrow> address_text \<Rightarrow> stage_node list \<Rightarrow> nat list \<Rightarrow> nat set \<Rightarrow> string option" where
  "printDebugSub ft adr h [] visited = Some []"
| "printDebugSub ft adr h (a # calls) visited =
     (if length h \<le> a then None
      else if a \<in> visited then
        map_option (append (''Node: [Visited/Shared] '' @ adr a @ ''\<newline>'' @ debug_rule)) (printDebugSub ft adr h calls visited)
      else map_option (append (raw_text ft (sn_raw (h ! a)) @ debug_rule))
        (printDebugSub ft adr h (List.map_filter id (sn_children (h ! a)) @ calls) (insert a visited)))"
  by pat_completeness auto
termination
proof (relation "List.measures [\<lambda>(_, _, h, _, vis). card ({..<length h} - vis), \<lambda>(_, _, _, calls, _). length calls]")
  fix ft :: float_text and adr :: address_text and h :: "stage_node list" and a vis calls
  assume "\<not> length h \<le> a" "a \<notin> vis"
  from fewer_left [of a "length h" vis] this
  show "((ft, adr, h, List.map_filter id (sn_children (h ! a)) @ calls, insert a vis), ft, adr, h, a # calls, vis)
      \<in> List.measures [\<lambda>(_, _, h, _, vis). card ({..<length h} - vis), \<lambda>(_, _, _, calls, _). length calls]"
    by simp
qed simp_all

definition printDebug :: "float_text \<Rightarrow> address_text \<Rightarrow> stage_node list \<Rightarrow> nat \<Rightarrow> string option" where
  "printDebug ft adr h root = printDebugSub ft adr h [root] {}"

end
