(* ===== verification/Dot_Reader.thy ===== *)
theory Dot_Reader
  imports Plan_Dot
begin

text \<open>
  What Graphviz reads in a file of \<open>Plan_Dot\<close>: a reader for the statements the writer uses, with the
  rules of the language for quoted labels and for labels between balanced angle brackets. Every file
  that is written is read back as the graph of the plan, whatever the names in it contain.
\<close>

section \<open>The reader\<close>

fun read_quoted :: "string \<Rightarrow> (string \<times> string) option" where
  "read_quoted [] = None"
| "read_quoted (c # cs) =
     (if c = CHR 0x22 then Some ([], cs)
      else if c = CHR 0x5C then (case cs of
        [] \<Rightarrow> None
      | e # cs' \<Rightarrow> map_option (\<lambda>(s, r). ((if e = CHR ''n'' then CHR 0x0A else e) # s, r)) (read_quoted cs'))
      else map_option (\<lambda>(s, r). (c # s, r)) (read_quoted cs))"

fun read_angle :: "nat \<Rightarrow> string \<Rightarrow> (string \<times> string) option" where
  "read_angle d [] = None"
| "read_angle d (c # cs) =
     (if c = CHR ''>'' \<and> d \<le> 1 then Some ([c], cs)
      else map_option (\<lambda>(s, r). (c # s, r))
        (read_angle (if c = CHR ''<'' then Suc d else if c = CHR ''>'' then d - 1 else d) cs))"

definition strip :: "string \<Rightarrow> string \<Rightarrow> string option" where
  "strip p s = (if take (length p) s = p then Some (drop (length p) s) else None)"

definition read_number :: "string \<Rightarrow> (nat \<times> string) option" where
  "read_number s = (let ds = takeWhile is_digit s in if ds = [] then None else Some (digits_val 0 ds, dropWhile is_digit s))"

definition read_label :: "string \<Rightarrow> (string \<times> string) option" where
  "read_label s = (case s of
     [] \<Rightarrow> None
   | c # cs \<Rightarrow> if c = CHR 0x22 then read_quoted cs else if c = CHR ''<'' then read_angle 0 s else None)"

definition read_stmt :: "string \<Rightarrow> (dot_stmt \<times> string) option" where
  "read_stmt s =
     do { s1 \<leftarrow> strip ''    '' s;
          (a, s2) \<leftarrow> read_number s1;
          (case strip '' [label='' s2 of
             Some s3 \<Rightarrow> do { (l, s4) \<leftarrow> read_label s3; s5 \<leftarrow> strip ''];\<newline>'' s4; Some (DotNode a l, s5) }
           | None \<Rightarrow> do { s3 \<leftarrow> strip '' -> '' s2; (b, s4) \<leftarrow> read_number s3; s5 \<leftarrow> strip '' [dir=back];\<newline>'' s4;
               Some (DotEdge a b, s5) }) }"

fun read_stmts :: "nat \<Rightarrow> string \<Rightarrow> dot_stmt list option" where
  "read_stmts 0 s = None"
| "read_stmts (Suc n) s =
     (if s = ''}\<newline>'' then Some []
      else do { (st, r) \<leftarrow> read_stmt s; map_option (Cons st) (read_stmts n r) })"

text \<open>One more than the length of the text is fuel enough: every statement has a character.\<close>

definition read_dot :: "bool \<Rightarrow> string \<Rightarrow> dot_stmt list option" where
  "read_dot v2 s = (case strip (dot_preamble v2) s of None \<Rightarrow> None | Some r \<Rightarrow> read_stmts (Suc (length s)) r)"

section \<open>Labels\<close>

lemma quoted_escape: "read_quoted (escapeLabel s @ CHR 0x22 # rest) = Some (s, rest)"
  by (induction s) (simp_all add: escapeLabel_def escape_char_def)

lemma strip_prefix [simp]: "strip p (p @ s) = Some s"
  by (simp add: strip_def)

text \<open>A text whose angle brackets are balanced is passed over by the scan.\<close>

definition balanced :: "string \<Rightarrow> bool" where
  "balanced s \<longleftrightarrow> (\<forall>d rest. read_angle (Suc d) (s @ rest) = map_option (\<lambda>(x, r). (s @ x, r)) (read_angle (Suc d) rest))"

lemma balanced_append: "balanced s \<Longrightarrow> balanced t \<Longrightarrow> balanced (s @ t)"
  by (simp add: balanced_def option.map_comp comp_def split_def)

lemma balanced_Nil: "balanced []"
  by (simp add: balanced_def option.map_id)

lemma balanced_concat: "list_all balanced xs \<Longrightarrow> balanced (concat xs)"
  by (induction xs) (simp_all add: balanced_Nil balanced_append)

lemma balanced_plain: "CHR ''<'' \<notin> set s \<Longrightarrow> CHR ''>'' \<notin> set s \<Longrightarrow> balanced s"
proof (induction s)
  case (Cons c s)
  then have "balanced s" "c \<noteq> CHR ''<''" "c \<noteq> CHR ''>''" by auto
  then show ?case by (simp add: balanced_def option.map_comp comp_def split_def)
qed (rule balanced_Nil)

lemma escapeHtml_plain: "CHR ''<'' \<notin> set (escapeHtml s)" "CHR ''>'' \<notin> set (escapeHtml s)"
  by (auto simp: escapeHtml_def html_char_def)

lemma balanced_escape: "balanced (escapeHtml s)"
  by (rule balanced_plain) (rule escapeHtml_plain)+

lemma balanced_flags: "list_all balanced (flag_details d)"
  by (simp add: flag_details_def balanced_def option.map_comp comp_def split_def)

lemma balanced_around: "balanced p \<Longrightarrow> balanced q \<Longrightarrow> balanced t \<Longrightarrow> balanced (p @ t @ q)"
  by (simp add: balanced_append)

lemmas balanced_literal = balanced_def option.map_comp comp_def split_def

lemma balanced_output: "balanced t \<Longrightarrow> balanced (html_output t)"
  unfolding html_output_def
  by (cases "t = []", simp add: balanced_Nil, simp only: if_False, rule balanced_around) (simp_all add: balanced_literal)

lemma balanced_input: "balanced t \<Longrightarrow> balanced (html_input t)"
  unfolding html_input_def
  by (cases "t = []", simp add: balanced_Nil, simp only: if_False, rule balanced_around) (simp_all add: balanced_literal)

lemma balanced_break: "balanced ''<BR/>''"
  by (simp add: balanced_literal)

lemma balanced_middle:
  assumes "balanced t" "list_all balanced ds"
  shows "balanced (html_middle t ds)"
proof -
  have "list_all balanced (map (\<lambda>d. ''<BR/>'' @ d) ds)"
    using assms(2) by (simp only: list_all_iff set_map ball_simps) (blast intro: balanced_append [OF balanced_break])
  then have c: "balanced (concat (map (\<lambda>d. ''<BR/>'' @ d) ds))" by (rule balanced_concat)
  then show ?thesis
    unfolding html_middle_def
    by (intro balanced_append [OF _ balanced_append [OF assms(1) balanced_append [OF _ balanced_append [OF c]]]])
       (simp_all add: balanced_literal)
qed

lemma balanced_body:
  assumes "balanced (title b)" "list_all balanced (details b)" "balanced (inputStr b)" "balanced (outputStr b)"
  shows "balanced (html_body b)"
  unfolding html_body_def
  by (intro balanced_append [OF _ balanced_append [OF balanced_output [OF assms(4)]
        balanced_append [OF balanced_middle [OF assms(1,2)] balanced_append [OF balanced_input [OF assms(3)]]]]])
     (simp_all add: balanced_literal)

lemma angle_label: "balanced s \<Longrightarrow> read_angle 0 (CHR ''<'' # s @ CHR ''>'' # rest) = Some (CHR ''<'' # s @ ''>'', rest)"
  by (simp add: balanced_def)

section \<open>Files\<close>

lemma read_number_text: "s \<noteq> [] \<Longrightarrow> \<not> is_digit (hd s) \<Longrightarrow> read_number (to_string n @ s) = Some (n, s)"
proof -
  assume s: "s \<noteq> []" "\<not> is_digit (hd s)"
  have d: "\<forall>c \<in> set (to_string n). is_digit c" using to_string_digits [of n] by (simp add: list_all_iff)
  have "to_string n \<noteq> []" by (subst to_string.simps) simp
  moreover have "takeWhile is_digit s = []" "dropWhile is_digit s = s" using s by (cases s; simp)+
  ultimately show ?thesis
    using d by (simp add: read_number_def takeWhile_append2 dropWhile_append2 digits_val_to_string Let_def)
qed

text \<open>What the reader makes of a statement.\<close>

definition reads_as :: "bool \<Rightarrow> dot_stmt \<Rightarrow> dot_stmt \<Rightarrow> bool" where
  "reads_as v2 st st' \<longleftrightarrow> (case st of
     DotNode a l \<Rightarrow> \<exists>x. st' = DotNode a x \<and> (\<forall>rest. read_label ((if v2 then l else CHR 0x22 # l @ [CHR 0x22]) @ rest) = Some (x, rest))
   | DotEdge a b \<Rightarrow> st' = st)"

lemma read_one: "reads_as v2 st st' \<Longrightarrow> read_stmt (stmt_text v2 st @ rest) = Some (st', rest)"
proof (cases st)
  case (DotEdge a b)
  assume "reads_as v2 st st'"
  with DotEdge have "st' = DotEdge a b" by (simp add: reads_as_def)
  moreover have "read_number (to_string a @ '' -> '' @ s) = Some (a, '' -> '' @ s)" for s
    by (rule read_number_text) (simp_all add: is_digit_def)
  moreover have "read_number (to_string b @ '' [dir=back];\<newline>'' @ rest) = Some (b, '' [dir=back];\<newline>'' @ rest)"
    by (rule read_number_text) (simp_all add: is_digit_def)
  ultimately show ?thesis using DotEdge by (simp add: stmt_text_def read_stmt_def strip_def)
next
  case (DotNode a l)
  assume "reads_as v2 st st'"
  with DotNode obtain x where x: "st' = DotNode a x"
    "\<And>rest. read_label ((if v2 then l else CHR 0x22 # l @ [CHR 0x22]) @ rest) = Some (x, rest)"
    by (auto simp: reads_as_def)
  have "read_number (to_string a @ '' [label='' @ s) = Some (a, '' [label='' @ s)" for s
    by (rule read_number_text) (simp_all add: is_digit_def)
  with x show ?thesis using DotNode by (cases v2) (simp_all add: stmt_text_def read_stmt_def strip_def)
qed

lemma stmt_text_start: "\<exists>r. stmt_text v2 st @ s = CHR '' '' # r"
  by (cases st) (simp_all add: stmt_text_def)

lemma read_all:
  assumes "list_all2 (reads_as v2) sts sts'" "length sts < n"
  shows "read_stmts n (concat (map (stmt_text v2) sts) @ ''}\<newline>'') = Some sts'"
  using assms
proof (induction sts arbitrary: sts' n)
  case Nil
  then show ?case by (cases n) simp_all
next
  case (Cons st sts)
  then obtain st' ss' k where c: "sts' = st' # ss'" "reads_as v2 st st'" "list_all2 (reads_as v2) sts ss'" "n = Suc k"
    by (cases n) (auto simp: list_all2_Cons1)
  obtain r where "stmt_text v2 st @ concat (map (stmt_text v2) sts) @ ''}\<newline>'' = CHR '' '' # r"
    using stmt_text_start by blast
  then have "stmt_text v2 st @ concat (map (stmt_text v2) sts) @ ''}\<newline>'' \<noteq> ''}\<newline>''" by simp
  moreover have "read_stmts k (concat (map (stmt_text v2) sts) @ ''}\<newline>'') = Some ss'"
    using Cons.IH [OF c(3)] Cons.prems(2) c(4) by simp
  ultimately show ?case using read_one [OF c(2)] c(1,4) by simp
qed

lemma text_long: "length sts \<le> length (concat (map (stmt_text v2) sts))"
proof (induction sts)
  case (Cons st sts)
  from stmt_text_start [of v2 st "[]"] have "1 \<le> length (stmt_text v2 st)" by fastforce
  with Cons show ?case by simp
qed simp

lemma read_file: "list_all2 (reads_as v2) sts sts' \<Longrightarrow> read_dot v2 (dot_file v2 sts) = Some sts'"
  unfolding read_dot_def dot_file_def strip_prefix option.case
  by (rule read_all) (use text_long [of sts v2] in simp_all)

section \<open>The graph that is written\<close>

definition dot_nodes :: "dot_stmt list \<Rightarrow> nat list" where
  "dot_nodes sts = concat (map (\<lambda>st. case st of DotNode a l \<Rightarrow> [a] | DotEdge a b \<Rightarrow> []) sts)"

text \<open>The targets of the edges from a node, in the order of the file.\<close>

definition dot_targets :: "nat \<Rightarrow> dot_stmt list \<Rightarrow> nat list" where
  "dot_targets a sts = concat (map (\<lambda>st. case st of DotNode x l \<Rightarrow> [] | DotEdge x b \<Rightarrow> if x = a then [b] else []) sts)"

definition shown_children :: "dot_options \<Rightarrow> heap \<Rightarrow> nat \<Rightarrow> nat list" where
  "shown_children opt h a = filter (shown opt h) (children_at h a)"

definition shown_heap :: "dot_options \<Rightarrow> heap \<Rightarrow> heap" where
  "shown_heap opt h = map (\<lambda>c. c\<lparr>cchildren := filter (shown opt h) (cchildren c)\<rparr>) h"

lemma shown_heap_children: "a < length h \<Longrightarrow> children_at (shown_heap opt h) a = shown_children opt h a"
  by (simp add: shown_heap_def shown_children_def children_at_def)

fun target :: "task \<Rightarrow> nat" where
  "target (Visit a) = a"
| "target (Child a b) = b"

fun active :: "dot_options \<Rightarrow> heap \<Rightarrow> task \<Rightarrow> bool" where
  "active opt h (Visit a) = True"
| "active opt h (Child a b) = shown opt h b"

text \<open>The edges from a node that its pending loop will still write.\<close>

definition pending_targets :: "dot_options \<Rightarrow> heap \<Rightarrow> nat \<Rightarrow> task list \<Rightarrow> nat list" where
  "pending_targets opt h a ts =
     concat (map (\<lambda>t. case t of Visit x \<Rightarrow> [] | Child x b \<Rightarrow> if x = a \<and> shown opt h b then [b] else []) ts)"

definition dot_heap_ok :: "float_text \<Rightarrow> dot_options \<Rightarrow> astate \<Rightarrow> bool" where
  "dot_heap_ok ft opt s \<longleftrightarrow>
     (\<forall>a < length (aheap s). set (children_at (aheap s) a) \<subseteq> {..<length (aheap s)} \<and> dot_label ft opt s a \<noteq> None)"

definition written :: "float_text \<Rightarrow> dot_options \<Rightarrow> astate \<Rightarrow> task list \<Rightarrow> nat set \<Rightarrow> dot_stmt list \<Rightarrow> bool" where
  "written ft opt s ts V sts \<longleftrightarrow>
     distinct (dot_nodes sts) \<and> set (dot_nodes sts) \<inter> V = {} \<and> set (dot_nodes sts) \<subseteq> {..<length (aheap s)} \<and>
     (\<forall>t \<in> set ts. active opt (aheap s) t \<longrightarrow> target t \<in> V \<union> set (dot_nodes sts)) \<and>
     (\<forall>n \<in> set (dot_nodes sts). set (shown_children opt (aheap s) n) \<subseteq> V \<union> set (dot_nodes sts)) \<and>
     (\<forall>n \<in> set (dot_nodes sts). \<exists>t \<in> set ts. active opt (aheap s) t \<and> reach (shown_heap opt (aheap s)) (target t) n) \<and>
     (\<forall>a. dot_targets a sts = (if a \<in> set (dot_nodes sts) then shown_children opt (aheap s) a else pending_targets opt (aheap s) a ts)) \<and>
     (\<forall>a l. DotNode a l \<in> set sts \<longrightarrow> dot_label ft opt s a = Some l)"

lemma dot_simps [simp]:
  "dot_nodes [] = []" "dot_nodes (DotNode a l # sts) = a # dot_nodes sts" "dot_nodes (DotEdge a b # sts) = dot_nodes sts"
  "dot_targets x [] = []" "dot_targets x (DotNode a l # sts) = dot_targets x sts"
  "dot_targets x (DotEdge a b # sts) = (if a = x then b # dot_targets x sts else dot_targets x sts)"
  "pending_targets opt h x [] = []" "pending_targets opt h x (Visit a # ts) = pending_targets opt h x ts"
  "pending_targets opt h x (Child a b # ts) =
    (if a = x \<and> shown opt h b then b # pending_targets opt h x ts else pending_targets opt h x ts)"
  "pending_targets opt h x (ts @ us) = pending_targets opt h x ts @ pending_targets opt h x us"
  by (simp_all add: dot_nodes_def dot_targets_def pending_targets_def)

lemma pending_loop: "pending_targets opt h x (map (Child a) bs) = (if x = a then filter (shown opt h) bs else [])"
  by (induction bs) auto

lemma no_pending: "(\<And>b. Child a b \<notin> set ts) \<Longrightarrow> pending_targets opt h a ts = []"
proof (induction ts)
  case (Cons t ts)
  then show ?case by (cases t) fastforce+
qed simp

lemma writtenD:
  assumes "written ft opt s ts V sts"
  shows "distinct (dot_nodes sts)" "set (dot_nodes sts) \<inter> V = {}" "set (dot_nodes sts) \<subseteq> {..<length (aheap s)}"
    "t \<in> set ts \<Longrightarrow> active opt (aheap s) t \<Longrightarrow> target t \<in> V \<union> set (dot_nodes sts)"
    "n \<in> set (dot_nodes sts) \<Longrightarrow> set (shown_children opt (aheap s) n) \<subseteq> V \<union> set (dot_nodes sts)"
    "n \<in> set (dot_nodes sts) \<Longrightarrow> \<exists>t \<in> set ts. active opt (aheap s) t \<and> reach (shown_heap opt (aheap s)) (target t) n"
    "dot_targets a sts = (if a \<in> set (dot_nodes sts) then shown_children opt (aheap s) a else pending_targets opt (aheap s) a ts)"
    "DotNode a l \<in> set sts \<Longrightarrow> dot_label ft opt s a = Some l"
  using assms unfolding written_def by blast+

lemma write_graph:
  "dot_heap_ok ft opt s \<Longrightarrow> \<forall>t \<in> set ts. target t < length (aheap s) \<Longrightarrow> \<forall>a b. Child a b \<in> set ts \<longrightarrow> a \<in> V \<Longrightarrow>
    \<exists>sts. writePlanNodeDot ft opt s ts V = Some sts \<and> written ft opt s ts V sts"
proof (induction ft opt s ts V rule: writePlanNodeDot.induct)
  case (1 ft opt s V)
  then show ?case by (simp add: written_def)
next
  case (2 ft opt s a ts V)
  let ?h = "aheap s"
  have a: "\<not> length ?h \<le> a" "a < length ?h" using "2.prems"(2) by auto
  show ?case
  proof (cases "a \<in> V")
    case True
    with "2.IH"(1) [OF a(1) True "2.prems"(1)] "2.prems"(2,3) obtain sts where
      "writePlanNodeDot ft opt s ts V = Some sts" "written ft opt s ts V sts" by auto
    then show ?thesis using True a by (auto simp: written_def)
  next
    case False
    from "2.prems"(1) a(2) obtain l where l: "dot_label ft opt s a = Some l" by (auto simp: dot_heap_ok_def)
    let ?ts = "map (Child a) (children_at ?h a) @ ts"
    have kids: "set (children_at ?h a) \<subseteq> {..<length ?h}" using "2.prems"(1) a(2) by (auto simp: dot_heap_ok_def)
    then have "\<forall>t \<in> set ?ts. target t < length ?h" using "2.prems"(2) by auto
    moreover have "\<forall>x b. Child x b \<in> set ?ts \<longrightarrow> x \<in> insert a V" using "2.prems"(3) by auto
    ultimately obtain sts where sts: "writePlanNodeDot ft opt s ?ts (insert a V) = Some sts" "written ft opt s ?ts (insert a V) sts"
      using "2.IH"(2) [OF a(1) False l "2.prems"(1)] by blast
    note w = writtenD [OF sts(2)]
    have none: "pending_targets opt ?h a ts = []" by (rule no_pending) (use "2.prems"(3) False in auto)
    have "written ft opt s (Visit a # ts) V (DotNode a l # sts)"
      unfolding written_def
    proof (intro conjI)
      show "distinct (dot_nodes (DotNode a l # sts))" "set (dot_nodes (DotNode a l # sts)) \<inter> V = {}"
        "set (dot_nodes (DotNode a l # sts)) \<subseteq> {..<length ?h}" using w(1-3) False a by auto
      show "\<forall>t \<in> set (Visit a # ts). active opt ?h t \<longrightarrow> target t \<in> V \<union> set (dot_nodes (DotNode a l # sts))" using w(4) by auto
      have "set (shown_children opt ?h a) \<subseteq> insert a V \<union> set (dot_nodes sts)"
      proof
        fix b assume "b \<in> set (shown_children opt ?h a)"
        then have "Child a b \<in> set ?ts" "active opt ?h (Child a b)" by (auto simp: shown_children_def)
        from w(4) [OF this] show "b \<in> insert a V \<union> set (dot_nodes sts)" by simp
      qed
      then show "\<forall>n \<in> set (dot_nodes (DotNode a l # sts)). set (shown_children opt ?h n) \<subseteq> V \<union> set (dot_nodes (DotNode a l # sts))"
        using w(5) by auto
      have "\<exists>t \<in> set (Visit a # ts). active opt ?h t \<and> reach (shown_heap opt ?h) (target t) n" if "n \<in> set (dot_nodes sts)" for n
      proof -
        from w(6) [OF that] obtain t where t: "t \<in> set ?ts" "active opt ?h t" "reach (shown_heap opt ?h) (target t) n" by blast
        show ?thesis
        proof (cases "t \<in> set ts")
          case True
          with t(2,3) show ?thesis by auto
        next
          case False
          with t(1) obtain b where "t = Child a b" "b \<in> set (children_at ?h a)" by auto
          with t(2,3) have b: "b \<in> set (shown_children opt ?h a)" "reach (shown_heap opt ?h) b n"
            by (simp_all add: shown_children_def)
          have "reach (shown_heap opt ?h) a n"
            by (rule reach.child [OF _ b(2)]) (simp add: shown_heap_children [OF a(2)] b(1))
          then show ?thesis by auto
        qed
      qed
      then show "\<forall>n \<in> set (dot_nodes (DotNode a l # sts)). \<exists>t \<in> set (Visit a # ts). active opt ?h t \<and> reach (shown_heap opt ?h) (target t) n"
        by (auto intro: reach.here)
      show "\<forall>x. dot_targets x (DotNode a l # sts) =
          (if x \<in> set (dot_nodes (DotNode a l # sts)) then shown_children opt ?h x else pending_targets opt ?h x (Visit a # ts))"
      proof
        fix x
        have "dot_targets x sts = (if x \<in> set (dot_nodes sts) then shown_children opt ?h x else pending_targets opt ?h x ?ts)"
          by (rule w(7))
        then show "dot_targets x (DotNode a l # sts) =
          (if x \<in> set (dot_nodes (DotNode a l # sts)) then shown_children opt ?h x else pending_targets opt ?h x (Visit a # ts))"
          using none by (simp add: pending_loop shown_children_def)
      qed
      show "\<forall>x l'. DotNode x l' \<in> set (DotNode a l # sts) \<longrightarrow> dot_label ft opt s x = Some l'" using w(8) l by auto
    qed
    then show ?thesis using sts(1) a(2) False l by simp
  qed
next
  case (3 ft opt s a b ts V)
  let ?h = "aheap s"
  have b: "\<not> length ?h \<le> b" using "3.prems"(2) by auto
  show ?case
  proof (cases "shown opt ?h b")
    case True
    with "3.IH"(1) [OF b True "3.prems"(1)] "3.prems"(2,3) obtain sts where
      sts: "writePlanNodeDot ft opt s (Visit b # ts) V = Some sts" "written ft opt s (Visit b # ts) V sts" by auto
    have "a \<notin> set (dot_nodes sts)" using sts(2) "3.prems"(3) by (auto simp: written_def)
    then have "written ft opt s (Child a b # ts) V (DotEdge a b # sts)"
      using sts(2) True by (auto simp: written_def)
    then show ?thesis using sts(1) True b by simp
  next
    case False
    with "3.IH"(2) [OF b False "3.prems"(1)] "3.prems"(2,3) obtain sts where
      "writePlanNodeDot ft opt s ts V = Some sts" "written ft opt s ts V sts" by auto
    with False b show ?thesis by (auto simp: written_def)
  qed
qed

lemma shown_bound:
  "dot_heap_ok ft opt s \<Longrightarrow> a < length (aheap s) \<Longrightarrow> b \<in> set (children_at (shown_heap opt (aheap s)) a) \<Longrightarrow> b < length (aheap s)"
  by (auto simp: shown_heap_children shown_children_def dot_heap_ok_def)

text \<open>From the root: every node that can be reached through shown children is written once, with its label,
  and an edge for each of its shown children, in their order.\<close>

lemma write_root:
  assumes "dot_heap_ok ft opt s" "root < length (aheap s)"
  shows "\<exists>sts. writePlanNodeDot ft opt s [Visit root] {} = Some sts \<and> distinct (dot_nodes sts) \<and>
    set (dot_nodes sts) = {a. reach (shown_heap opt (aheap s)) root a} \<and> set (dot_nodes sts) \<subseteq> {..<length (aheap s)} \<and>
    (\<forall>a. dot_targets a sts = (if a \<in> set (dot_nodes sts) then shown_children opt (aheap s) a else [])) \<and>
    (\<forall>a l. DotNode a l \<in> set sts \<longrightarrow> dot_label ft opt s a = Some l)"
proof -
  from write_graph [OF assms(1), of "[Visit root]" "{}"] assms(2) obtain sts where
    sts: "writePlanNodeDot ft opt s [Visit root] {} = Some sts" "written ft opt s [Visit root] {} sts" by auto
  note w = writtenD [OF sts(2)]
  have "c \<in> set (dot_nodes sts)" if "reach (shown_heap opt (aheap s)) a c" "a \<in> set (dot_nodes sts)" for a c
    using that
  proof (induction rule: reach.induct)
    case (child b a c)
    then have "b \<in> set (shown_children opt (aheap s) a)" using w(3) by (auto simp: shown_heap_children)
    with w(5) [OF child.prems] child.IH show ?case by blast
  qed
  moreover have "root \<in> set (dot_nodes sts)" using w(4) [of "Visit root"] by simp
  moreover have "reach (shown_heap opt (aheap s)) root a" if "a \<in> set (dot_nodes sts)" for a using w(6) [OF that] by simp
  ultimately have "set (dot_nodes sts) = {a. reach (shown_heap opt (aheap s)) root a}" by blast
  with sts(1) w(1,3,8) w(7) show ?thesis by simp
qed

section \<open>What Graphviz sees\<close>

definition plain_text :: "float_text \<Rightarrow> content \<Rightarrow> astate \<Rightarrow> nat \<Rightarrow> string option" where
  "plain_text ft c s a = (case c of
     IR_DATA \<Rightarrow> ir_content ft (data_at (aheap s) a) | API_DATA \<Rightarrow> Some (api_content ft (data_at (aheap s) a) (api s a)))"

lemma plain_label:
  "dot_label ft \<lparr>contentType = c, useV2 = False, shortColumns = b, ignoreFetch = i\<rparr> s a = map_option escapeLabel (plain_text ft c s a)"
  by (cases c) (simp_all add: dot_label_def plain_text_def getIrLabel_def getApiLabel_def Let_def)

lemma ir_text_total: "ir_ok d \<Longrightarrow> \<exists>t. ir_text ft d = Some t"
  by (cases "opInfo d") (auto simp: ir_text_def condition_text_def ir_ok_def is_mat_def at_def split: if_splits)

lemma ir_details_total: "ir_ok d \<Longrightarrow> \<exists>t. ir_details ft short d = Some t"
  by (cases "opInfo d") (auto simp: ir_details_def condition_text_def ir_ok_def is_mat_def at_def split: if_splits)

lemma label_total: "ir_ok (data_at (aheap s) a) \<Longrightarrow> dot_label ft opt s a \<noteq> None"
  using ir_text_total [of "data_at (aheap s) a" ft] ir_details_total [of "data_at (aheap s) a" ft "shortColumns opt"]
  by (auto simp: dot_label_def getIrLabel_def getIrLabelV2_def ir_content_def Let_def split: content.splits)

definition plan_ok_graph :: "astate \<Rightarrow> nat \<Rightarrow> bool" where
  "plan_ok_graph s root \<longleftrightarrow> root < length (aheap s) \<and>
     (\<forall>a < length (aheap s). set (children_at (aheap s) a) \<subseteq> {..<length (aheap s)} \<and> ir_ok (data_at (aheap s) a))"

lemma plan_ok_heap: "plan_ok_graph s root \<Longrightarrow> dot_heap_ok ft opt s"
  using label_total by (auto simp: plan_ok_graph_def dot_heap_ok_def)

lemma nothing_hidden: "\<not> ignoreFetch opt \<Longrightarrow> shown_heap opt h = h" "\<not> ignoreFetch opt \<Longrightarrow> shown_children opt h a = children_at h a"
  by (simp_all add: shown_heap_def shown_children_def shown_def)

definition with_text :: "(nat \<Rightarrow> string) \<Rightarrow> dot_stmt \<Rightarrow> dot_stmt" where
  "with_text f st = (case st of DotNode a l \<Rightarrow> DotNode a (f a) | DotEdge a b \<Rightarrow> DotEdge a b)"

lemma with_text_simps [simp]: "dot_nodes (map (with_text f) sts) = dot_nodes sts" "dot_targets a (map (with_text f) sts) = dot_targets a sts"
  by (induction sts) (simp_all add: with_text_def dot_nodes_def dot_targets_def split: dot_stmt.splits)

text \<open>The graph file describes the plan: whatever characters the names of the plan contain, the file
  is read back as a graph with each reachable node once, its text unchanged, and one edge for each
  child in order. The plan may be cyclic.\<close>

lemma dot_file_describes_plan:
  assumes "plan_ok_graph s root"
  shows "\<exists>file sts. generatePlanDotFile ft c s root = Some file \<and> read_dot False file = Some sts \<and>
    distinct (dot_nodes sts) \<and> set (dot_nodes sts) = {a. reach (aheap s) root a} \<and>
    (\<forall>a. dot_targets a sts = (if reach (aheap s) root a then children_at (aheap s) a else [])) \<and>
    (\<forall>a l. DotNode a l \<in> set sts \<longrightarrow> plain_text ft c s a = Some l)"
proof -
  let ?opt = "\<lparr>contentType = c, useV2 = False, shortColumns = False, ignoreFetch = False\<rparr>"
  from write_root [OF plan_ok_heap [OF assms], of root ft ?opt] assms obtain sts where
    sts: "writePlanNodeDot ft ?opt s [Visit root] {} = Some sts" "distinct (dot_nodes sts)"
      "set (dot_nodes sts) = {a. reach (aheap s) root a}"
      "\<forall>a. dot_targets a sts = (if a \<in> set (dot_nodes sts) then children_at (aheap s) a else [])"
      "\<And>a l. DotNode a l \<in> set sts \<Longrightarrow> dot_label ft ?opt s a = Some l"
    by (auto simp: plan_ok_graph_def nothing_hidden)
  let ?f = "\<lambda>a. the (plain_text ft c s a)"
  have lab: "plain_text ft c s a = Some (?f a) \<and> l = escapeLabel (?f a)" if "DotNode a l \<in> set sts" for a l
    using sts(5) [OF that] by (auto simp: plain_label)
  have "list_all2 (reads_as False) sts (map (with_text ?f) sts)"
    unfolding list_all2_map2
    using lab quoted_escape by (intro list.rel_refl_strong) (auto simp: reads_as_def with_text_def read_label_def split: dot_stmt.splits)
  from read_file [OF this] have "read_dot False (dot_file False sts) = Some (map (with_text ?f) sts)" .
  moreover have "\<forall>a l. DotNode a l \<in> set (map (with_text ?f) sts) \<longrightarrow> plain_text ft c s a = Some l"
  proof (intro allI impI)
    fix a l assume "DotNode a l \<in> set (map (with_text ?f) sts)"
    then obtain l0 where "DotNode a l0 \<in> set sts" "l = ?f a"
      by (auto simp: with_text_def split: dot_stmt.splits)
    with lab show "plain_text ft c s a = Some l" by blast
  qed
  moreover have "generatePlanDotFile ft c s root = Some (dot_file False sts)" using sts(1) by (simp add: generatePlanDotFile_def)
  moreover have "distinct (dot_nodes (map (with_text ?f) sts))" "set (dot_nodes (map (with_text ?f) sts)) = {a. reach (aheap s) root a}"
    unfolding with_text_simps by (rule sts(2), rule sts(3))
  moreover have "\<forall>a. dot_targets a (map (with_text ?f) sts) = (if reach (aheap s) root a then children_at (aheap s) a else [])"
    using sts(4) unfolding with_text_simps sts(3) mem_Collect_eq .
  ultimately show ?thesis by blast
qed

lemma html_node_reads [simp]: "read_label (html_node b1 b2 d td @ rest) = Some (html_node b1 b2 d td, rest)"
proof -
  let ?b = "\<lparr>title = escapeHtml (fst td), details = map escapeHtml (snd td) @ flag_details d,
     inputStr = escapeHtml (columns_text b2 '', '' (inputColumns d)), outputStr = escapeHtml (columns_text b1 '', '' (outputCols d))\<rparr>"
  have "balanced (html_body ?b)"
    by (rule balanced_body) (simp_all add: balanced_escape balanced_flags list_all_iff [of _ "map _ _"])
  from angle_label [OF this, of rest] show ?thesis by (simp add: html_node_def html_build_def read_label_def)
qed

lemma label_v2: "useV2 opt \<Longrightarrow> dot_label ft opt s a = Some l \<Longrightarrow> read_label (l @ rest) = Some (l, rest)"
  by (auto simp: dot_label_def getIrLabelV2_def getApiLabelV2_def Let_def split: content.splits)

text \<open>C24 The second form of the file as well: a name cannot close a tag or the label, a label is one balanced
  text, and hiding the fetch nodes leaves out exactly them and what is only reached through them.\<close>

theorem dot_file_v2_describes_plan:
  assumes "plan_ok_graph s root" and "opt = \<lparr>contentType = c, useV2 = True, shortColumns = short, ignoreFetch = ignore\<rparr>"
  shows "\<exists>file sts. generatePlanDotFileV2 ft c short ignore s root = Some file \<and> read_dot True file = Some sts \<and>
    distinct (dot_nodes sts) \<and> set (dot_nodes sts) = {a. reach (shown_heap opt (aheap s)) root a} \<and>
    (\<forall>a. dot_targets a sts = (if a \<in> set (dot_nodes sts) then shown_children opt (aheap s) a else [])) \<and>
    (\<forall>a l. DotNode a l \<in> set sts \<longrightarrow> dot_label ft opt s a = Some l)"
proof -
  from write_root [OF plan_ok_heap [OF assms(1)], of root ft opt] assms(1) obtain sts where
    sts: "writePlanNodeDot ft opt s [Visit root] {} = Some sts" "distinct (dot_nodes sts)"
      "set (dot_nodes sts) = {a. reach (shown_heap opt (aheap s)) root a}"
      "\<forall>a. dot_targets a sts = (if a \<in> set (dot_nodes sts) then shown_children opt (aheap s) a else [])"
      "\<And>a l. DotNode a l \<in> set sts \<Longrightarrow> dot_label ft opt s a = Some l"
    by (auto simp: plan_ok_graph_def)
  have "\<forall>rest. read_label (l @ rest) = Some (l, rest)" if "DotNode a l \<in> set sts" for a l
    using label_v2 [OF _ sts(5) [OF that]] assms(2) by simp
  then have "list_all2 (reads_as True) sts sts"
    by (intro list.rel_refl_strong) (auto simp: reads_as_def split: dot_stmt.splits)
  from read_file [OF this] have "read_dot True (dot_file True sts) = Some sts" .
  moreover have "generatePlanDotFileV2 ft c short ignore s root = Some (dot_file True sts)"
    using sts(1) assms(2) by (simp add: generatePlanDotFileV2_def)
  ultimately show ?thesis using sts(2-5) by blast
qed

section \<open>A plan with awkward names\<close>

definition quote_heap :: heap where
  "quote_heap = [
     \<lparr>cdata = fetch_create (mkColumn (table_of ''t'') [CHR 0x22, CHR 0x5C, CHR ''<''] TYPE_INTEGER None) False, cchildren = []\<rparr>,
     \<lparr>cdata = filter_create (mkColumn (table_of ''t'') ''a>b'' TYPE_STRING None) COMP_EQ None [ScalarString ''</B>'']
        (mkColumn (table_of ''FILTER'') ''f'' TYPE_POSLIST None), cchildren = [0]\<rparr>]"

lemma quote_ok: "plan_ok_graph \<lparr>aheap = quote_heap, api = (\<lambda>_. NoApi)\<rparr> 1"
  by (auto simp: plan_ok_graph_def quote_heap_def data_at_def children_at_def fetch_create_def filter_create_def ir_ok_def
      is_mat_def less_Suc_eq numeral_2_eq_2)

theorem dot_file_v2_describes_plan_witness:
  "\<exists>file sts. generatePlanDotFileV2 (\<lambda>_. []) IR_DATA True True \<lparr>aheap = quote_heap, api = (\<lambda>_. NoApi)\<rparr> 1 = Some file \<and>
    read_dot True file = Some sts \<and> distinct (dot_nodes sts) \<and> dot_targets 1 sts = []"
proof -
  let ?opt = "\<lparr>contentType = IR_DATA, useV2 = True, shortColumns = True, ignoreFetch = True\<rparr>"
  have "shown_children ?opt quote_heap 1 = []"
    by (simp add: shown_children_def shown_def quote_heap_def children_at_def data_at_def fetch_create_def is_fetch_def)
  with dot_file_v2_describes_plan [OF quote_ok refl, of "\<lambda>_. []" IR_DATA True True] show ?thesis by force
qed

end
