(* ===== verification/Print_Reader.thy ===== *)
theory Print_Reader
  imports Plan_Print Dot_Reader
begin

text \<open>
  What a reader sees in a tree printed by \<open>Plan_Print\<close>: the depth of a line is the number of branches
  drawn in front of it, the depths give the tree back. Every plan whose nodes can be printed is printed,
  cycles and shared nodes included, and its text is read back as a tree that contains every reachable node
  once in full.
\<close>

section \<open>Reading a printed tree\<close>

datatype text_tree = Text_Tree string "text_tree list"

lemma strip_shorter: "strip p s = Some t \<Longrightarrow> p \<noteq> [] \<Longrightarrow> length t < length s"
  by (cases s) (auto simp: strip_def split: if_splits)

function read_line :: "string \<Rightarrow> (nat \<times> string) option" where
  "read_line s =
     (case strip (marker True) s of Some t \<Rightarrow> Some (0, t) | None \<Rightarrow>
      case strip (marker False) s of Some t \<Rightarrow> Some (0, t) | None \<Rightarrow>
      case strip (indentation True) s of Some t \<Rightarrow> map_option (\<lambda>(d, x). (Suc d, x)) (read_line t) | None \<Rightarrow>
      case strip (indentation False) s of Some t \<Rightarrow> map_option (\<lambda>(d, x). (Suc d, x)) (read_line t) | None \<Rightarrow> None)"
  by pat_completeness auto
termination
  by (relation "measure size") (auto dest!: strip_shorter simp: indentation_def)

declare read_line.simps [simp del]

text \<open>Adding a line in front of the trees that follow it: the deeper ones become its children.\<close>

definition hang :: "nat \<times> string \<Rightarrow> (nat \<times> text_tree) list \<Rightarrow> (nat \<times> text_tree) list" where
  "hang l ts = (fst l, Text_Tree (snd l) (map snd (takeWhile (\<lambda>t. fst l < fst t) ts))) # dropWhile (\<lambda>t. fst l < fst t) ts"

fun split_lines :: "string \<Rightarrow> string list" where
  "split_lines [] = []"
| "split_lines (c # cs) = (if c = CHR 0x0A then [] # split_lines cs else
     (case split_lines cs of [] \<Rightarrow> [[c]] | l # ls \<Rightarrow> (c # l) # ls))"

text \<open>The first line is the heading.\<close>

definition read_plan_tree :: "string \<Rightarrow> text_tree option" where
  "read_plan_tree s = (case split_lines s of
     [] \<Rightarrow> None
   | _ # ls \<Rightarrow> (case those (map read_line ls) of
       None \<Rightarrow> None
     | Some xs \<Rightarrow> (case foldr hang xs [] of [(0, t)] \<Rightarrow> Some t | _ \<Rightarrow> None)))"

section \<open>The lines of a tree\<close>

fun tree_lines :: "bool list \<Rightarrow> bool \<Rightarrow> text_tree \<Rightarrow> string list"
and forest_lines :: "bool list \<Rightarrow> text_tree list \<Rightarrow> string list" where
  "tree_lines bs l (Text_Tree s ts) = (concat (map indentation bs) @ marker l @ s) # forest_lines (bs @ [l]) ts"
| "forest_lines bs [] = []"
| "forest_lines bs (t # ts) = tree_lines bs (ts = []) t @ forest_lines bs ts"

fun flat :: "nat \<Rightarrow> text_tree \<Rightarrow> (nat \<times> string) list"
and flats :: "nat \<Rightarrow> text_tree list \<Rightarrow> (nat \<times> string) list" where
  "flat d (Text_Tree s ts) = (d, s) # flats (Suc d) ts"
| "flats d [] = []"
| "flats d (t # ts) = flat d t @ flats d ts"

text \<open>How the drawing of a line begins.\<close>

lemma strip_drawing:
  "strip (marker True) (marker True @ s) = Some s" "strip (marker True) (marker False @ s) = None"
  "strip (marker False) (marker False @ s) = Some s"
  "strip (marker b) (indentation c @ s) = None"
  "strip (indentation True) (indentation True @ s) = Some s" "strip (indentation True) (indentation False @ s) = None"
  "strip (indentation False) (indentation False @ s) = Some s"
  by (simp_all add: strip_def marker_def indentation_def)

lemma read_marker: "read_line (marker l @ s) = Some (0, s)"
  by (subst read_line.simps) (cases l; simp add: strip_drawing)

lemma read_indentation: "read_line (indentation l @ s) = map_option (\<lambda>(d, x). (Suc d, x)) (read_line s)"
  by (subst read_line.simps) (cases l; simp add: strip_drawing)

lemma read_indented: "read_line (concat (map indentation bs) @ marker l @ s) = Some (length bs, s)"
  by (induction bs) (simp_all add: read_marker read_indentation)

lemma append_nothing [simp]: "map_option (append []) x = x"
  by (cases x) simp_all

lemma those_append: "those (xs @ ys) = Option.bind (those xs) (\<lambda>a. map_option (append a) (those ys))"
proof (induction xs)
  case (Cons x xs)
  then show ?case by (cases x; cases "those xs"; cases "those ys"; simp)
qed simp

lemma read_tree_lines:
  "those (map read_line (tree_lines bs l t)) = Some (flat (length bs) t)"
  "those (map read_line (forest_lines bs ts)) = Some (flats (length bs) ts)"
  by (induction bs l t and bs ts rule: tree_lines_forest_lines.induct) (simp_all add: read_indented those_append)

text \<open>The trees that follow are not deeper.\<close>

definition shallow :: "nat \<Rightarrow> (nat \<times> text_tree) list \<Rightarrow> bool" where
  "shallow d ts \<longleftrightarrow> (case ts of [] \<Rightarrow> True | t # _ \<Rightarrow> fst t \<le> d)"

lemma hang_children:
  assumes "shallow d st"
  shows "hang (d, s) (map (Pair (Suc d)) ts @ st) = (d, Text_Tree s ts) # st"
proof -
  have st: "takeWhile (\<lambda>t. d < fst t) st = []" "dropWhile (\<lambda>t. d < fst t) st = st"
    using assms by (cases st; simp add: shallow_def)+
  have "takeWhile (\<lambda>t. d < fst t) (map (Pair (Suc d)) ts @ st) = map (Pair (Suc d)) ts @ takeWhile (\<lambda>t. d < fst t) st"
    by (rule takeWhile_append2) auto
  moreover have "dropWhile (\<lambda>t. d < fst t) (map (Pair (Suc d)) ts @ st) = dropWhile (\<lambda>t. d < fst t) st"
    by (rule dropWhile_append2) auto
  ultimately show ?thesis by (simp add: hang_def st comp_def)
qed

lemma fold_flat:
  "shallow d st \<Longrightarrow> foldr hang (flat d t) st = (d, t) # st"
  "shallow d st \<Longrightarrow> foldr hang (flats d ts) st = map (Pair d) ts @ st"
proof (induction d t and d ts arbitrary: st and st rule: flat_flats.induct)
  case (1 d s ts)
  moreover have "shallow (Suc d) st" using "1.prems" by (auto simp: shallow_def split: list.splits)
  ultimately show ?case by (simp add: hang_children)
next
  case (3 d t ts)
  moreover have "shallow d (map (Pair d) ts @ st)" using "3.prems" by (cases ts; simp add: shallow_def)
  ultimately show ?case by simp
qed simp

lemma split_line: "CHR 0x0A \<notin> set l \<Longrightarrow> split_lines (l @ CHR 0x0A # s) = l # split_lines s"
  by (induction l) auto

lemma split_text: "list_all (\<lambda>l. CHR 0x0A \<notin> set l) ls \<Longrightarrow> split_lines (concat (map (\<lambda>l. l @ ''\<newline>'') ls)) = ls"
  by (induction ls) (auto simp: split_line)

section \<open>What is printed\<close>

text \<open>The tree drawn for a plan: a node in full with its children, or a mention of a node drawn before.\<close>

datatype drawn = Full nat "drawn list" | Again nat

fun root_of :: "drawn \<Rightarrow> nat" where
  "root_of (Full a ts) = a"
| "root_of (Again a) = a"

fun in_full :: "drawn \<Rightarrow> nat list" where
  "in_full (Full a ts) = a # concat (map in_full ts)"
| "in_full (Again a) = []"

fun follows :: "stage_node list \<Rightarrow> drawn \<Rightarrow> bool" where
  "follows h (Full a ts) \<longleftrightarrow> sn_children (h ! a) = map (Some \<circ> root_of) ts \<and> list_all (follows h) ts"
| "follows h (Again a) \<longleftrightarrow> True"

fun drawn_text :: "float_text \<Rightarrow> address_text \<Rightarrow> stage_node list \<Rightarrow> nat \<Rightarrow> drawn \<Rightarrow> text_tree" where
  "drawn_text ft adr h mode (Full a ts) = Text_Tree (the (printNode ft (h ! a) mode)) (map (drawn_text ft adr h mode) ts)"
| "drawn_text ft adr h mode (Again a) = Text_Tree (''[Visited/Shared] '' @ adr a) []"

text \<open>A plan can be printed when every node has a text and every child is a node.\<close>

definition printable :: "float_text \<Rightarrow> nat \<Rightarrow> stage_node list \<Rightarrow> bool" where
  "printable ft mode h \<longleftrightarrow> list_all (\<lambda>nd. printNode ft nd mode \<noteq> None \<and>
     list_all (\<lambda>c. case c of Some b \<Rightarrow> b < length h | None \<Rightarrow> False) (sn_children nd)) h"

definition edges :: "stage_node list \<Rightarrow> (nat \<times> nat) set" where
  "edges h = {(a, b). a < length h \<and> Some b \<in> set (sn_children (h ! a))}"

inductive draws :: "stage_node list \<Rightarrow> nat set \<Rightarrow> nat \<Rightarrow> drawn \<Rightarrow> nat set \<Rightarrow> bool"
and draws_all :: "stage_node list \<Rightarrow> nat set \<Rightarrow> nat list \<Rightarrow> drawn list \<Rightarrow> nat set \<Rightarrow> bool" for h where
  again: "a \<in> V \<Longrightarrow> a < length h \<Longrightarrow> draws h V a (Again a) V"
| full: "a \<notin> V \<Longrightarrow> a < length h \<Longrightarrow> sn_children (h ! a) = map Some cs \<Longrightarrow> draws_all h (insert a V) cs ts W \<Longrightarrow> draws h V a (Full a ts) W"
| none: "draws_all h V [] [] V"
| more: "draws h V c t U \<Longrightarrow> draws_all h U cs ts W \<Longrightarrow> draws_all h V (c # cs) (t # ts) W"

lemma those_Some: "those (map Some xs) = Some xs"
  by (induction xs) auto

lemma those_eq_Some: "those xs = Some ys \<longleftrightarrow> xs = map Some ys"
proof (induction xs arbitrary: ys)
  case (Cons x xs)
  then show ?case by (cases x; cases ys) auto
qed auto

lemma printable_children:
  assumes "printable ft mode h" "a < length h"
  obtains cs s where "sn_children (h ! a) = map Some cs" "set cs \<subseteq> {..<length h}" "printNode ft (h ! a) mode = Some s"
proof -
  have nd: "printNode ft (h ! a) mode \<noteq> None" "\<forall>c \<in> set (sn_children (h ! a)). case c of Some b \<Rightarrow> b < length h | None \<Rightarrow> False"
    using assms by (auto simp: printable_def list_all_length list_all_iff [symmetric])
  have "sn_children (h ! a) = map Some (map the (sn_children (h ! a)))"
    using nd(2) by (auto simp: map_idI split: option.splits)
  moreover have "set (map the (sn_children (h ! a))) \<subseteq> {..<length h}"
    using nd(2) by (auto split: option.splits)
  ultimately show thesis using nd(1) that by blast
qed

text \<open>Every plan has a drawing.\<close>

lemma draws_exists_upto:
  assumes "printable ft mode h"
  shows "set cs \<subseteq> {..<length h} \<Longrightarrow> card ({..<length h} - V) \<le> n \<Longrightarrow> \<exists>ts W. draws_all h V cs ts W \<and> V \<subseteq> W"
proof (induction n arbitrary: V cs rule: less_induct)
  case (less n)
  show ?case using less.prems
  proof (induction cs arbitrary: V)
    case Nil
    then show ?case using none by blast
  next
    case (Cons c cs)
    have "\<exists>t U. draws h V c t U \<and> V \<subseteq> U"
    proof (cases "c \<in> V")
      case True
      then show ?thesis using again [OF True] Cons.prems(1) by auto
    next
      case False
      have c: "c < length h" using Cons.prems(1) by simp
      obtain ds s where ds: "sn_children (h ! c) = map Some ds" "set ds \<subseteq> {..<length h}"
        by (rule printable_children [OF assms c])
      have "card ({..<length h} - insert c V) < n" using fewer_left [OF c False] Cons.prems(2) by simp
      from less.IH [OF this ds(2) order.refl] obtain ts W where "draws_all h (insert c V) ds ts W" "insert c V \<subseteq> W" by blast
      then have "draws h V c (Full c ts) W \<and> V \<subseteq> W" using full [OF False c ds(1)] by simp
      then show ?thesis by blast
    qed
    then obtain t U where t: "draws h V c t U" "V \<subseteq> U" by blast
    have "card ({..<length h} - U) \<le> n"
      using t(2) Cons.prems(2) by (meson Diff_mono card_mono finite_Diff finite_lessThan order.refl order.trans)
    then obtain ts W where "draws_all h U cs ts W" "U \<subseteq> W" using Cons.IH [of U] Cons.prems(1) by auto
    with t more show ?case by (meson order.trans)
  qed
qed

lemma draws_exists:
  assumes "printable ft mode h" "root < length h"
  obtains t W where "draws h {} root t W"
proof -
  have "set [root] \<subseteq> {..<length h}" using assms(2) by simp
  from draws_exists_upto [OF assms(1) this order.refl] obtain ts W where "draws_all h {} [root] ts W" by blast
  then show thesis by (cases rule: draws_all.cases) (rule that)
qed

text \<open>What a drawing holds: the nodes in full are new, distinct, reached from the start, and their children
  are drawn as well.\<close>

definition sound_drawing :: "stage_node list \<Rightarrow> nat set \<Rightarrow> nat list \<Rightarrow> nat list \<Rightarrow> nat set \<Rightarrow> bool" where
  "sound_drawing h V starts new W \<longleftrightarrow> W = V \<union> set new \<and> distinct new \<and> V \<inter> set new = {} \<and> set starts \<subseteq> W \<and>
     (\<forall>a \<in> set new. edges h `` {a} \<subseteq> W \<and> (\<exists>s \<in> set starts. (s, a) \<in> (edges h)\<^sup>*))"

lemma sound_drawing_node:
  assumes "a \<notin> V" "edges h `` {a} = set cs" "sound_drawing h (insert a V) cs new W"
  shows "sound_drawing h V [a] (a # new) W"
proof -
  have "(a, c) \<in> edges h" if "c \<in> set cs" for c using that assms(2) by auto
  then have "\<forall>x \<in> set new. (a, x) \<in> (edges h)\<^sup>*"
    using assms(3) unfolding sound_drawing_def by (meson converse_rtrancl_into_rtrancl)
  with assms show ?thesis unfolding sound_drawing_def by simp blast
qed

lemma sound_drawing_append:
  assumes "sound_drawing h V [c] new U" "sound_drawing h U cs news W"
  shows "sound_drawing h V (c # cs) (new @ news) W"
  using assms unfolding sound_drawing_def by simp blast

lemma draws_sound:
  "draws h V a t W \<Longrightarrow> root_of t = a \<and> follows h t \<and> sound_drawing h V [a] (in_full t) W"
  "draws_all h V cs ts W \<Longrightarrow> map root_of ts = cs \<and> list_all (follows h) ts \<and> sound_drawing h V cs (concat (map in_full ts)) W"
proof (induction rule: draws_draws_all.inducts)
  case (full a V cs ts W)
  have "edges h `` {a} = set cs" using full(2,3) by (auto simp: edges_def)
  with full show ?case by (auto intro: sound_drawing_node)
next
  case (more V c t U cs ts W)
  then show ?case by (auto intro: sound_drawing_append)
qed (auto simp: sound_drawing_def)

text \<open>From an empty start every reachable node is drawn.\<close>

lemma drawing_complete:
  assumes "draws h {} root t W"
  shows "set (in_full t) = (edges h)\<^sup>* `` {root}"
proof -
  note s = draws_sound(1) [OF assms, unfolded sound_drawing_def]
  have "b \<in> set (in_full t)" if "(root, b) \<in> (edges h)\<^sup>*" for b
    using that by (induction rule: rtrancl_induct) (use s in auto)
  with s show ?thesis by auto
qed

section \<open>The printed text\<close>

definition lines_text :: "string list \<Rightarrow> string" where
  "lines_text ls = concat (map (\<lambda>l. l @ ''\<newline>'') ls)"

lemma lines_text_simps [simp]: "lines_text [] = []" "lines_text (l # ls) = l @ CHR 0x0A # lines_text ls"
  "lines_text (ls @ ms) = lines_text ls @ lines_text ms"
  by (simp_all add: lines_text_def)

lemma prints_drawing:
  assumes "printable ft mode h"
  shows "draws h V a t W \<Longrightarrow> printPlanTreeSub ft adr h mode ((a, concat (map indentation bs), l) # calls) V =
      map_option (append (lines_text (tree_lines bs l (drawn_text ft adr h mode t)))) (printPlanTreeSub ft adr h mode calls W)"
    "draws_all h V cs ts W \<Longrightarrow> printPlanTreeSub ft adr h mode (child_calls (concat (map indentation bs)) cs @ calls) V =
      map_option (append (lines_text (forest_lines bs (map (drawn_text ft adr h mode) ts)))) (printPlanTreeSub ft adr h mode calls W)"
proof (induction arbitrary: bs l calls and bs calls rule: draws_draws_all.inducts)
  case (full a V cs ts W)
  obtain s where s: "printNode ft (h ! a) mode = Some s" using printable_children [OF assms full(2)] by blast
  have "concat (map indentation bs) @ indentation l = concat (map indentation (bs @ [l]))" by simp
  with full(5) [of "bs @ [l]" calls] full(1-3) s show ?case
    by (simp add: those_Some option.map_comp comp_def del: map_append concat_append)
next
  case (more V c t U cs ts W)
  have "(cs = []) = (ts = [])" using draws_sound(2) [OF more(3)] by auto
  with more(2,4) show ?case by (simp add: option.map_comp comp_def)
qed simp_all

text \<open>No line is broken when the texts of the nodes and of the addresses are not.\<close>

abbreviation one_line :: "string \<Rightarrow> bool" where
  "one_line s \<equiv> CHR 0x0A \<notin> set s"

lemma drawing_one_line: "one_line (concat (map indentation bs))" "one_line (marker l)"
  by (auto simp: indentation_def marker_def)

lemma drawn_lines:
  assumes "printable ft mode h" "\<And>nd s. nd \<in> set h \<Longrightarrow> printNode ft nd mode = Some s \<Longrightarrow> one_line s" "\<And>a. one_line (adr a)"
  shows "draws h V a t W \<Longrightarrow> list_all one_line (tree_lines bs l (drawn_text ft adr h mode t))"
    "draws_all h V cs ts W \<Longrightarrow> list_all one_line (forest_lines bs (map (drawn_text ft adr h mode) ts))"
proof (induction arbitrary: bs l and bs rule: draws_draws_all.inducts)
  case (again a V)
  then show ?case using drawing_one_line assms(3) [of a] by simp
next
  case (full a V cs ts W)
  obtain s where s: "printNode ft (h ! a) mode = Some s" using printable_children [OF assms(1) full(2)] by blast
  moreover have "one_line s" using assms(2) [OF nth_mem [OF full(2)] s] .
  ultimately show ?case using full(5) drawing_one_line by simp
qed simp_all

lemma heading_line: "\<exists>l. one_line l \<and> tree_heading mode = l @ ''\<newline>''"
  by (intro exI [of _ "butlast (tree_heading mode)"]) (simp add: tree_heading_def)

text \<open>C26 Every plan whose nodes have a one-line text is printed as a tree, cyclic plans included, and
  the text is read back as a tree of the plan: it shows every reachable node once in full, with its children in order, and
  each further occurrence as a mention.
\<close>

theorem printed_plan_read_back:
  assumes "printable ft mode h" "root < length h"
    and "\<And>nd s. nd \<in> set h \<Longrightarrow> printNode ft nd mode = Some s \<Longrightarrow> one_line s" "\<And>a. one_line (adr a)"
  shows "\<exists>t out. printPlanTree ft adr h root mode = Some out \<and> read_plan_tree out = Some (drawn_text ft adr h mode t) \<and>
    root_of t = root \<and> follows h t \<and> distinct (in_full t) \<and> set (in_full t) = (edges h)\<^sup>* `` {root}"
proof -
  obtain t W where t: "draws h {} root t W" using draws_exists [OF assms(1,2)] .
  define ls where "ls = tree_lines [] True (drawn_text ft adr h mode t)"
  have "printPlanTreeSub ft adr h mode [(root, [], True)] {} = Some (lines_text ls)"
    using prints_drawing(1) [OF assms(1) t, of adr "[]" True "[]"] by (simp add: ls_def)
  then have out: "printPlanTree ft adr h root mode = Some (tree_heading mode @ lines_text ls)"
    by (simp add: printPlanTree_def)
  obtain l where l: "one_line l" "tree_heading mode = l @ ''\<newline>''" using heading_line by blast
  have "list_all one_line ls" unfolding ls_def by (rule drawn_lines(1) [OF assms(1,3,4) t])
  from split_text [OF this] l have "split_lines (tree_heading mode @ lines_text ls) = l # ls"
    by (simp add: split_line lines_text_def)
  then have "read_plan_tree (tree_heading mode @ lines_text ls) = Some (drawn_text ft adr h mode t)"
    by (simp add: read_plan_tree_def ls_def read_tree_lines fold_flat shallow_def)
  with out draws_sound(1) [OF t] drawing_complete [OF t] show ?thesis by (auto simp: sound_drawing_def)
qed

section \<open>Which plans can be printed\<close>

lemma at_below: "i < length xs \<Longrightarrow> at xs i = Some (xs ! i)"
  by (simp add: at_def)

lemma printNodeIr_total: "ir_ok (sn_ir nd) \<Longrightarrow> printNodeIr ft nd \<noteq> None"
  by (cases "opInfo (sn_ir nd)")
    (auto simp: ir_ok_def printNodeIr_def join_line_def at_below Let_def is_mat_def split: if_splits)

text \<open>A sort with fewer orders than columns cannot be printed.\<close>

lemma printNodeAbstract_total:
  "printNodeAbstract nd = None \<longleftrightarrow> (\<exists>s. sn_abstract nd = AbsSort s \<and> length (asc s) < length (column_names s))"
proof (cases "sn_abstract nd")
  case (AbsSort s)
  have "those (map (sort_key_text s) [0..<n]) = None \<longleftrightarrow> length (asc s) < n" if "n \<le> length (column_names s)" for n
    using that
    by (induction n) (auto simp: those_append sort_key_text_def at_def split: option.splits if_splits)
  then show ?thesis using AbsSort by (simp add: printNodeAbstract_def)
qed (simp_all add: printNodeAbstract_def)

text \<open>The nodes of a plan of the optimizer.\<close>

definition staged :: "heap \<Rightarrow> (nat \<Rightarrow> ApiData) \<Rightarrow> stage_node list" where
  "staged h ap = map (\<lambda>a. \<lparr>sn_raw = None, sn_abstract = NoAbstract, sn_ir = data_at h a, sn_api = ap a,
     sn_children = map Some (children_at h a)\<rparr>) [0..<length h]"

lemma staged_simps [simp]: "length (staged h ap) = length h"
  "a < length h \<Longrightarrow> sn_children (staged h ap ! a) = map Some (children_at h a)"
  "a < length h \<Longrightarrow> sn_ir (staged h ap ! a) = data_at h a"
  by (simp_all add: staged_def)

text \<open>In the IR and in the API stage every well-formed plan can be printed; with the JSON stage the code
  dereferences an empty optional.\<close>

lemma optimizer_plan_printable:
  assumes "heap_ok h"
  shows "printable ft 2 (staged h ap)" "printable ft 3 (staged h ap)"
proof -
  have "ir_ok (data_at h a)" "\<forall>b \<in> set (children_at h a). b < length h" if "a < length h" for a
    using assms that by (auto simp: heap_ok_def intro: less_trans)
  then show "printable ft 2 (staged h ap)" "printable ft 3 (staged h ap)"
    using printNodeIr_total by (auto simp: printable_def list_all_length printNode_def list_all_iff)
qed

lemma json_stage_missing: "a < length h \<Longrightarrow> printPlanTree ft adr (staged h ap) a 0 = None"
  by (simp add: printPlanTree_def printNode_def printNodeJson_def staged_def)

text \<open>The debug output passes over null children, so it only needs the others to be nodes.\<close>

lemma printDebugSub_total:
  assumes "\<And>a b. a < length h \<Longrightarrow> Some b \<in> set (sn_children (h ! a)) \<Longrightarrow> b < length h"
  shows "set calls \<subseteq> {..<length h} \<Longrightarrow> printDebugSub ft adr h calls V \<noteq> None"
  using assms
proof (induction ft adr h calls V rule: printDebugSub.induct)
  case (2 ft adr h a calls V)
  have "set (List.map_filter id (sn_children (h ! a))) \<subseteq> {..<length h}" if "a < length h"
    using "2.prems"(2) [OF that] by (auto simp: List.map_filter_def)
  then show ?case using 2 by auto
qed simp

section \<open>A sample\<close>

definition sample_source :: stage_node where
  "sample_source = \<lparr>sn_raw = None, sn_abstract = AbsSource \<lparr>basetable = ''orders'', filters = [''price > 10'', ''year = 1997'']\<rparr>,
     sn_ir = emptyIr, sn_api = NoApi, sn_children = []\<rparr>"

definition sample_self_join :: stage_node where
  "sample_self_join = \<lparr>sn_raw = None, sn_abstract = AbsJoin \<lparr>left_table = ''a'', right_table = ''b'', condition = ''a.k = b.k''\<rparr>,
     sn_ir = emptyIr, sn_api = NoApi, sn_children = [Some 0, Some 0]\<rparr>"

definition sample_plan :: "stage_node list" where
  "sample_plan = [sample_source, sample_self_join]"

lemma to_string_one_line: "one_line (to_string n)"
  using to_string_digits [of n] by (auto simp: list_all_iff is_digit_def)

lemma sample_plan_texts:
  "printNode ft sample_source (Suc 0) = Some ''AbstractSource orders [price > 10, year = 1997]''"
  "printNode ft sample_self_join (Suc 0) = Some ''AbstractJoin a.k = b.k [a, b]''"
  by (simp_all add: printNode_def printNodeAbstract_def sample_source_def sample_self_join_def bracketed_def)

lemma sample_plan_printable: "printable ft 1 sample_plan"
proof -
  have "sn_children sample_source = []" "sn_children sample_self_join = [Some 0, Some 0]"
    by (simp_all add: sample_source_def sample_self_join_def)
  then show ?thesis by (simp add: printable_def sample_plan_def sample_plan_texts)
qed

theorem printed_plan_read_back_witness:
  "\<exists>t out. printPlanTree (\<lambda>_. ''0.5'') to_string sample_plan 1 1 = Some out \<and>
    read_plan_tree out = Some (drawn_text (\<lambda>_. ''0.5'') to_string sample_plan 1 t) \<and>
    root_of t = 1 \<and> follows sample_plan t \<and> distinct (in_full t) \<and> set (in_full t) = (edges sample_plan)\<^sup>* `` {1}"
proof (rule printed_plan_read_back)
  show "1 < length sample_plan" by (simp add: sample_plan_def)
  show "one_line s" if "nd \<in> set sample_plan" "printNode (\<lambda>_. ''0.5'') nd 1 = Some s" for nd s
    using that by (auto simp: sample_plan_def sample_plan_texts)
qed (rule sample_plan_printable to_string_one_line)+

end
