(* ===== verification/Ast_Output.thy ===== *)
theory Ast_Output
  imports Sql_To_Ast Dot_Reader
begin

text \<open>
  The two outputs of the syntax tree: as a graph for Graphviz, \<open>src/parser/generate_dot.cpp\<close>, and as text,
  \<open>printAST\<close> of \<open>src/parser/generate_AST.cpp\<close>. In the graph a node is named by its address, which is a
  parameter: a function of the path to the node. The texts of the tree stand in quoted labels as they are.
\<close>

section \<open>Labels\<close>

text \<open>The two characters \<open>\\n\<close>, a line end in a label.\<close>

definition label_break :: string where
  "label_break = [CHR 0x5C, CHR ''n'']"

definition dotted :: "string \<Rightarrow> string \<Rightarrow> string" where
  "dotted t c = t @ ''.'' @ c"

definition where_text :: "WhereClauseNode \<Rightarrow> string" where
  "where_text w =
     (if w_operatorType w = ''OR'' then
        dotted (w_table w) (w_column w) @ '' = '' @ w_value w @ '' '' @ w_operatorType w @ '' '' @
          dotted (w_table2 w) (w_column2 w) @ '' = '' @ w_value2 w
      else if w_operatorType w = ''BETWEEN'' then
        dotted (w_table w) (w_column w) @ '' '' @ w_operatorType w @ '' '' @ w_value w @ '' AND '' @ w_value2 w
      else dotted (w_table w) (w_column w) @ '' '' @ w_operatorType w @ '' '' @ w_value w @ '' '' @ dotted (w_table2 w) (w_column2 w))"

definition ast_label :: "ast_val \<Rightarrow> string" where
  "ast_label v = (case v of
     VSetOp e \<Rightarrow> ''SetOperation:'' @ label_break @ setOperation e
   | VJoin e \<Rightarrow> if j_joinType e = ''CROSSPRODUCT'' then ''CROSSPRODUCT''
       else ''Join Node:'' @ label_break @ j_joinType e @ label_break @ dotted (onLeftTable e) (onLeftTableColumn e) @ '' = '' @
         dotted (onRightTable e) (onRightTableColumn e)
   | VBase e \<Rightarrow> ''Table:'' @ label_break @ tableName e @ (if tableAlias e = [] then [] else label_break @ tableAlias e)
   | VWhere e \<Rightarrow> ''Where:'' @ label_break @ where_text e
   | VSelect ds \<Rightarrow> ''Select:'' @ label_break @ concat (map (\<lambda>d. dotted (sd_table d) (sd_column d) @ label_break) ds)
   | VAgg e \<Rightarrow> ''Aggregate Node:'' @ label_break @ aggregateFunction e @ ''('' @ dotted (a_table e) (a_column e) @ '') as '' @ a_alias e
   | VGroup ds \<Rightarrow> ''Group By:'' @ label_break @ concat (map (\<lambda>d. dotted (gd_table d) (gd_column d) @ label_break) ds)
   | VOrder ds \<Rightarrow> ''Order By:'' @ label_break @
       concat (map (\<lambda>d. dotted (od_table d) (od_column d) @ '' '' @ ordertype d @ '' |'' @ label_break) ds)
   | VMap e \<Rightarrow> ''Map:'' @ label_break @ dotted (m_table1 e) (m_column1 e) @ '' '' @ m_operatorType e @ '' '' @
       dotted (m_table2 e) (m_column2 e)
   | VLimit e \<Rightarrow> ''Limit:'' @ label_break @ limit e @ '' '' @ offset e
   | VEmpty \<Rightarrow> ''Unknown'')"

section \<open>The graph\<close>

type_synonym ast_address = "bool list \<Rightarrow> nat"

definition ast_node_text :: "nat \<Rightarrow> ast_val \<Rightarrow> string" where
  \<open>ast_node_text a v = ''    '' @ to_string a @ '' [shape=box, label="'' @ ast_label v @ ''"];\<newline>''\<close>

definition ast_edge_text :: "nat \<Rightarrow> nat \<Rightarrow> string" where
  "ast_edge_text a b = ''    '' @ to_string a @ '' -> '' @ to_string b @ '';\<newline>''"

fun writeDot :: "ast_address \<Rightarrow> bool list \<Rightarrow> ast \<Rightarrow> string" where
  "writeDot adr p Null = []"
| "writeDot adr p (ANode v l r) =
     ast_node_text (adr p) v @
     (if l = Null then [] else ast_edge_text (adr p) (adr (p @ [False])) @ writeDot adr (p @ [False]) l) @
     (if r = Null then [] else ast_edge_text (adr p) (adr (p @ [True])) @ writeDot adr (p @ [True]) r)"

text \<open>Nothing is written when the file cannot be opened.\<close>

definition generateDotFile :: "bool \<Rightarrow> ast_address \<Rightarrow> ast \<Rightarrow> string option" where
  \<open>generateDotFile is_open adr root = (if is_open then
     Some (''digraph AST {\<newline>    node [shape=box, fontname="Helvetica"];\<newline>'' @ writeDot adr [] root @ ''}\<newline>'') else None)\<close>

section \<open>The text\<close>

definition ast_line :: "ast_val \<Rightarrow> string" where
  "ast_line v = (case v of
     VSetOp e \<Rightarrow> ''SetOperation: '' @ setOperation e @ ''\<newline>''
   | VJoin e \<Rightarrow> if j_joinType e = ''CROSSPRODUCT'' then ''CROSSPRODUCT\<newline>''
       else ''Join Node: '' @ j_joinType e @ '' '' @ dotted (onLeftTable e) (onLeftTableColumn e) @ '' = '' @
         dotted (onRightTable e) (onRightTableColumn e) @ ''\<newline>''
   | VBase e \<Rightarrow> ''Table: '' @ tableName e @ '' '' @ tableAlias e @ ''\<newline>''
   | VWhere e \<Rightarrow> ''Where: '' @ where_text e @ ''\<newline>''
   | VSelect ds \<Rightarrow> ''Select: '' @ concat (map (\<lambda>d. dotted (sd_table d) (sd_column d) @ '' '') ds) @ ''\<newline>''
   | VAgg e \<Rightarrow> ''Aggregate Node: '' @ aggregateFunction e @ ''('' @ dotted (a_table e) (a_column e) @ '') as '' @ a_alias e @ ''\<newline>''
   | VGroup ds \<Rightarrow> ''Group By: '' @ concat (map (\<lambda>d. dotted (gd_table d) (gd_column d) @ '' '') ds) @ ''\<newline>''
   | VOrder ds \<Rightarrow> ''Order By: '' @ concat (map (\<lambda>d. dotted (od_table d) (od_column d) @ '' '' @ ordertype d @ '' | '') ds) @ ''\<newline>''
   | VMap e \<Rightarrow> ''Map: '' @ dotted (m_table1 e) (m_column1 e) @ '' '' @ m_operatorType e @ '' '' @ dotted (m_table2 e) (m_column2 e) @ ''\<newline>''
   | VLimit e \<Rightarrow> ''Limit: '' @ limit e @ '' '' @ offset e @ ''\<newline>''
   | VEmpty \<Rightarrow> [])"

fun printAST :: "ast \<Rightarrow> string" where
  "printAST Null = []"
| "printAST (ANode v l r) = ast_line v @ printAST l @ printAST r"

section \<open>What the graph shows\<close>

text \<open>The statements of the graph: nodes by address, edges to the children.\<close>

datatype ast_stmt = Ast_Node nat ast_val | Ast_Edge nat nat

fun ast_stmts :: "ast_address \<Rightarrow> bool list \<Rightarrow> ast \<Rightarrow> ast_stmt list" where
  "ast_stmts adr p Null = []"
| "ast_stmts adr p (ANode v l r) =
     Ast_Node (adr p) v #
     (if l = Null then [] else Ast_Edge (adr p) (adr (p @ [False])) # ast_stmts adr (p @ [False]) l) @
     (if r = Null then [] else Ast_Edge (adr p) (adr (p @ [True])) # ast_stmts adr (p @ [True]) r)"

definition ast_stmt_text :: "ast_stmt \<Rightarrow> string" where
  "ast_stmt_text st = (case st of Ast_Node a v \<Rightarrow> ast_node_text a v | Ast_Edge a b \<Rightarrow> ast_edge_text a b)"

lemma writeDot_stmts: "writeDot adr p t = concat (map ast_stmt_text (ast_stmts adr p t))"
  by (induction t arbitrary: p) (simp_all add: ast_stmt_text_def)

fun paths :: "bool list \<Rightarrow> ast \<Rightarrow> bool list list" where
  "paths p Null = []"
| "paths p (ANode v l r) = p # paths (p @ [False]) l @ paths (p @ [True]) r"

fun values_in :: "ast \<Rightarrow> ast_val list" where
  "values_in Null = []"
| "values_in (ANode v l r) = v # values_in l @ values_in r"

definition stmt_nodes :: "ast_stmt list \<Rightarrow> (nat \<times> ast_val) list" where
  "stmt_nodes sts = concat (map (\<lambda>st. case st of Ast_Node a v \<Rightarrow> [(a, v)] | Ast_Edge a b \<Rightarrow> []) sts)"

definition stmt_edges :: "ast_stmt list \<Rightarrow> (nat \<times> nat) list" where
  "stmt_edges sts = concat (map (\<lambda>st. case st of Ast_Edge a b \<Rightarrow> [(a, b)] | Ast_Node a v \<Rightarrow> []) sts)"

lemma stmt_simps [simp]:
  "stmt_nodes [] = []" "stmt_nodes (Ast_Node a v # sts) = (a, v) # stmt_nodes sts" "stmt_nodes (Ast_Edge a b # sts) = stmt_nodes sts"
  "stmt_nodes (sts @ sts') = stmt_nodes sts @ stmt_nodes sts'"
  "stmt_edges [] = []" "stmt_edges (Ast_Node a v # sts) = stmt_edges sts" "stmt_edges (Ast_Edge a b # sts) = (a, b) # stmt_edges sts"
  "stmt_edges (sts @ sts') = stmt_edges sts @ stmt_edges sts'"
  by (simp_all add: stmt_nodes_def stmt_edges_def)

text \<open>Every node of the tree is written once, in pre-order.\<close>

lemma graph_nodes: "stmt_nodes (ast_stmts adr p t) = zip (map adr (paths p t)) (values_in t)"
proof (induction t arbitrary: p)
  case (ANode v l r)
  have "length (paths p l) = length (values_in l)" for p by (induction l arbitrary: p) simp_all
  with ANode show ?case by simp
qed simp

text \<open>Every node but the root has one incoming edge, from its parent.\<close>

lemma graph_edges: "mset (map snd (stmt_edges (ast_stmts adr p t))) = mset (map adr (tl (paths p t)))"
proof (induction t arbitrary: p)
  case (ANode v l r)
  have "mset (map adr (paths q u)) = (if u = Null then {#} else add_mset (adr q) (mset (map adr (tl (paths q u)))))" for q u
    by (cases u) simp_all
  with ANode show ?case by simp
qed simp

lemma graph_edges_down: "e \<in> set (stmt_edges (ast_stmts adr p t)) \<Longrightarrow> \<exists>q d. e = (adr q, adr (q @ [d]))"
  by (induction t arbitrary: p) (auto split: if_splits)

section \<open>A name can end a label\<close>

lemma read_quoted_plain: "CHR 0x22 \<notin> set s \<Longrightarrow> CHR 0x5C \<notin> set s \<Longrightarrow> read_quoted (s @ CHR 0x22 # rest) = Some (s, rest)"
  by (induction s) auto

text \<open>The label of a table whose name holds a quotation mark ends there; what follows is read as part of the
  statement. The graph of a plan escapes its texts (\<open>Plan_Dot\<close>), the graph of the syntax tree does not.\<close>

lemma quote_ends_label:
  assumes "CHR 0x22 \<notin> set s" "CHR 0x5C \<notin> set s"
  shows "read_quoted (ast_label (VBase \<lparr>tableName = s @ CHR 0x22 # u, tableAlias = []\<rparr>) @ rest) =
    Some (''Table:\<newline>'' @ s, u @ rest)"
  using assms by (simp add: ast_label_def label_break_def read_quoted_plain)

end
