(* ===== verification/Client_Session.thy ===== *)
theory Client_Session
  imports Pipeline_Samples Server_Routing
begin

text \<open>
  The client's side of the network (\<open>src/client/DBClient.cpp\<close>, \<open>src/client/TCPClient.cpp\<close>,
  \<open>examples/tcp_client_example.cpp\<close>) and the database server that receives plans
  (\<open>src/server/DBServer.cpp\<close>): the client's callbacks, how it waits for the server, and the frames in
  which the work items of a plan travel. Encoding and decoding of messages by the protocol library are
  parameters, and so are the random uuids.
\<close>

section \<open>State\<close>

record session =
  session_uuid :: "64 word"
  outgoing :: "byte list"
  send_calls :: nat
  takes :: "nat \<Rightarrow> nat"
  tcpConnected :: bool
  shown_texts :: "byte list list"

record protocol =
  parse_work :: "byte list \<Rightarrow> 32 word \<times> 32 word"
  encode_response :: "32 word \<Rightarrow> 32 word \<Rightarrow> string \<Rightarrow> byte list"
  encode_unit :: "unit_code \<Rightarrow> byte list"

definition NEW_TASK :: package_code where "NEW_TASK = 3"

definition new_session :: "64 word \<Rightarrow> (nat \<Rightarrow> nat) \<Rightarrow> session" where
  "new_session u taken = \<lparr>session_uuid = u, outgoing = [], send_calls = 0, takes = taken, tcpConnected = False, shown_texts = []\<rparr>"

text \<open>The socket does not block: call number \<open>i\<close> of \<open>send\<close> takes at most \<open>takes i\<close> bytes (none when it
  fails), and \<open>notifyHost\<close> does not look at its result.\<close>

definition notifyHost :: "byte list \<Rightarrow> session \<Rightarrow> session" where
  "notifyHost buf s = s\<lparr>outgoing := outgoing s @ take (takes s (send_calls s)) buf, send_calls := send_calls s + 1\<rparr>"

definition notify_item :: "package_code \<Rightarrow> byte list \<Rightarrow> session \<Rightarrow> session" where
  "notify_item p item = notifyHost (fst (serializeItemToMemory item (newMetaInfo\<lparr>package_type := p, payload_size := of_nat (length item)\<rparr>)))"

section \<open>The client's callbacks\<close>

text \<open>The answer to a work item names its plan and number, but neither its sender nor a target.\<close>

definition work_cb :: "protocol \<Rightarrow> message \<Rightarrow> session \<Rightarrow> session" where
  "work_cb P m = (let (plan, item) = parse_work P (snd m) in
     notify_item TASK_FINISHED (encode_response P plan item ''Your intermediates are ready!''))"

text \<open>The client introduces itself as a compute unit, and without its uuid.\<close>

definition updateUnitInfo_cb :: "protocol \<Rightarrow> message \<Rightarrow> session \<Rightarrow> session" where
  "updateUnitInfo_cb P m s = (notify_item UPDATE_UNIT_TYPE (encode_unit P COMPUTE_UNIT) s)\<lparr>tcpConnected := True\<rparr>"

definition client_text_cb :: "message \<Rightarrow> session \<Rightarrow> session" where
  "client_text_cb m s = s\<lparr>shown_texts := shown_texts s @ [snd m]\<rparr>"

text \<open>The callback of every \<open>TCPClient\<close>; \<open>u\<close> is the generator's value.\<close>

definition update_uuid_on_collision :: "64 word \<Rightarrow> message \<Rightarrow> session \<Rightarrow> session" where
  "update_uuid_on_collision u m s =
     notifyHost (header_bytes (newMetaInfo\<lparr>package_type := UUID_COLLISION, src_uuid := u\<rparr>)) (s\<lparr>session_uuid := u\<rparr>)"

definition client_dispatch :: "protocol \<Rightarrow> 64 word \<Rightarrow> message \<Rightarrow> session \<Rightarrow> session" where
  "client_dispatch P u m s = (let p = package_type (fst m) in
     if p = WORK then work_cb P m s
     else if p = UPDATE_UNIT_TYPE then updateUnitInfo_cb P m s
     else if p = TEXT then client_text_cb m s
     else if p = UUID_COLLISION then update_uuid_on_collision u m s
     else s)"

text \<open>The wait for the server, in seconds and with a look twice a second. A look gives whether the handshake
  is done and the milliseconds since the start; \<open>late\<close> is a handshake between the last look and the test
  after the loop. \<open>None\<close> is not yet decided.\<close>

definition TIMEOUT :: nat where
  "TIMEOUT = 10"

fun wait_connected :: "(bool \<times> nat) list \<Rightarrow> bool option" where
  "wait_connected [] = None"
| "wait_connected ((up, now) # looks) = (if \<not> up \<and> now < 1000 * TIMEOUT then wait_connected looks else Some up)"

datatype client_run = Stand_Alone | With_Server | Timed_Out

definition run_client :: "bool \<Rightarrow> (bool \<times> nat) list \<Rightarrow> bool \<Rightarrow> client_run option" where
  "run_client standalone looks late =
     (if standalone then Some Stand_Alone
      else map_option (\<lambda>up. if up \<or> late then With_Server else Timed_Out) (wait_connected looks))"

section \<open>Plans on their way to the server\<close>

text \<open>The loop over the work items at the end of \<open>runOptimizerPipeline\<close>.\<close>

definition send_items :: "(WorkItem \<Rightarrow> byte list) \<Rightarrow> WorkItem list \<Rightarrow> session \<Rightarrow> session" where
  "send_items encode ws s = fold (\<lambda>w. notify_item NEW_TASK (encode w)) ws s"

text \<open>\<open>DBServer::addCallbacks\<close>. A task that cannot be parsed is dropped with a message.\<close>

definition db_server_callbacks :: "package_code \<Rightarrow> bool" where
  "db_server_callbacks p \<longleftrightarrow> p \<in> {NEW_TASK, TASK_FINISHED}"

definition new_task_cb :: "(byte list \<Rightarrow> WorkItem option) \<Rightarrow> message \<Rightarrow> WorkItem option" where
  "new_task_cb decode m = (if package_type (fst m) = NEW_TASK then decode (snd m) else None)"

definition tasks_of :: "(byte list \<Rightarrow> WorkItem option) \<Rightarrow> message list \<Rightarrow> WorkItem list" where
  "tasks_of decode ms = List.map_filter (new_task_cb decode) ms"

section \<open>Properties\<close>

definition task_message :: "byte list \<Rightarrow> message" where
  "task_message item = (newMetaInfo\<lparr>package_type := NEW_TASK, payload_size := of_nat (length item)\<rparr>, item)"

lemma notify_item_simps [simp]:
  "takes (notify_item p item s) = takes s" "session_uuid (notify_item p item s) = session_uuid s"
  by (simp_all add: notify_item_def notifyHost_def)

lemma notify_outgoing:
  "outgoing (notify_item p item s) = outgoing s @
     take (takes s (send_calls s)) (frame (newMetaInfo\<lparr>package_type := p, payload_size := of_nat (length item)\<rparr>, item))"
  by (simp add: notify_item_def notifyHost_def serializeItemToMemory_def frame_def newMetaInfo_def)

lemma notify_sends [simp]: "send_calls (notify_item p item s) = Suc (send_calls s)"
  by (simp add: notify_item_def notifyHost_def)

lemma send_items_stream:
  "\<forall>w \<in> set ws. \<forall>i. length (encode w) + 32 \<le> takes s i \<Longrightarrow>
   outgoing (send_items encode ws s) = outgoing s @ stream (map (task_message \<circ> encode) ws)"
proof (induction ws arbitrary: s)
  case (Cons w ws)
  then have "length (frame (task_message (encode w))) \<le> takes s (send_calls s)"
    by (simp add: length_frame task_message_def add.commute)
  with Cons show ?case by (simp add: send_items_def notify_outgoing flip: task_message_def)
qed (simp add: send_items_def)

lemma task_sendable: "length item + 36 \<le> cap \<Longrightarrow> length item < 2 ^ 32 \<Longrightarrow> sendable cap (task_message item)"
  by (simp add: sendable_def task_message_def length_frame newMetaInfo_def unat_of_nat)

lemma tasks_decoded:
  "\<forall>w \<in> set ws. decode (encode w) = Some w \<Longrightarrow> tasks_of decode (map (task_message \<circ> encode) ws) = ws"
  by (induction ws) (simp_all add: tasks_of_def new_task_cb_def task_message_def List.map_filter_simps)

lemma wait_ends: "(up, now) \<in> set looks \<Longrightarrow> 1000 * TIMEOUT \<le> now \<Longrightarrow> wait_connected looks \<noteq> None"
  by (induction looks rule: wait_connected.induct) auto

lemma run_client_decides:
  assumes "\<forall>i < length looks. 500 * i \<le> snd (looks ! i)" and "2 * TIMEOUT < length looks"
  shows "run_client standalone looks late \<noteq> None"
proof -
  have "looks ! (2 * TIMEOUT) \<in> set looks" "1000 * TIMEOUT \<le> snd (looks ! (2 * TIMEOUT))"
    using assms(1) [rule_format, OF assms(2)] assms(2) by simp_all
  then show ?thesis
    using wait_ends [of "fst (looks ! (2 * TIMEOUT))" "snd (looks ! (2 * TIMEOUT))" looks] by (simp add: run_client_def)
qed


definition numbered :: "WorkItem \<Rightarrow> byte list" where
  "numbered w = to_le 4 (unat (itemId w))"

definition by_number :: "WorkItem list \<Rightarrow> byte list \<Rightarrow> WorkItem option" where
  "by_number ws b = List.find (\<lambda>w. numbered w = b) ws"

lemma to_le_length [simp]: "length (numbered w) = 4"
  by (simp add: numbered_def)

lemma filter_items:
  "map_option (map (\<lambda>w. unat (itemId w))) (runOptimizerPipeline default_config (filter_plan None) 7 fresh_builder) = Some [1, 2, 3]"
  by code_simp

lemma three_numbers:
  assumes "map (\<lambda>w. unat (itemId w)) ws = [1, 2, 3]" and "w \<in> set ws"
  shows "by_number ws (numbered w) = Some w"
proof -
  obtain a b c where ws: "ws = [a, b, c]" "unat (itemId a) = 1" "unat (itemId b) = 2" "unat (itemId c) = 3"
    using assms(1) by (auto simp: map_eq_Cons_conv)
  have "distinct (map numbered ws)" unfolding numbered_def ws(1) list.map ws(2-4) by code_simp
  then show ?thesis using assms(2) by (auto simp: ws(1) by_number_def)
qed

lemma length_stream_const: "\<forall>w. length (encode w) = n \<Longrightarrow> length (stream (map (task_message \<circ> encode) ws)) = (32 + n) * length ws"
  by (induction ws) (simp_all add: length_frame task_message_def)


section \<open>What can get lost\<close>

text \<open>A frame the socket takes only in part is not completed: the next one follows its beginning.\<close>

lemma cut_frame_stays_cut:
  assumes "takes s (send_calls s) < length (frame (task_message (encode w)))"
  shows "\<exists>cut. length cut < length (frame (task_message (encode w))) \<and>
    outgoing (send_items encode [w, w'] s) =
      outgoing s @ cut @ take (takes s (Suc (send_calls s))) (frame (task_message (encode w')))"
  using assms unfolding task_message_def
  by (intro exI [of _ "take (takes s (send_calls s)) (frame (task_message (encode w)))"])
    (simp add: send_items_def notify_outgoing notify_sends task_message_def)

text \<open>The header of the frame in which a client introduces itself, as the server gets it, and of its answer
  to a collision.\<close>

definition unit_header :: "protocol \<Rightarrow> TCPMetaInfo" where
  "unit_header P = newMetaInfo\<lparr>package_type := UPDATE_UNIT_TYPE, payload_size := of_nat (length (encode_unit P COMPUTE_UNIT))\<rparr>"

definition collision_header :: "64 word \<Rightarrow> TCPMetaInfo" where
  "collision_header u = newMetaInfo\<lparr>package_type := UUID_COLLISION, src_uuid := u\<rparr>"

lemma client_answers:
  assumes "package_type (fst m) = UPDATE_UNIT_TYPE" "package_type (fst m') = UUID_COLLISION"
    and "\<forall>i. 32 + length (encode_unit P COMPUTE_UNIT) \<le> takes s i"
  shows "outgoing (client_dispatch P u' m' (client_dispatch P u m s)) =
    outgoing s @ frame (unit_header P, encode_unit P COMPUTE_UNIT) @ frame (collision_header u', [])
    \<and> session_uuid (client_dispatch P u' m' (client_dispatch P u m s)) = u'"
proof -
  have "UPDATE_UNIT_TYPE \<noteq> WORK" "UUID_COLLISION \<noteq> WORK" "UUID_COLLISION \<noteq> UPDATE_UNIT_TYPE" "UUID_COLLISION \<noteq> TEXT"
    by code_simp+
  moreover have "32 \<le> takes s i" "length (encode_unit P COMPUTE_UNIT) \<le> takes s i - 32" for i
    using assms(3) [rule_format, of i] by linarith+
  ultimately show ?thesis
    using assms(1,2)
    by (simp add: client_dispatch_def updateUnitInfo_cb_def update_uuid_on_collision_def notify_outgoing notifyHost_def
        length_frame frame_def unit_header_def collision_header_def Let_def)
qed

text \<open>The server books the client under the uuid 0, or, when another client has that already, under the
  uuid that the client draws anew.\<close>

lemma client_registered:
  assumes "up h" "clientUuidMap srv u = None"
  shows "\<exists>i srv'. connect up h [Reply True (unit_header P) t nm, Reply w (collision_header u) t' nm'] srv = (Added i, srv') \<and>
    clientUuidMap srv' (if clientUuidMap srv 0 = None then 0 else u) = Some i"
  using assms
  by (auto simp: connect_def unit_header_def collision_header_def resolve_uuid.simps add_client_def newMetaInfo_def Let_def)

end
