(* ===== verification/Unit_Programs.thy ===== *)
theory Unit_Programs
  imports Client_Session
begin

text \<open>
  The two other programs that connect to the server: the compute unit, \<open>examples/ComputeUnit.cpp\<close>, and the
  test client, \<open>examples/tcp_client_example.cpp\<close>. Their callbacks are those of a \<open>TCPClient\<close>. Unlike the
  database client, the compute unit names itself in what it sends and addresses its answers.
\<close>

section \<open>The compute unit\<close>

datatype work_request = Plan_Request "32 word" | Item_Request "32 word" "32 word" | Other_Request

record unit_protocol =
  request_of :: "byte list \<Rightarrow> work_request"
  encode_result :: "32 word \<Rightarrow> 32 word \<Rightarrow> bool \<Rightarrow> string \<Rightarrow> byte list"
  encode_named :: "unit_code \<Rightarrow> string \<Rightarrow> byte list"

text \<open>The server, the port and the name of the unit.\<close>

definition compute_unit_args :: "(string \<Rightarrow> nat) \<Rightarrow> args \<Rightarrow> (string \<times> nat \<times> string) res" where
  "compute_unit_args parse_size as =
     bindE (takeParseArg ''-ip'' ''[Error] No IP given. Pass a server IP with [-ip]'' ''127.0.0.1'' False as) (\<lambda>(ip, a1).
     bindE (takeParseSize parse_size ''-port'' ''[Error] No Port given. Pass a port with [-port].'' 23232 False a1) (\<lambda>(port, a2).
     bindE (takeParseArg ''-name'' ''[Info] No pretty name given. Set a name with [-name]. Default: [ComputeUnit].'' ''ComputeUnit'' False a2)
       (\<lambda>(pretty, _). Inr (ip, port, pretty))))"

definition unit_info :: "unit_protocol \<Rightarrow> string \<Rightarrow> session \<Rightarrow> TCPMetaInfo" where
  "unit_info U pretty s = newMetaInfo\<lparr>package_type := UPDATE_UNIT_TYPE,
     payload_size := of_nat (length (encode_named U COMPUTE_UNIT pretty)), src_uuid := session_uuid s\<rparr>"

definition unit_update_cb :: "unit_protocol \<Rightarrow> string \<Rightarrow> message \<Rightarrow> session \<Rightarrow> session" where
  "unit_update_cb U pretty m s = notifyHost (fst (serializeItemToMemory (encode_named U COMPUTE_UNIT pretty) (unit_info U pretty s))) s"

definition result_info :: "byte list \<Rightarrow> message \<Rightarrow> session \<Rightarrow> TCPMetaInfo" where
  "result_info item m s = newMetaInfo\<lparr>package_type := TASK_FINISHED, payload_size := of_nat (length item),
     src_uuid := session_uuid s, tgt_uuid := src_uuid (fst m)\<rparr>"

text \<open>As many bytes are sent as the header announces.\<close>

definition send_result :: "byte list \<Rightarrow> message \<Rightarrow> session \<Rightarrow> session" where
  "send_result item m s = notifyHost (take (header_size + unat (payload_size (result_info item m s)))
     (fst (serializeItemToMemory item (result_info item m s)))) s"

definition unit_work_cb :: "unit_protocol \<Rightarrow> message \<Rightarrow> session \<Rightarrow> session" where
  "unit_work_cb U m s = (case request_of U (snd m) of
     Plan_Request p \<Rightarrow> send_result (encode_result U p 0 True ''QueryPlan processed successfully.'') m s
   | Item_Request p i \<Rightarrow> send_result (encode_result U p i True ''WorkItem processed successfully.'') m s
   | Other_Request \<Rightarrow> s)"

definition unit_dispatch :: "unit_protocol \<Rightarrow> string \<Rightarrow> 64 word \<Rightarrow> message \<Rightarrow> session \<Rightarrow> session" where
  "unit_dispatch U pretty u m s = (let p = package_type (fst m) in
     if p = UPDATE_UNIT_TYPE then unit_update_cb U pretty m s
     else if p = WORK then unit_work_cb U m s
     else if p = TEXT then client_text_cb m s
     else if p = UUID_COLLISION then update_uuid_on_collision u m s
     else s)"

section \<open>The test client\<close>

definition op_text :: "OpData \<Rightarrow> string" where
  "op_text x = (case x of
     JoinData _ \<Rightarrow> ''Item contains a Join Operator.''
   | FilterData _ \<Rightarrow> ''Item contains a Filter Operator.''
   | _ \<Rightarrow> ''An unkown entity is packed in this WorkItem.'')"

text \<open>What the callback for work prints, and its answer; an item that cannot be parsed is an empty one.\<close>

definition test_work_cb :: "protocol \<Rightarrow> (byte list \<Rightarrow> OpData) \<Rightarrow> message \<Rightarrow> session \<Rightarrow> string \<times> session" where
  "test_work_cb P op_of m s = (op_text (op_of (snd m)),
     notify_item TASK_FINISHED (let (plan, item) = parse_work P (snd m) in encode_response P plan item ''Your intermediates are ready!'') s)"

definition test_update_cb :: "protocol \<Rightarrow> message \<Rightarrow> session \<Rightarrow> session" where
  "test_update_cb P m = notify_item UPDATE_UNIT_TYPE (encode_unit P COMPUTE_UNIT)"

text \<open>The menu, on the lines typed before the end of the input and whether the last of them is complete: the
  lines it repeats, and whether the connection is closed. At the end of the input \<open>getline\<close> empties the
  line once and then leaves it alone.\<close>

fun test_menu :: "bool \<Rightarrow> string list \<Rightarrow> string list \<times> bool" where
  "test_menu ended [] = (if ended then ([[]], False) else ([], False))"
| "test_menu ended (l # ls) =
     (if l = ''-1'' then ([], False)
      else if to_lower l = ''exit'' then ([l], True)
      else let (out, closed) = test_menu ended ls in (l # out, closed))"

section \<open>What the server gets\<close>

lemma unit_answers:
  assumes "package_type (fst m) = UPDATE_UNIT_TYPE" "32 + length (encode_named U COMPUTE_UNIT pretty) \<le> takes s (send_calls s)"
  shows "outgoing (unit_dispatch U pretty u m s) = outgoing s @ frame (unit_info U pretty s, encode_named U COMPUTE_UNIT pretty)"
  using assms
  by (simp add: unit_dispatch_def unit_update_cb_def notifyHost_def serializeItemToMemory_def frame_def length_frame unit_info_def
      header_size_def newMetaInfo_def)

text \<open>The compute unit is booked under the uuid it drew, when that is free; compare \<open>client_registered\<close>.\<close>

lemma unit_registered:
  assumes "up h" "clientUuidMap srv (session_uuid s) = None"
  shows "\<exists>i srv'. connect up h [Reply True (unit_info U pretty s) t nm] srv = (Added i, srv') \<and>
    clientUuidMap srv' (session_uuid s) = Some i"
  using assms
  by (auto simp: connect_def unit_info_def resolve_uuid.simps add_client_def newMetaInfo_def Let_def)

text \<open>The answer to a request goes back to the client that sent it.\<close>

lemma answer_addressed:
  assumes "package_type (fst m) = WORK" "request_of U (snd m) = Item_Request p i"
    and "r = encode_result U p i True ''WorkItem processed successfully.''" "length r < 2 ^ 32"
    and "32 + length r \<le> takes s (send_calls s)"
  shows "outgoing (unit_dispatch U pretty u m s) = outgoing s @ frame (result_info r m s, r)"
    "tgt_uuid (result_info r m s) = src_uuid (fst m)" "src_uuid (result_info r m s) = session_uuid s"
proof -
  have "WORK \<noteq> UPDATE_UNIT_TYPE" by code_simp
  then show "outgoing (unit_dispatch U pretty u m s) = outgoing s @ frame (result_info r m s, r)"
    using assms
    by (simp add: unit_dispatch_def unit_work_cb_def send_result_def notifyHost_def serializeItemToMemory_def frame_def length_frame
        result_info_def header_size_def unat_of_nat newMetaInfo_def)
qed (simp_all add: result_info_def)

text \<open>The menu closes the connection exactly when a line reads \<open>exit\<close>, in any case, before one that reads \<open>-1\<close>.\<close>

lemma test_menu_closes:
  "snd (test_menu ended ls) \<longleftrightarrow> (\<exists>l \<in> set (takeWhile (\<lambda>l. l \<noteq> ''-1'') ls). to_lower l = ''exit'')"
  by (induction ls) (auto split: prod.splits)

end
