(* ===== verification/First_Late.thy ===== *)
theory First_Late
  imports Late_Materialize
begin

text \<open>
  \<open>putLateMaterialization\<close>, the first version of the late materialization in
  \<open>src/ir_optimizations/ir_optimizations.cpp\<close>, which the example program \<open>examples/main.cpp\<close> still runs. A
  call keeps four maps: the columns its children provide and the position lists it has just updated, and
  the columns and position lists known from below. What an operator reads is fetched again for every
  reader, and the materialization of a column is made with the default flag, as a position list.
\<close>

section \<open>The pass\<close>

text \<open>The maps \<open>matChildren\<close>, \<open>curPos\<close> (here \<open>newPos\<close>), \<open>allPrevMat\<close> and \<open>pPos\<close> of a call, and the nodes made so far.\<close>

record first_late =
  matChildren :: "colkey nmap"
  newPos :: "Table nmap"
  allPrevMat :: "colkey nmap"
  pPos :: "Table nmap"
  fheap :: heap

text \<open>One column needed later, below a child with a position list: the list of its table is updated once.\<close>

definition first_column :: "nat \<Rightarrow> Table set \<Rightarrow> TableColumn \<Rightarrow> first_late \<Rightarrow> first_late option" where
  "first_column child T c s =
     (if ctable c \<in> T \<and> look (newPos s) (ctable c) = None then
        case look (pPos s) (ctable c) of
          Some prev \<Rightarrow>
            do { flt \<leftarrow> filter_column (fheap s) c child;
                 pc \<leftarrow> column_of_table (data_at (fheap s) prev) (ctable c);
                 Some (s\<lparr>newPos := (newPos s)(ctable c \<mapsto> Some (length (fheap s))),
                   fheap := fheap s @ [mat_cell pc flt c True prev child]\<rparr>) }
        | None \<Rightarrow> Some (s\<lparr>newPos := (newPos s)(ctable c \<mapsto> Some child), pPos := touch (ctable c) (pPos s)\<rparr>)
      else Some s)"

fun first_columns :: "nat \<Rightarrow> Table set \<Rightarrow> TableColumn list \<Rightarrow> first_late \<Rightarrow> first_late option" where
  "first_columns child T [] s = Some s"
| "first_columns child T (c # cs) s = do { s' \<leftarrow> first_column child T c s; first_columns child T cs s' }"

definition provide :: "TableColumn \<Rightarrow> nat \<Rightarrow> first_late \<Rightarrow> first_late" where
  "provide c a s = s\<lparr>matChildren := (matChildren s)(col_key c \<mapsto> Some a)\<rparr>"

definition first_register :: "IrData \<Rightarrow> nat \<Rightarrow> first_late \<Rightarrow> first_late option" where
  "first_register d child s =
     (if \<not> outputsMatVals d then Some s
      else if is_group d then Some (case group_aggResultCol d of Some c \<Rightarrow> provide c child s | None \<Rightarrow> s)
      else map_option (\<lambda>c. provide c child s) (at (outputCols d) 0))"

text \<open>Rewiring: a column of a child, or the column fetched under the latest position list of its table, or
  a materialization from further below, or nothing (reported on the console). The filtering column is the
  first output of the position list, also when that is a join and the table is on its other side.\<close>

fun first_rewire :: "TableColumn list \<Rightarrow> first_late \<Rightarrow> (nat list \<times> TableColumn list \<times> first_late) option" where
  "first_rewire [] s = Some ([], [], s)"
| "first_rewire (c # cs) s0 =
     (let s = s0\<lparr>matChildren := touch (col_key c) (matChildren s0)\<rparr> in
      case look (matChildren s) (col_key c) of
        Some a \<Rightarrow> do { (as, ms, s') \<leftarrow> first_rewire cs s; Some (a # as, ms, s') }
      | None \<Rightarrow>
          let s1 = s\<lparr>pPos := touch (ctable c) (pPos s)\<rparr> in
          (case look (pPos s1) (ctable c) of
             Some p \<Rightarrow>
               do { pc \<leftarrow> at (outputCols (data_at (fheap s1) p)) 0;
                    let f = length (fheap s1);
                    (as, ms, s') \<leftarrow> first_rewire cs (s1\<lparr>fheap := fheap s1 @ [fetch_cell c, mat_cell c pc c True f p]\<rparr>);
                    Some (Suc f # as, ms, s') }
           | None \<Rightarrow>
               let s2 = s1\<lparr>allPrevMat := touch (col_key c) (allPrevMat s1)\<rparr> in
               (case look (allPrevMat s2) (col_key c) of
                  Some a \<Rightarrow> do { (as, ms, s') \<leftarrow> first_rewire cs s2; Some (a # as, ms, s') }
                | None \<Rightarrow> do { (as, ms, s') \<leftarrow> first_rewire cs s2; Some (as, c # ms, s') })))"

text \<open>What this call found enters the maps of the subtree; then the node itself.\<close>

definition gather :: "first_late \<Rightarrow> first_late" where
  "gather s = s\<lparr>pPos := pPos s ++ newPos s, allPrevMat := allPrevMat s ++ matChildren s\<rparr>"

definition first_finish ::
    "IrData \<Rightarrow> ColumnSet \<Rightarrow> nat list \<Rightarrow> Table set \<Rightarrow> first_late \<Rightarrow>
     (nat \<times> Table set \<times> TableColumn list \<times> first_late) option" where
  "first_finish d inputOfParent ch T s =
     (if is_fetch d then
        let d' = (if base_fetch d then name_base inputOfParent d else d)
        in Some (length (fheap s), (if base_fetch d then insert (input_table d') T else T), [],
             s\<lparr>fheap := fheap s @ [\<lparr>cdata = d', cchildren = ch\<rparr>]\<rparr>)
      else
        do { (as, ms, s') \<leftarrow> first_rewire (inputColumns d) s;
             Some (length (fheap s'), T, ms, s'\<lparr>fheap := fheap s' @ [\<lparr>cdata = d, cchildren = as\<rparr>]\<rparr>) })"

definition no_maps :: "heap \<Rightarrow> first_late" where
  "no_maps h = \<lparr>matChildren = Map.empty, newPos = Map.empty, allPrevMat = Map.empty, pPos = Map.empty, fheap = h\<rparr>"

text \<open>The maps of a child are merged into those of its parent, which keeps the entries it has.\<close>

definition merge_below :: "first_late \<Rightarrow> first_late \<Rightarrow> first_late" where
  "merge_below r s = s\<lparr>pPos := pPos r ++ pPos s, allPrevMat := allPrevMat r ++ allPrevMat s, fheap := fheap r\<rparr>"

fun first_node :: "plan \<Rightarrow> ColumnSet \<Rightarrow> ColumnSet \<Rightarrow> heap \<Rightarrow> (nat \<times> Table set \<times> TableColumn list \<times> first_late) option"
and first_children ::
    "plan list \<Rightarrow> ColumnSet \<Rightarrow> ColumnSet \<Rightarrow> Table set \<Rightarrow> first_late \<Rightarrow>
     (nat list \<times> Table set \<times> TableColumn list \<times> first_late) option" where
  "first_node (Plan d cs) columnsNeededLater inputOfParent h =
     do { (ch, T, miss, s) \<leftarrow> first_children cs (columns_insert (inputColumns d) columnsNeededLater)
            (column_set (inputColumns d)) {} (no_maps h);
          (a, T', miss', s') \<leftarrow> first_finish d inputOfParent ch T (gather s);
          Some (a, T', miss @ miss', s') }"
| "first_children [] needed this T s = Some ([], T, [], s)"
| "first_children (c # cs) needed this T s =
     do { (a, Tc, miss, r) \<leftarrow> first_node c needed this (fheap s);
          let d = data_at (fheap r) a;
          s2 \<leftarrow> (if outputsPosList d then first_columns a Tc needed (merge_below r s) else Some (merge_below r s));
          s3 \<leftarrow> first_register d a s2;
          (as, T', miss', s') \<leftarrow> first_children cs needed this (T \<union> Tc) s3;
          Some (a # as, T', miss @ miss', s') }"

definition putLateMaterialization :: "plan \<Rightarrow> (nat \<times> TableColumn list \<times> heap) option" where
  "putLateMaterialization p = map_option (\<lambda>(a, _, miss, s). (a, miss, fheap s)) (first_node p [] [] [])"

section \<open>What the pass establishes\<close>

text \<open>Both pairs of maps are kept like the maps of the later versions.\<close>

definition recent :: "first_late \<Rightarrow> late" where
  "recent s = \<lparr>curMat = matChildren s, curPos = newPos s, lheap = fheap s\<rparr>"

definition known :: "first_late \<Rightarrow> late" where
  "known s = \<lparr>curMat = allPrevMat s, curPos = pPos s, lheap = fheap s\<rparr>"

definition first_inv :: "heap \<Rightarrow> nat \<Rightarrow> bool \<Rightarrow> first_late \<Rightarrow> bool" where
  "first_inv h0 n w s \<longleftrightarrow> late_inv h0 n w (recent s) \<and> late_inv h0 n w (known s)"

lemma first_invD:
  assumes "first_inv h0 n w s"
  shows "extends h0 (fheap s)" "heap_ok (fheap s)" "cols.reg_ok (fheap s) (look (matChildren s))"
    "poss.reg_ok (fheap s) (look (newPos s))" "cols.reg_ok (fheap s) (look (allPrevMat s))"
    "poss.reg_ok (fheap s) (look (pPos s))" "w \<Longrightarrow> wired_from n (fheap s)"
  using assms by (simp_all add: first_inv_def late_inv_def recent_def known_def)

lemma first_invI:
  assumes "extends h0 (fheap s)" "heap_ok (fheap s)" "cols.reg_ok (fheap s) (look (matChildren s))"
    "poss.reg_ok (fheap s) (look (newPos s))" "cols.reg_ok (fheap s) (look (allPrevMat s))"
    "poss.reg_ok (fheap s) (look (pPos s))" "w \<Longrightarrow> wired_from n (fheap s)"
  shows "first_inv h0 n w s"
  using assms by (simp add: first_inv_def late_inv_def recent_def known_def)

lemma first_inv_weaken: "first_inv h0 n w s \<Longrightarrow> first_inv h0 n (w \<and> v) s"
  by (simp add: first_inv_def late_inv_def)

lemma merged_maps:
  "cols.reg_ok h (look m) \<Longrightarrow> cols.reg_ok h (look m') \<Longrightarrow> cols.reg_ok h (look (m ++ m'))"
  "poss.reg_ok h (look p) \<Longrightarrow> poss.reg_ok h (look p') \<Longrightarrow> poss.reg_ok h (look (p ++ p'))"
  by (simp_all add: cols.reg_ok_def poss.reg_ok_def look_merge)

lemma first_inv_alloc:
  assumes "first_inv h0 n w s" "ir_ok (cdata c)" "\<forall>b \<in> set (cchildren c). b < length (fheap s)"
    "w \<Longrightarrow> wired (fheap s @ [c]) (length (fheap s))"
  shows "first_inv h0 n w (s\<lparr>fheap := fheap s @ [c]\<rparr>)"
  using assms late_inv_alloc [of h0 n w "recent s" c] late_inv_alloc [of h0 n w "known s" c]
  by (simp add: first_inv_def recent_def known_def)

lemma first_mat_step:
  assumes inv: "first_inv h0 n w s" and src: "serves (fheap s) src (col_key idx)"
    and ch: "child < length (fheap s)" "outputsPosList (data_at (fheap s) child)"
      "flt \<in> set (outputCols (data_at (fheap s) child))"
  shows "first_inv h0 n w (s\<lparr>fheap := fheap s @ [mat_cell idx flt out pos src child]\<rparr>)"
  using late_mat_step(1) [of h0 n w "recent s" src idx child flt out pos] late_mat_step(1) [of h0 n w "known s" src idx child flt out pos]
    assms by (simp add: first_inv_def recent_def known_def)

lemma first_inv_maps:
  assumes "first_inv h0 n w s" "fheap s' = fheap s"
    "cols.reg_ok (fheap s) (look (matChildren s'))" "poss.reg_ok (fheap s) (look (newPos s'))"
    "cols.reg_ok (fheap s) (look (allPrevMat s'))" "poss.reg_ok (fheap s) (look (pPos s'))"
  shows "first_inv h0 n w s'"
  using first_invD [OF assms(1)] assms(2-) by (intro first_invI) simp_all

lemma first_column_inv:
  assumes run: "first_column child T c s = Some s'" and inv: "first_inv h0 n w s"
    and ch: "child < length (fheap s)" "outputsPosList (data_at (fheap s) child)"
  shows "first_inv h0 n w s' \<and> extends (fheap s) (fheap s')"
proof (cases "ctable c \<in> T \<and> look (newPos s) (ctable c) = None")
  case False
  then show ?thesis using run inv by (simp add: first_column_def split: if_splits)
next
  case True
  note i = first_invD [OF inv]
  show ?thesis
  proof (cases "look (pPos s) (ctable c)")
    case None
    with True run have s': "s' = s\<lparr>newPos := (newPos s)(ctable c \<mapsto> Some child), pPos := touch (ctable c) (pPos s)\<rparr>"
      by (simp add: first_column_def)
    have "holds_positions (fheap s) child (ctable c)" using ch by (simp add: holds_positions_def)
    then have "first_inv h0 n w s'"
      using i by (intro first_inv_maps [OF inv]) (simp_all add: s' poss.reg_update)
    then show ?thesis by (simp add: s')
  next
    case (Some prev)
    with True run obtain flt pc where f: "filter_column (fheap s) c child = Some flt"
      and pc: "column_of_table (data_at (fheap s) prev) (ctable c) = Some pc"
      and s': "s' = s\<lparr>newPos := (newPos s)(ctable c \<mapsto> Some (length (fheap s))), fheap := fheap s @ [mat_cell pc flt c True prev child]\<rparr>"
      by (auto simp: first_column_def option_bind_eq_Some)
    let ?s = "s\<lparr>fheap := fheap s @ [mat_cell pc flt c True prev child]\<rparr>"
    have "serves (fheap s) prev (col_key pc)"
      by (rule output_serves [OF column_of_table_in [OF pc] poss.reg_bound [OF i(6) Some]])
    from first_mat_step [OF inv this ch filter_column_in [OF f], of c True] have st: "first_inv h0 n w ?s" .
    have "holds_positions (fheap ?s) (length (fheap s)) (ctable c)"
      by (simp add: holds_positions_def heap_simps mat_cell_def ir_simps)
    then have "first_inv h0 n w s'"
      using first_invD [OF st] by (intro first_inv_maps [OF st]) (simp_all add: s' poss.reg_update)
    then show ?thesis by (simp add: s')
  qed
qed

lemma first_columns_inv:
  assumes "first_columns child T cs s = Some s'" "first_inv h0 n w s"
    and "child < length (fheap s)" "outputsPosList (data_at (fheap s) child)"
  shows "first_inv h0 n w s' \<and> extends (fheap s) (fheap s')"
  using assms
proof (induction cs arbitrary: s)
  case (Cons c cs)
  then obtain s1 where s1: "first_column child T c s = Some s1" "first_columns child T cs s1 = Some s'"
    by (auto simp: option_bind_eq_Some)
  have i: "first_inv h0 n w s1" "extends (fheap s) (fheap s1)"
    using first_column_inv [OF s1(1) Cons.prems(2-4)] by auto
  have "child < length (fheap s1)" "outputsPosList (data_at (fheap s1) child)"
    using Cons.prems(3,4) extends_length [OF i(2)] extends_at [OF i(2) Cons.prems(3)] by auto
  with Cons.IH [OF s1(2) i(1)] show ?case using i(2) extends_trans by blast
qed simp

lemma first_register_inv:
  assumes "first_register (data_at (fheap s) a) a s = Some s'" "first_inv h0 n w s" "a < length (fheap s)"
  shows "first_inv h0 n w s' \<and> fheap s' = fheap s"
proof -
  note i = first_invD [OF assms(2)]
  have "s' = s \<or> (\<exists>c \<in> set (outputCols (data_at (fheap s) a)). s' = provide c a s)"
    using assms(1) by (auto simp: first_register_def group_aggResultCol_def split: if_splits option.splits OpInfo.splits)
  moreover have "first_inv h0 n w (provide c a s)" if "c \<in> set (outputCols (data_at (fheap s) a))" for c
    using i output_serves [OF that assms(3)]
    by (intro first_inv_maps [OF assms(2)]) (simp_all add: provide_def cols.reg_update)
  ultimately show ?thesis using assms(2) by (auto simp: provide_def)
qed

lemma first_inv_touch:
  assumes "first_inv h0 n w s"
  shows "first_inv h0 n w (s\<lparr>matChildren := touch k (matChildren s)\<rparr>)"
    "first_inv h0 n w (s\<lparr>pPos := touch t (pPos s)\<rparr>)"
    "first_inv h0 n w (s\<lparr>allPrevMat := touch k (allPrevMat s)\<rparr>)"
  using first_invD [OF assms] by (intro first_inv_maps [OF assms]; simp)+

text \<open>Fetching a column under a position list.\<close>

lemma first_fetch_step:
  fixes c :: TableColumn
  assumes inv: "first_inv h0 n w s" and p: "p < length (fheap s)" "outputsPosList (data_at (fheap s) p)"
    "pc \<in> set (outputCols (data_at (fheap s) p))"
  defines "s' \<equiv> s\<lparr>fheap := fheap s @ [fetch_cell c, mat_cell c pc c True (length (fheap s)) p]\<rparr>"
  shows "first_inv h0 n w s'" "serves (fheap s') (Suc (length (fheap s))) (col_key c)" "extends (fheap s) (fheap s')"
proof -
  let ?s1 = "s\<lparr>fheap := fheap s @ [fetch_cell c]\<rparr>"
  have s1: "first_inv h0 n w ?s1"
    using first_inv_alloc [OF inv, of "fetch_cell c"] fetch_cell_wired by (simp add: fetch_cell_def)
  have "serves (fheap ?s1) (length (fheap s)) (col_key c)" using fetch_cell_serves by simp
  from first_mat_step [OF s1 this, of p pc c True] p
  show "first_inv h0 n w s'" by (simp add: s'_def heap_simps)
  have "serves ((fheap s @ [fetch_cell c]) @ [mat_cell c pc c True (length (fheap s)) p]) (length (fheap s @ [fetch_cell c])) (col_key c)"
    by (rule mat_cell_serves)
  then show "serves (fheap s') (Suc (length (fheap s))) (col_key c)" by (simp add: s'_def)
  show "extends (fheap s) (fheap s')" by (simp add: s'_def)
qed

lemma first_rewire_inv:
  assumes "first_rewire ins s = Some (as, ms, s')" "first_inv h0 n w s"
  shows "first_inv h0 n w s' \<and> extends (fheap s) (fheap s') \<and> (\<forall>b \<in> set as. b < length (fheap s')) \<and>
    (ms = [] \<longrightarrow> list_all2 (\<lambda>b c. serves (fheap s') b (col_key c)) as ins)"
  using assms
proof (induction ins arbitrary: s as ms)
  case (Cons c ins)
  let ?s = "s\<lparr>matChildren := touch (col_key c) (matChildren s)\<rparr>"
  let ?s1 = "?s\<lparr>pPos := touch (ctable c) (pPos s)\<rparr>"
  let ?s2 = "?s1\<lparr>allPrevMat := touch (col_key c) (allPrevMat s)\<rparr>"
  note i = first_invD [OF Cons.prems(2)]
  have inv: "first_inv h0 n w ?s" "first_inv h0 n w ?s1" "first_inv h0 n w ?s2"
    using first_inv_touch(1) [OF Cons.prems(2), of "col_key c"] first_inv_touch(2) [of h0 n w ?s "ctable c"]
      first_inv_touch(3) [of h0 n w ?s1 "col_key c"] by simp_all
  have found: ?case if r: "first_rewire ins t = Some (as1, ms, s')" and t: "first_inv h0 n w t" "extends (fheap s) (fheap t)"
    and a: "as = a # as1" "serves (fheap t) a (col_key c)" for t a as1
  proof -
    note ih = Cons.IH [OF r t(1)]
    have "serves (fheap s') a (col_key c)" using ih a(2) cols.good_extends by blast
    then show ?thesis using ih a(1) extends_trans [OF t(2)] by (auto simp: serves_def)
  qed
  show ?case
  proof (cases "look (matChildren s) (col_key c)")
    case (Some a)
    with Cons.prems(1) obtain as1 where r: "first_rewire ins ?s = Some (as1, ms, s')" "as = a # as1"
      by (auto simp: Let_def option_bind_eq_Some)
    show ?thesis by (rule found [OF r(1) inv(1) _ r(2)]) (use cols.reg_lookup [OF i(3) Some] in simp_all)
  next
    case M: None
    show ?thesis
    proof (cases "look (pPos s) (ctable c)")
      case (Some p)
      let ?t = "\<lambda>pc. ?s1\<lparr>fheap := fheap ?s1 @ [fetch_cell c, mat_cell c pc c True (length (fheap ?s1)) p]\<rparr>"
      from Some M Cons.prems(1) obtain pc as1 where pc: "at (outputCols (data_at (fheap s) p)) 0 = Some pc"
        and r: "first_rewire ins (?t pc) = Some (as1, ms, s')" "as = Suc (length (fheap s)) # as1"
        by (auto simp: Let_def option_bind_eq_Some)
      have p: "p < length (fheap ?s1)" "outputsPosList (data_at (fheap ?s1) p)"
        using poss.reg_lookup [OF i(6) Some] by (auto simp: holds_positions_def)
      have "pc \<in> set (outputCols (data_at (fheap ?s1) p))" using pc by (auto simp: at_Some_iff)
      note st = first_fetch_step [OF inv(2) p this, of c]
      show ?thesis by (rule found [OF r(1) st(1) _ r(2)]) (use st(2,3) in simp_all)
    next
      case P: None
      show ?thesis
      proof (cases "look (allPrevMat s) (col_key c)")
        case (Some a)
        with M P Cons.prems(1) obtain as1 where r: "first_rewire ins ?s2 = Some (as1, ms, s')" "as = a # as1"
          by (auto simp: Let_def option_bind_eq_Some)
        show ?thesis by (rule found [OF r(1) inv(3) _ r(2)]) (use cols.reg_lookup [OF i(5) Some] in simp_all)
      next
        case None
        with M P Cons.prems(1) obtain ms1 where r: "first_rewire ins ?s2 = Some (as, ms1, s')" "ms = c # ms1"
          by (auto simp: Let_def option_bind_eq_Some)
        show ?thesis using Cons.IH [OF r(1) inv(3)] r(2) by auto
      qed
    qed
  qed
qed simp

lemma first_finish_inv:
  assumes fin: "first_finish d par ch T s = Some (a, T', miss, s')" and inv: "first_inv h0 n w s"
    and d: "ir_ok d" "\<not> is_mat d" and ch: "\<forall>b \<in> set ch. b < length (fheap s)"
  shows "first_inv h0 n (w \<and> miss = []) s' \<and> a < length (fheap s') \<and> extends (fheap s) (fheap s')"
proof (cases "is_fetch d")
  case True
  then obtain d1 where s': "s' = s\<lparr>fheap := fheap s @ [\<lparr>cdata = d1, cchildren = ch\<rparr>]\<rparr>" "a = length (fheap s)"
      "miss = []" and d1: "leaf_ok d1"
    using fin d(1) name_base_leaf [of d par] by (auto simp: first_finish_def leaf_ok_def Let_def split: if_splits)
  have "first_inv h0 n w s'"
    unfolding s' using d1 ch leaf_wired [of "\<lparr>cdata = d1, cchildren = ch\<rparr>"]
    by (intro first_inv_alloc [OF inv]) (simp_all add: leaf_ok_def)
  then show ?thesis using s' by simp
next
  case False
  with fin obtain as s1 where r: "first_rewire (inputColumns d) s = Some (as, miss, s1)"
    and s': "s' = s1\<lparr>fheap := fheap s1 @ [\<lparr>cdata = d, cchildren = as\<rparr>]\<rparr>" "a = length (fheap s1)"
    by (auto simp: first_finish_def option_bind_eq_Some)
  note rw = first_rewire_inv [OF r inv]
  have i: "first_inv h0 n (w \<and> miss = []) s1" using rw first_inv_weaken by blast
  have "wired (fheap s1 @ [\<lparr>cdata = d, cchildren = as\<rparr>]) (length (fheap s1))" if "miss = []"
  proof -
    have "list_all2 (\<lambda>b c. serves (fheap s1) b (col_key c)) as (inputColumns d)"
      using rw that by simp
    then have "list_all2 (\<lambda>b c. serves (fheap s1 @ [\<lparr>cdata = d, cchildren = as\<rparr>]) b (col_key c)) as (inputColumns d)"
      by (rule list_all2_mono) (rule cols.good_extends [OF _ extends_append])
    then show ?thesis using d(2) by (simp add: wired_def heap_simps)
  qed
  then have "first_inv h0 n (w \<and> miss = []) s'"
    unfolding s' using d(1) rw by (intro first_inv_alloc [OF i]) simp_all
  then show ?thesis using s' rw extends_trans [OF _ extends_append] by auto
qed

lemma gather_inv:
  assumes "first_inv h0 n w s"
  shows "first_inv h0 n w (gather s)"
proof -
  note i = first_invD [OF assms]
  show ?thesis
    using i(3,4) merged_maps(1) [OF i(5,3)] merged_maps(2) [OF i(6,4)]
    by (intro first_inv_maps [OF assms]) (simp_all add: gather_def)
qed

lemma merge_below_inv:
  assumes inv: "first_inv h0 n w s" and call: "first_inv (fheap s) (length (fheap s)) v r"
  shows "first_inv h0 n (w \<and> v) (merge_below r s)"
proof -
  note c = first_invD [OF call] and i = first_invD [OF inv]
  have w: "wired_from n (fheap r)" if "w" "v"
    using wired_from_trans [OF i(7) c(1) c(7)] that by blast
  note old = cols.reg_extends [OF i(3) c(1)] poss.reg_extends [OF i(4) c(1)] cols.reg_extends [OF i(5) c(1)]
    poss.reg_extends [OF i(6) c(1)]
  show ?thesis
  proof (rule first_invI)
    show "extends h0 (fheap (merge_below r s))" using extends_trans [OF i(1) c(1)] by (simp add: merge_below_def)
  qed (use w c(2) old merged_maps(1) [OF c(5) old(3)] merged_maps(2) [OF c(6) old(4)] in \<open>simp_all add: merge_below_def\<close>)
qed

lemma first_child_step:
  assumes inv: "first_inv h0 n w s" and call: "first_inv (fheap s) (length (fheap s)) v r" "a < length (fheap r)"
    and pos: "(if outputsPosList (data_at (fheap r) a) then first_columns a Tc needed (merge_below r s)
        else Some (merge_below r s)) = Some s2"
    and reg: "first_register (data_at (fheap r) a) a s2 = Some s3"
  shows "first_inv h0 n (w \<and> v) s3 \<and> extends (fheap s) (fheap s3) \<and> a < length (fheap s3)"
proof -
  have m: "fheap (merge_below r s) = fheap r" by (simp add: merge_below_def)
  have s1: "first_inv h0 n (w \<and> v) (merge_below r s)" by (rule merge_below_inv [OF inv call(1)])
  have s2: "first_inv h0 n (w \<and> v) s2 \<and> extends (fheap r) (fheap s2)"
  proof (cases "outputsPosList (data_at (fheap r) a)")
    case True
    with pos have run: "first_columns a Tc needed (merge_below r s) = Some s2" by simp
    show ?thesis using first_columns_inv [OF run s1] True call(2) m by simp
  next
    case False
    with pos s1 m show ?thesis by simp
  qed
  have a2: "a < length (fheap s2)" "data_at (fheap s2) a = data_at (fheap r) a"
    using call(2) s2 extends_length extends_at by fastforce+
  have "first_inv h0 n (w \<and> v) s3 \<and> fheap s3 = fheap s2"
    by (rule first_register_inv [OF _ _ a2(1)]) (use a2(2) reg s2 in simp_all)
  then show ?thesis using a2 s2 first_invD(1) [OF call(1)] extends_trans by metis
qed

lemma no_maps_inv: "heap_ok h \<Longrightarrow> first_inv h (length h) True (no_maps h)"
  by (intro first_invI) (simp_all add: no_maps_def wired_from_def)

lemma first_late_inv:
  "first_node p N par h = Some (a, T, miss, s') \<Longrightarrow> plan_in p \<Longrightarrow> heap_ok h \<Longrightarrow>
   first_inv h (length h) (miss = []) s' \<and> a < length (fheap s')"
  "first_children cs N this Ts s = Some (as, T', miss', s'') \<Longrightarrow> \<forall>c \<in> set cs. plan_in c \<Longrightarrow>
   first_inv h0 n w s \<Longrightarrow>
   first_inv h0 n (w \<and> miss' = []) s'' \<and> extends (fheap s) (fheap s'') \<and> (\<forall>b \<in> set as. b < length (fheap s''))"
proof (induction p N par h and cs N this Ts s arbitrary: a T miss s' and as T' miss' s'' h0 n w
    rule: first_node_first_children.induct)
  case (1 d cs N par h)
  from "1.prems"(1) obtain ch T1 miss1 s1 miss2 where
    c: "first_children cs (columns_insert (inputColumns d) N) (column_set (inputColumns d)) {} (no_maps h) = Some (ch, T1, miss1, s1)"
    and f: "first_finish d par ch T1 (gather s1) = Some (a, T, miss2, s')" and miss: "miss = miss1 @ miss2"
    by (auto simp: option_bind_eq_Some)
  have "\<forall>c \<in> set cs. plan_in c" "ir_ok d" "\<not> is_mat d" using "1.prems"(2) by auto
  with "1.IH" [OF c _ no_maps_inv [OF "1.prems"(3)]]
  have i: "first_inv h (length h) (miss1 = []) s1" "\<forall>b \<in> set ch. b < length (fheap s1)" and d: "ir_ok d" "\<not> is_mat d"
    by auto
  have "\<forall>b \<in> set ch. b < length (fheap (gather s1))" using i(2) by (simp add: gather_def)
  from first_finish_inv [OF f gather_inv [OF i(1)] d this] show ?case using miss by simp
next
  case (2 N this Ts s)
  then show ?case by simp
next
  case (3 c cs N this Ts s)
  from "3.prems"(1) obtain a Tc miss1 r s2 s3 as2 miss2 where
    c: "first_node c N this (fheap s) = Some (a, Tc, miss1, r)"
    and m: "(if outputsPosList (data_at (fheap r) a) then first_columns a Tc N (merge_below r s)
        else Some (merge_below r s)) = Some s2"
    and g: "first_register (data_at (fheap r) a) a s2 = Some s3"
    and cs: "first_children cs N this (Ts \<union> Tc) s3 = Some (as2, T', miss2, s'')"
    and e: "as = a # as2" "miss' = miss1 @ miss2"
    by (auto simp: Let_def option_bind_eq_Some)
  have hok: "heap_ok (fheap s)" using "3.prems"(3) by (rule first_invD)
  have one: "first_inv (fheap s) (length (fheap s)) (miss1 = []) r" "a < length (fheap r)"
    using "3.IH"(1) [OF c] "3.prems"(2) hok by auto
  have st: "first_inv h0 n (w \<and> miss1 = []) s3" "extends (fheap s) (fheap s3)" "a < length (fheap s3)"
    using first_child_step [OF "3.prems"(3) one m g] by auto
  have rest: "first_inv h0 n ((w \<and> miss1 = []) \<and> miss2 = []) s''" "extends (fheap s3) (fheap s'')"
      "\<forall>b \<in> set as2. b < length (fheap s'')"
    using "3.IH"(2) [OF c refl refl refl refl m g cs, of h0 n "w \<and> miss1 = []"] "3.prems"(2) st(1) by auto
  then show ?case
    using st e extends_length [OF rest(2)] extends_trans [OF st(2) rest(2)] by (auto simp: conj_assoc)
qed

lemma first_wired:
  assumes "putLateMaterialization p = Some (a, miss, h)" "plan_in p"
  shows "heap_ok h \<and> a < length h \<and> (miss = [] \<longrightarrow> (\<forall>b < length h. wired h b))"
proof -
  obtain T s where "first_node p [] [] [] = Some (a, T, miss, s)" "h = fheap s"
    using assms(1) by (auto simp: putLateMaterialization_def)
  with first_late_inv(1) [OF _ assms(2)] show ?thesis
    using first_invD by (fastforce simp: wired_from_def)
qed



section \<open>A join whose second table is read\<close>

definition supplier_col :: "string \<Rightarrow> TableColumn" where
  "supplier_col c = mkColumn (table_of ''supplier'') c TYPE_INTEGER None"

definition table_leaf :: "string \<Rightarrow> plan" where
  "table_leaf t = Plan (fetch_create (mkColumn (table_of t) [] TYPE_INTEGER None) True) []"

definition two_tables :: plan where
  "two_tables = Plan (select_create [lo_col ''lo_revenue'', supplier_col ''s_nation''] None [])
     [Plan (join_create (lo_col ''lo_suppkey'') (supplier_col ''s_suppkey'') (lo_col ''lo_suppkey'') INNER_JOIN COMP_EQ)
        [table_leaf ''lineorder'', table_leaf ''supplier'']]"

definition mat_inputs :: "heap \<Rightarrow> string list list" where
  "mat_inputs h = map (\<lambda>c. map columnName (inputColumns (cdata c))) (filter (\<lambda>c. is_mat (cdata c)) h)"

text \<open>The first version filters the column of the supplier with the positions of the line orders, since it
  takes the first output of the join; the second version takes the output of the right table.\<close>

lemma first_version_takes_wrong_side:
  "map_option (\<lambda>(a, miss, h). mat_inputs h) (putLateMaterialization two_tables) =
     Some [[''lo_revenue'', ''lo_suppkey''], [''s_nation'', ''lo_suppkey'']]"
  "map_option (\<lambda>(a, miss, h). mat_inputs h) (putLateMaterializationV2 two_tables) =
     Some [[''lo_revenue'', ''lo_suppkey''], [''s_nation'', ''s_suppkey'']]"
  by code_simp+

end
