(* ===== verification/Example_Programs.thy ===== *)
theory Example_Programs
  imports Pipeline First_Late Sql_To_Ast Abstract_To_Ir Plan_Dot
begin

text \<open>
  The example programs that run the optimizer without a client: \<open>examples/main.cpp\<close> takes one SQL query
  through four materialization strategies, \<open>examples/all_ssbs_both_paths.cpp\<close> takes the benchmark queries
  through both front ends and three strategies to graph files, \<open>examples/query_parse_test.cpp\<close> takes their
  JSON plans to a sequence. The files they read are given by \<open>src/util/file_reader.cpp\<close>. The content of a
  file, the SQL parser and the JSON parser are parameters; the graph files of the passes in between and the
  texts on the console are left out.
\<close>

section \<open>Reading files\<close>

text \<open>A file that cannot be opened reads as empty.\<close>

type_synonym files = "string \<Rightarrow> string option"

definition read_ssb_query :: "files \<Rightarrow> string \<Rightarrow> string \<Rightarrow> string" where
  "read_ssb_query fs base_dir file_name = (case fs (base_dir @ file_name) of Some c \<Rightarrow> c | None \<Rightarrow> [])"

text \<open>\<open>NaN\<close> is no JSON; it is replaced in the whole text, in strings as well.\<close>

function replace_nan :: "string \<Rightarrow> string" where
  "replace_nan s = (case find_sub ''NaN'' s of None \<Rightarrow> s | Some i \<Rightarrow> take i s @ ''null'' @ replace_nan (drop (i + 3) s))"
  by pat_completeness auto
termination
  by (relation "measure length") (auto dest: find_sub_bound)

declare replace_nan.simps [simp del]

definition read_plan_to_json :: "files \<Rightarrow> (string \<Rightarrow> 'j option) \<Rightarrow> string \<Rightarrow> string \<Rightarrow> 'j option" where
  "read_plan_to_json fs parseJson base_dir file_name = parseJson (replace_nan (read_ssb_query fs base_dir file_name))"

section \<open>The passes of the examples\<close>

definition example_tree_passes :: "plan \<Rightarrow> plan option" where
  "example_tree_passes ir =
     map_option snd (moveAggIntoGroup (mergeSortIntoGroupIfSubset (placeSemiJoins ir {})))"

definition example_graph_passes :: "bool \<Rightarrow> heap \<Rightarrow> nat \<Rightarrow> astate option" where
  "example_graph_passes grand h root =
     do { h1 \<leftarrow> (if grand then grandChildrenOptimization h root else Some h);
          h2 \<leftarrow> uniqueColNames h1 root;
          irToApiData h2 root }"

type_synonym strategy = "plan \<Rightarrow> (nat \<times> TableColumn list \<times> heap) option"

definition run_passes :: "strategy \<Rightarrow> bool \<Rightarrow> plan \<Rightarrow> (nat \<times> astate) option" where
  "run_passes mat grand ir =
     do { p \<leftarrow> example_tree_passes ir;
          (root, _, h) \<leftarrow> mat p;
          s \<leftarrow> example_graph_passes grand h root;
          Some (root, s) }"

section \<open>One query, four strategies\<close>

definition approach :: "strategy \<Rightarrow> bool \<Rightarrow> 32 word \<Rightarrow> plan \<Rightarrow> builder \<Rightarrow> (WorkItem list \<times> builder) option" where
  "approach mat grand pid ir g =
     do { (root, s) \<leftarrow> run_passes mat grand (ensureCorrectColumnSetup ir (Map.empty, Map.empty));
          L \<leftarrow> to_sequence_children_list (aheap s) root;
          Some (createWorkItems (map (api s) L) pid g) }"

text \<open>A query that is not translated throws.\<close>

definition translate :: "(string \<Rightarrow> 32 word option) \<Rightarrow> ast res option \<Rightarrow> plan option" where
  "translate stof r = (case r of
     Some (Inr a) \<Rightarrow> (case astToIr stof a of Inr p \<Rightarrow> p | Inl _ \<Rightarrow> None)
   | _ \<Rightarrow> None)"

definition example_main ::
    "('e, 't, 'm) hsql_scheme \<Rightarrow> (string \<Rightarrow> ('e, 't) statement list) \<Rightarrow> nat \<Rightarrow> (string \<Rightarrow> 32 word option) \<Rightarrow>
     string \<Rightarrow> builder \<Rightarrow> WorkItem list list option" where
  "example_main H parseSQL n stof query g0 =
     do { ir \<leftarrow> translate stof (generateASTNode H parseSQL n query);
          (ws1, g1) \<leftarrow> approach fillMaterializes False 1 ir g0;
          (ws2, g2) \<leftarrow> approach putLateMaterialization True 2 ir g1;
          (ws3, g3) \<leftarrow> approach putLateMaterializationV2 True 3 ir g2;
          (ws4, g4) \<leftarrow> approach putLateMaterializationHybrid True 4 ir g3;
          Some [ws1, ws2, ws3, ws4] }"

section \<open>The benchmark queries, both front ends\<close>

definition getFreshIrTree ::
    "files \<Rightarrow> (string \<Rightarrow> 'j option) \<Rightarrow> ('j, 'm) json_lib_scheme \<Rightarrow> nat \<Rightarrow> string \<Rightarrow> string \<Rightarrow> string \<Rightarrow> plan option" where
  "getFreshIrTree fs parseJson J n base_dir json_file sql_file =
     do { v \<leftarrow> read_plan_to_json fs parseJson base_dir json_file;
          (case getIrRootJson J n v (read_ssb_query fs base_dir sql_file) of
             Some (Inr p) \<Rightarrow> Some (ensureCorrectColumnSetup p (Map.empty, Map.empty))
           | _ \<Rightarrow> None) }"

definition getFreshIrTreeFromAst ::
    "files \<Rightarrow> ('e, 't, 'm) hsql_scheme \<Rightarrow> (string \<Rightarrow> ('e, 't) statement list) \<Rightarrow> nat \<Rightarrow> (string \<Rightarrow> 32 word option) \<Rightarrow>
     string \<Rightarrow> string \<Rightarrow> plan option" where
  "getFreshIrTreeFromAst fs H parseSQL n stof base_dir sql_file =
     map_option (\<lambda>p. ensureCorrectColumnSetup p (Map.empty, Map.empty))
       (translate stof (generateASTNode H parseSQL n (read_ssb_query fs base_dir sql_file)))"

text \<open>The graph file of one strategy, with short columns.\<close>

definition pipeline_file :: "float_text \<Rightarrow> strategy \<Rightarrow> bool \<Rightarrow> plan \<Rightarrow> string option" where
  "pipeline_file ft mat grand ir =
     do { (root, s) \<leftarrow> run_passes mat grand ir;
          generatePlanDotFileV2 ft API_DATA True False s root }"

definition runPipelines :: "float_text \<Rightarrow> plan \<Rightarrow> string \<Rightarrow> string \<Rightarrow> (string \<times> string) list option" where
  "runPipelines ft tree pre sql_file =
     do { f1 \<leftarrow> pipeline_file ft fillMaterializes False tree;
          f2 \<leftarrow> pipeline_file ft putLateMaterializationV2 True tree;
          f3 \<leftarrow> pipeline_file ft putLateMaterializationHybrid True tree;
          Some [(pre @ ''_standard_'' @ sql_file @ ''.dot'', f1), (pre @ ''_late_v2_'' @ sql_file @ ''.dot'', f2),
            (pre @ ''_late_hybrid_'' @ sql_file @ ''.dot'', f3)] }"

section \<open>The JSON plans alone\<close>

definition query_parse_run ::
    "files \<Rightarrow> (string \<Rightarrow> 'j option) \<Rightarrow> ('j, 'm) json_lib_scheme \<Rightarrow> nat \<Rightarrow> string \<Rightarrow> string \<Rightarrow> string \<Rightarrow> nat list option" where
  "query_parse_run fs parseJson J n base_dir json_file sql_file =
     do { ir \<leftarrow> getFreshIrTree fs parseJson J n base_dir json_file sql_file;
          (_, p) \<leftarrow> moveAggIntoGroup ir;
          (root, _, h) \<leftarrow> fillMaterializes p;
          s \<leftarrow> example_graph_passes False h root;
          to_sequence_children_list (aheap s) root }"

section \<open>What holds of them\<close>

text \<open>The JSON parser gets a text without \<open>NaN\<close>.\<close>

lemma replace_nan_simps [simp]:
  "replace_nan [] = []"
  "replace_nan (c # s) = (if take 3 (c # s) = ''NaN'' then ''null'' @ replace_nan (drop 2 s) else c # replace_nan s)"
proof -
  show "replace_nan [] = []" by (subst replace_nan.simps) simp
  show "replace_nan (c # s) = (if take 3 (c # s) = ''NaN'' then ''null'' @ replace_nan (drop 2 s) else c # replace_nan s)"
    by (subst (1 3) replace_nan.simps) (simp add: numeral_3_eq_3 numeral_2_eq_2 split: option.split)
qed

lemma replace_nan_first: "replace_nan s = x # r \<Longrightarrow> x \<noteq> CHR ''n'' \<Longrightarrow> \<exists>t. s = x # t \<and> r = replace_nan t"
  by (cases s) (auto split: if_splits)

lemma no_nan_left: "find_sub ''NaN'' (replace_nan s) = None"
proof (induction "length s" arbitrary: s rule: less_induct)
  case less
  show ?case
  proof (cases s)
    case (Cons c t)
    show ?thesis
    proof (cases "take 3 s = ''NaN''")
      case True
      have "find_sub ''NaN'' (replace_nan (drop 2 t)) = None" using less Cons by simp
      then show ?thesis using True Cons by simp
    next
      case False
      have "take 3 (c # replace_nan t) \<noteq> ''NaN''"
      proof
        assume n: "take 3 (c # replace_nan t) = ''NaN''"
        then obtain r where r: "c = CHR ''N''" "replace_nan t = CHR ''a'' # CHR ''N'' # r"
          by (cases "replace_nan t"; cases "tl (replace_nan t)") (auto simp: numeral_3_eq_3)
        obtain u where u: "t = CHR ''a'' # u" "CHR ''N'' # r = replace_nan u" using replace_nan_first [OF r(2)] by auto
        then obtain v where "u = CHR ''N'' # v" using replace_nan_first [OF u(2) [symmetric]] by auto
        with u(1) r(1) False Cons show False by (simp add: numeral_3_eq_3)
      qed
      moreover have "find_sub ''NaN'' (replace_nan t) = None" using less Cons by simp
      ultimately show ?thesis using False Cons by (auto simp: numeral_3_eq_3)
    qed
  qed simp
qed

text \<open>Except for the first version of the late materialization the strategies are the client's pipeline with
  semi joins and the merging of sorts switched on.\<close>

lemma approach_pipeline:
  assumes "cfg_semiJoins cfg" "cfg_mergeSubsetSort cfg"
  shows "map_option fst (approach (materialize_pass cfg) (cfg_grandChildOpt cfg) (ucast pid) ir g) = runOptimizerPipeline cfg ir pid g"
proof -
  have t: "tree_passes cfg ir = example_tree_passes (ensureCorrectColumnSetup ir (Map.empty, Map.empty))"
    using assms by (simp add: tree_passes_def example_tree_passes_def Let_def)
  have w: "work_items cfg h root pid = do { s \<leftarrow> example_graph_passes (cfg_grandChildOpt cfg) h root;
      L \<leftarrow> to_sequence_children_list (aheap s) root; Some (createWorkItems (map (api s) L) (ucast pid)) }" for h root
    by (simp add: work_items_def graph_passes_def example_graph_passes_def map_option_bind comp_def)
  show ?thesis
    by (simp add: approach_def run_passes_def runOptimizerPipeline_def t w map_option_bind comp_def split_def)
qed

end
