(* ===== verification/Query_Run.thy ===== *)
theory Query_Run
  imports Runnable Client_Input Example_Programs Json_Samples Ast_Output Plan_Print
begin

text \<open>
  One query in the client, from its text to its work items (\<open>createASTRootNode\<close>, \<open>getIrRootJson\<close> and
  \<open>runOptimizerPipeline\<close> of \<open>src/client/DBClient.cpp\<close>): which front end makes the plan, how the file of a
  JSON plan is opened, and what a query leaves in the configuration for the next one. The queries run one
  after the other; the texts of \<open>-help\<close> and \<open>-debug\<close> are at the end. The two parsers, the files and the
  reading of a float are parameters.
\<close>

section \<open>The file of a JSON plan\<close>

text \<open>A path of \<open>std::filesystem\<close> without a root name: its file name is what follows the last slash, its
  parent what precedes the slashes in front of the file name, or the root directory.\<close>

definition file_name :: "string \<Rightarrow> string" where
  "file_name p = rev (takeWhile (\<lambda>c. c \<noteq> CHR ''/'') (rev p))"

definition parent_path :: "string \<Rightarrow> string" where
  "parent_path p =
     (if list_all (\<lambda>c. c = CHR ''/'') p then p
      else let d = dropWhile (\<lambda>c. c \<noteq> CHR ''/'') (rev p); s = dropWhile (\<lambda>c. c = CHR ''/'') d
           in if s = [] \<and> d \<noteq> [] then ''/'' else rev s)"

definition json_path :: "string \<Rightarrow> string" where
  "json_path f = (parent_path f @ ''/'') @ file_name f"

section \<open>The front ends\<close>

record ('j, 'e, 't) front_end =
  fe_files :: "string \<Rightarrow> string option"
  fe_parseJson :: "string \<Rightarrow> 'j option"
  fe_json :: "'j json_lib"
  fe_hsql :: "('e, 't) hsql"
  fe_parseSQL :: "string \<Rightarrow> ('e, 't) statement list"
  fe_fuel :: nat
  fe_stof :: "string \<Rightarrow> 32 word option"

text \<open>The plan of the JSON file, and the configuration without it. An exception leaves the
  configuration, and the query, without a result.\<close>

definition client_json_plan :: "('j, 'e, 't) front_end \<Rightarrow> ClientConfiguration \<Rightarrow> string \<Rightarrow> (plan \<times> ClientConfiguration) option" where
  "client_json_plan E cfg query =
     do { v \<leftarrow> read_plan_to_json (fe_files E) (fe_parseJson E) (parent_path (cfg_jsonPlanFile cfg) @ ''/'') (file_name (cfg_jsonPlanFile cfg));
          (case getIrRootJson (fe_json E) (fe_fuel E) v query of
             Some (Inr p) \<Rightarrow> Some (p, cfg\<lparr>cfg_jsonPlan := False, cfg_jsonPlanFile := []\<rparr>)
           | _ \<Rightarrow> None) }"

definition query_plan :: "('j, 'e, 't) front_end \<Rightarrow> ClientConfiguration \<Rightarrow> ast \<Rightarrow> string \<Rightarrow> (plan \<times> ClientConfiguration) option" where
  "query_plan E cfg root query =
     (if cfg_jsonPlan cfg \<and> cfg_jsonPlanFile cfg \<noteq> [] then client_json_plan E cfg query
      else map_option (\<lambda>p. (p, cfg)) (translate (fe_stof E) (Some (Inr root))))"

text \<open>The tree of the query, and the graph file it is written to.\<close>

definition createASTRootNode ::
    "('j, 'e, 't) front_end \<Rightarrow> bool \<Rightarrow> ast_address \<Rightarrow> ClientConfiguration \<Rightarrow> string \<Rightarrow> (ast \<times> (string \<times> string) list) option" where
  "createASTRootNode E is_open adr cfg query = (case generateASTNode (fe_hsql E) (fe_parseSQL E) (fe_fuel E) query of
       Some (Inr root) \<Rightarrow>
         Some (root, if cfg_planDot cfg then map (Pair ''ast_tree.dot'') (case generateDotFile is_open adr root of
           Some t \<Rightarrow> [t] | None \<Rightarrow> []) else [])
     | _ \<Rightarrow> None)"

section \<open>One query, several queries\<close>

definition run_query ::
    "('j, 'e, 't) front_end \<Rightarrow> bool \<Rightarrow> ast_address \<Rightarrow> builder \<Rightarrow> ClientConfiguration \<Rightarrow> 64 word \<times> string \<Rightarrow> (WorkItem list \<times> ClientConfiguration) option" where
  "run_query E is_open adr g cfg job =
     do { (root, _) \<leftarrow> createASTRootNode E is_open adr cfg (snd job);
          (p, cfg') \<leftarrow> query_plan E cfg root (snd job);
          ws \<leftarrow> runOptimizerPipeline cfg' p (fst job) g;
          Some (ws, cfg') }"

fun run_queries ::
    "('j, 'e, 't) front_end \<Rightarrow> bool \<Rightarrow> ast_address \<Rightarrow> builder \<Rightarrow> ClientConfiguration \<Rightarrow> (64 word \<times> string) list \<Rightarrow> (WorkItem list list \<times> ClientConfiguration) option" where
  "run_queries E is_open adr g cfg [] = Some ([], cfg)"
| "run_queries E is_open adr g cfg (q # qs) =
     do { (ws, cfg1) \<leftarrow> run_query E is_open adr g cfg q;
          (wss, cfg2) \<leftarrow> run_queries E is_open adr g cfg1 qs;
          Some (ws # wss, cfg2) }"

definition without_json :: "ClientConfiguration \<Rightarrow> ClientConfiguration" where
  "without_json cfg = cfg\<lparr>cfg_jsonPlan := False, cfg_jsonPlanFile := []\<rparr>"

definition uses_json :: "ClientConfiguration \<Rightarrow> bool" where
  "uses_json cfg \<longleftrightarrow> cfg_jsonPlan cfg \<and> cfg_jsonPlanFile cfg \<noteq> []"

section \<open>What is opened\<close>

lemma slash_stops:
  "CHR ''/'' \<notin> set f \<Longrightarrow> takeWhile (\<lambda>c. c \<noteq> CHR ''/'') (rev f @ CHR ''/'' # ds) = rev f"
  "CHR ''/'' \<notin> set f \<Longrightarrow> dropWhile (\<lambda>c. c \<noteq> CHR ''/'') (rev f @ CHR ''/'' # ds) = CHR ''/'' # ds"
  "CHR ''/'' \<notin> set f \<Longrightarrow> takeWhile (\<lambda>c. c \<noteq> CHR ''/'') (rev f) = rev f"
  "CHR ''/'' \<notin> set f \<Longrightarrow> dropWhile (\<lambda>c. c \<noteq> CHR ''/'') (rev f) = []"
  by (induction f rule: rev_induct) auto

lemma last_dir: "CHR ''/'' \<notin> set f \<Longrightarrow> file_name (d @ CHR ''/'' # f) = f" "CHR ''/'' \<notin> set f \<Longrightarrow> file_name f = f"
  by (simp_all add: file_name_def slash_stops)

lemma parent_dir:
  assumes "CHR ''/'' \<notin> set f" "d \<noteq> []" "last d \<noteq> CHR ''/''"
  shows "parent_path (d @ CHR ''/'' # f) = d"
proof -
  from assms(2,3) obtain e x where d: "d = e @ [x]" "x \<noteq> CHR ''/''" by (cases d rule: rev_cases) auto
  then show ?thesis using assms(1) by (simp add: parent_path_def slash_stops Let_def)
qed

text \<open>A file in a directory is opened where it is; a file without a directory is looked for in the root
  directory instead of the working directory.\<close>

lemma json_path_dir:
  "CHR ''/'' \<notin> set f \<Longrightarrow> d \<noteq> [] \<Longrightarrow> last d \<noteq> CHR ''/'' \<Longrightarrow> json_path (d @ ''/'' @ f) = d @ ''/'' @ f"
  by (simp add: json_path_def parent_dir last_dir)

lemma json_path_plain:
  assumes "CHR ''/'' \<notin> set f"
  shows "json_path f = ''/'' @ f"
proof -
  have "f = []" if "list_all (\<lambda>c. c = CHR ''/'') f" using that assms by (cases f) auto
  then have "parent_path f = []" using assms by (auto simp: parent_path_def slash_stops)
  then show ?thesis using assms by (simp add: json_path_def last_dir)
qed

lemma json_plan_opens:
  "client_json_plan E cfg query = Some r \<Longrightarrow>
   \<exists>v. fe_parseJson E (replace_nan (case fe_files E (json_path (cfg_jsonPlanFile cfg)) of Some c \<Rightarrow> c | None \<Rightarrow> [])) = Some v"
  by (auto simp: client_json_plan_def read_plan_to_json_def read_ssb_query_def json_path_def option_bind_eq_Some)

section \<open>What a query leaves for the next\<close>

text \<open>A query changes nothing of the configuration but the JSON plan, which is used for one query only.\<close>

lemma client_json_plan_config: "client_json_plan E cfg q = Some (p, cfg') \<Longrightarrow> cfg' = without_json cfg"
  unfolding client_json_plan_def without_json_def option_bind_eq_Some by (fastforce split: option.splits sum.splits)

lemma query_plan_config:
  "query_plan E cfg root q = Some (p, cfg') \<Longrightarrow> cfg' = (if uses_json cfg then without_json cfg else cfg)"
  unfolding query_plan_def uses_json_def using client_json_plan_config by (auto split: if_splits)

lemma run_query_config:
  "run_query E is_open adr g cfg job = Some (ws, cfg') \<Longrightarrow> cfg' = (if uses_json cfg then without_json cfg else cfg)"
  by (auto simp: run_query_def option_bind_eq_Some dest: query_plan_config)

lemma without_json_spent [simp]: "\<not> uses_json (without_json cfg)" "without_json (without_json cfg) = without_json cfg"
  by (simp_all add: uses_json_def without_json_def)

lemma plain_queries:
  "\<not> uses_json cfg \<Longrightarrow> run_queries E is_open adr g cfg qs = Some (wss, cfg') \<Longrightarrow>
   cfg' = cfg \<and> list_all2 (\<lambda>q ws. run_query E is_open adr g cfg q = Some (ws, cfg)) qs wss"
proof (induction qs arbitrary: wss cfg')
  case (Cons q qs)
  then obtain ws cfg1 wss' where r: "run_query E is_open adr g cfg q = Some (ws, cfg1)"
    "run_queries E is_open adr g cfg1 qs = Some (wss', cfg')" "wss = ws # wss'"
    by (auto simp: option_bind_eq_Some)
  from run_query_config [OF r(1)] Cons.prems(1) have "cfg1 = cfg" by simp
  with Cons.IH [OF Cons.prems(1)] r show ?case by simp
qed simp

text \<open>Of several queries the first one takes the JSON plan; all others run as if there were none, whatever
  stands between them.\<close>

lemma json_plan_once:
  assumes "uses_json cfg" "run_queries E is_open adr g cfg (q # qs) = Some (ws # wss, cfg')"
  shows "cfg' = without_json cfg \<and> run_query E is_open adr g cfg q = Some (ws, without_json cfg) \<and>
    list_all2 (\<lambda>q ws. run_query E is_open adr g (without_json cfg) q = Some (ws, without_json cfg)) qs wss"
proof -
  from assms(2) obtain cfg1 where r: "run_query E is_open adr g cfg q = Some (ws, cfg1)"
    "run_queries E is_open adr g cfg1 qs = Some (wss, cfg')" by (auto simp: option_bind_eq_Some)
  from run_query_config [OF r(1)] assms(1) have "cfg1 = without_json cfg" by simp
  with plain_queries [OF without_json_spent(1)] r show ?thesis by simp
qed

text \<open>Two workers that look at the configuration before one of them has cleared it both go for the JSON
  plan, and the later one opens the root directory.\<close>

lemma late_worker_opens_root:
  "client_json_plan E cfg q = Some (p, cfg') \<Longrightarrow> json_path (cfg_jsonPlanFile cfg') = ''/''"
  using client_json_plan_config [of E cfg q p cfg'] by (simp add: without_json_def json_path_plain)

section \<open>Which front end answers\<close>

text \<open>The SQL front end reads every query, also one whose plan comes from a file.\<close>

lemma run_query_reads_sql:
  "run_query E is_open adr g cfg (pid, q) = Some r \<Longrightarrow>
   \<exists>root. generateASTNode (fe_hsql E) (fe_parseSQL E) (fe_fuel E) q = Some (Inr root)"
  by (auto simp: run_query_def createASTRootNode_def option_bind_eq_Some split: option.splits sum.splits)

lemma run_query_plan:
  assumes "run_query E is_open adr g cfg (pid, q) = Some (ws, cfg')"
  shows "\<exists>root p. generateASTNode (fe_hsql E) (fe_parseSQL E) (fe_fuel E) q = Some (Inr root) \<and>
    query_plan E cfg root q = Some (p, cfg') \<and> runOptimizerPipeline cfg' p pid g = Some ws"
  using assms by (auto simp: run_query_def createASTRootNode_def option_bind_eq_Some split: option.splits sum.splits)

text \<open>From the text to the work items: whatever front end made the plan, its items read only columns of the
  query and columns already written, when the plan can be run and no column is left open.\<close>

lemma run_query_items:
  assumes "run_query E is_open adr g cfg (pid, q) = Some (ws, cfg')"
    and "\<And>root p. query_plan E cfg root q = Some (p, cfg') \<Longrightarrow> \<exists>p' r h. tree_passes cfg' p = Some p' \<and> runnable p' \<and>
      materialize_pass cfg' p' = Some (r, [], h) \<and> out_count h {..<length h} \<le> 2 ^ 32 \<and> columns_read p' \<subseteq> C"
  shows "reads_written C (map opData ws)"
proof -
  from run_query_plan [OF assms(1)] obtain root p where
    p: "query_plan E cfg root q = Some (p, cfg')" "runOptimizerPipeline cfg' p pid g = Some ws" by blast
  from assms(2) [OF p(1)] obtain p' r h where t: "tree_passes cfg' p = Some p'" "runnable p'"
    "materialize_pass cfg' p' = Some (r, [], h)" "out_count h {..<length h} \<le> 2 ^ 32" "columns_read p' \<subseteq> C" by blast
  from pipeline_items [OF t(1-4), of pid g] p(2) have "reads_written (columns_read p') (map opData ws)" by simp
  then show ?thesis using t(5) by (rule reads_written_mono)
qed

text \<open>A JSON plan read from a file in the working directory, by a relative path with a directory.\<close>

lemma sample_json_plan:
  assumes "fe_files E ''plans/q.json'' = Some t" "fe_parseJson E (replace_nan t) = Some sample_json"
    "fe_json E = sample_lib" "fe_fuel E = 6" "cfg_jsonPlanFile cfg = ''plans/q.json''"
  shows "\<exists>p. client_json_plan E cfg sample_sql = Some (p, without_json cfg)"
proof -
  have path: "parent_path ''plans/q.json'' = ''plans''" "file_name ''plans/q.json'' = ''q.json''" by code_simp+
  obtain p where "abstractToIr result_tree = Inr p" using sample_translated by blast
  then have "getIrRootJson sample_lib 6 sample_json sample_sql = Some (Inr p)"
    by (simp add: getIrRootJson_def sample_parsed json_to_ir_def sample_pruned sample_enriched)
  then show ?thesis
    using assms by (simp add: client_json_plan_def read_plan_to_json_def read_ssb_query_def path without_json_def)
qed

section \<open>The texts\<close>

text \<open>The menu: the flag in a field of twelve characters, left aligned.\<close>

definition runFields :: "(string \<times> string) list" where
  "runFields =
     [(''-ip'', ''Server IP. If no IP is given use 127.0.0.1''),
      (''-port'', ''Server port. If no port is given use 23232''),
      (''-file'', ''Default file for single execution of multiple queries''),
      (''-standalone'', ''Run in standalone. The client runs without server connection. Used for debugging and testing''),
      (''-help'', ''Display the help menu''),
      (''-debug'', ''Display debug information'')]"

definition configFields :: "(string \<times> string) list" where
  "configFields =
     [(''-genPlanDot'', ''Generate plan dot files''),
      (''-matType'', ''Materialization strategy [std, lateMat, lateMatHybrid]''),
      (''-mergeSort'', ''Merge sort into group if all sort-columns in group-columns.''),
      (''-semiJoins'', ''Replace joins with semi-joins if possible.''),
      (''-gChildOpt'', ''Enable grand children optimization (reuse materializations for operation after).''),
      (''-jsonPlan'', ''Use a given JSON plan file for a query. The next input is expected to be either the query or a sql file containing it.'')]"

definition menu_line :: "string \<times> string \<Rightarrow> string" where
  "menu_line f = CHR 0x09 # fst f @ replicate (12 - length (fst f)) CHR '' '' @ snd f @ [CHR 0x0A]"

definition showHelpInstructions :: string where
  "showHelpInstructions =
     ''\<newline>RUN\<newline>    optimizer-db-client [-FLAG] ... [-ARG <parameter>] ...\<newline>\<newline>GENERAL\<newline>'' @
     concat (map menu_line runFields) @ ''\<newline>CONFIGURATIONS\<newline>'' @ concat (map menu_line configFields)"

definition bool_text :: "bool \<Rightarrow> string" where
  "bool_text b = (if b then ''true'' else ''false'')"

definition mat_text :: "MaterializeOptTypes \<Rightarrow> string" where
  "mat_text m = (case m of FillMaterializes \<Rightarrow> ''fillMaterializes'' | PutLateMaterialization \<Rightarrow> ''putLateMaterialization''
     | PutLateMaterializationsHybrid \<Rightarrow> ''putLateMaterializationsHybrid'')"

definition showDebug :: "ClientConfiguration \<Rightarrow> string" where
  "showDebug cfg =
     ''IP: '' @ cfg_ip cfg @ ''\<newline>Port: '' @ to_string (cfg_port cfg) @ ''\<newline>Input File: '' @ cfg_inputFile cfg @
     ''\<newline>Standalone: '' @ bool_text (cfg_standalone cfg) @ ''\<newline>PlanDot: '' @ bool_text (cfg_planDot cfg) @
     ''\<newline>Semi Join: '' @ bool_text (cfg_semiJoins cfg) @ ''\<newline>Materialize Type: '' @ mat_text (cfg_matType cfg) @
     ''\<newline>Merge Sort into Group if Subset: '' @ bool_text (cfg_mergeSubsetSort cfg) @
     ''\<newline>Grand Child Opt: '' @ bool_text (cfg_grandChildOpt cfg) @
     ''\<newline>JSON Plan: '' @ cfg_jsonPlanFile cfg @ '' - '' @ bool_text (cfg_jsonPlan cfg) @ ''\<newline>\<newline>''"

text \<open>The plan that \<open>-debug\<close> shows: the operators of the sequence, with their renamed columns. Its lines
  are made of the IR data alone, so the JSON data of the nodes is left out.\<close>

definition debug_plan :: "float_text \<Rightarrow> astate \<Rightarrow> nat list \<Rightarrow> string option" where
  "debug_plan ft s L = printSequencedPlan ft
     (map (\<lambda>i. \<lparr>sn_raw = None, sn_abstract = NoAbstract, sn_ir = data_at (aheap s) i, sn_api = api s i,
        sn_children = map Some (children_at (aheap s) i)\<rparr>) [0..<length (aheap s)]) L 2"

text \<open>The menu names every option that the program reads, and none that it does not.\<close>

lemma menu_complete: "set (map fst (runFields @ configFields)) = set (value_keys @ flag_keys)"
  by code_simp

text \<open>The name in the text is not the word of the option: only the short words select a strategy.\<close>

lemma mat_text_not_option: "setMatType (mat_text m) = FillMaterializes"
  by (cases m) (simp_all add: mat_text_def setMatType_def)

end
