(* ===== verification/Spec2Isabelle.thy ===== *)
theory Spec2Isabelle
  imports Pipeline_Samples Sql_To_Ast Thread_Pool Client_Input Server_Routing Json_Samples Print_Reader Ast_Output Unit_Programs Query_Run
begin

text \<open>
  A verification library for the query optimizer of the repository (\<open>cpp/code\<close>): a database client
  that turns a SQL query into a plan, rewrites the plan, and sends it as numbered work items to a
  server that distributes them. File names below are relative to \<open>cpp/code\<close>.

  \<^bold>\<open>The program.\<close> A query is typed at the client (\<open>src/client/DBClient.cpp\<close>) or read from a SQL file and
  becomes a task of a thread pool (\<open>src/client/thread_pool.cpp\<close>). A task parses the query, pushes its
  predicates down (\<open>src/parser/optimizer_one.cpp\<close>), translates the syntax tree into a plan
  (\<open>src/ir/ast_to_ir.cpp\<close>), runs the passes of \<open>DBClient::runOptimizerPipeline\<close> over it
  (\<open>src/ir/ir_post_processing.cpp\<close>, \<open>src/ir_optimizations/ir_optimizations.cpp\<close>,
  \<open>include/util/unique_col_names.hpp\<close>, \<open>src/ir/ir_to_api.cpp\<close>), lists the nodes of the plan
  (\<open>include/util/sequentializer.hpp\<close>) and builds one message per node (\<open>src/translation/item_builder.cpp\<close>).
  The messages travel as frames over TCP (\<open>src/util/Utility.cpp\<close>, \<open>src/client/TCPClient.cpp\<close>) to the server
  (\<open>src/server/TCPServer.cpp\<close>), which keeps the registry of its clients and routes the messages.

  \<^bold>\<open>Theories and sources.\<close>
  \<^item> \<open>Prelude\<close>: strings as the C++ library treats them; list and option lemmas; \<open>Machine\<close>: runs of a
    partial step function, with the locales for an invariant and for a measure that bounds a run.
  \<^item> \<open>Base_Types\<close>, \<open>Catalog\<close>, \<open>Transform_Helpers\<close>: \<open>include/ir/base_types.hpp\<close>, \<open>src/util/catalog.cpp\<close>,
    \<open>src/ir/transform_helpers.cpp\<close>. The lemmas give the comparisons as orders, the lookups on every
    column, and the round trips of the condition and mapping parsers.
  \<^item> \<open>Ast_Types\<close>, \<open>Optimizer_One\<close>: \<open>include/parser/generate_AST.hpp\<close> and \<open>src/parser/optimizer_one.cpp\<close>, with a
    row semantics of the tree under which the pass is shown to keep the result.
  \<^item> \<open>Sql_To_Ast\<close>: \<open>src/parser/generate_AST.cpp\<close>, from the structures of the SQL parser to the syntax tree, every
    clause with its null dereferences; which statements are read, and what pushdown then makes of them.
  \<^item> \<open>Ir_Types\<close>, \<open>Ir_Views\<close>, \<open>Plan_Node\<close>: the operators, their factories and the plan as a tree.
  \<^item> \<open>Ast_To_Ir\<close>, \<open>Column_Setup\<close>, \<open>Tree_Optimizations\<close>: the passes over the tree, one definition per
    function, each with its invariant and its result on every branch.
  \<^item> \<open>Std_Regex\<close>, \<open>Condition_Parser\<close>, \<open>Query_Info\<close>: the regular expressions of the second front end, matched by a
    model of the backtracking of \<open>std::regex\<close>; the condition parser of \<open>src/ir/transform_helpers.cpp\<close> and
    \<open>src/ir/get_query_info.cpp\<close> on top of it. The lemmas compute the first match of a pattern from its parts.
  \<^item> \<open>Json_Plan\<close>, \<open>Json_To_Abstract\<close>, \<open>Abstract_To_Ir\<close>, \<open>Json_Samples\<close>: the second front end, from a PostgreSQL
    plan in JSON (\<open>src/ir/plan_node.cpp\<close>, \<open>src/ir/json_to_abstract.cpp\<close>, \<open>src/ir/abstract_to_ir.cpp\<close>). Each
    stage keeps the scanned tables; the last one gives joins whose columns come from their two sides.
  \<^item> \<open>Plan_Heap\<close>, \<open>Registry\<close>, \<open>Materialize\<close>, \<open>Late_Materialize\<close>, \<open>First_Late\<close>, \<open>Grand_Children\<close>: from materialization on
    nodes are shared, and the plan is a heap of cells. \<open>Registry\<close> is the interface of the maps that the
    passes keep from columns to nodes while the heap grows; \<open>wired\<close> is what the passes establish.
  \<^item> \<open>Post_Order\<close>, \<open>Sequentializer\<close>, \<open>Unique_Names\<close>, \<open>Name_Flow\<close>, \<open>Ir_To_Api\<close>, \<open>Item_Builder\<close>: the end of the pipeline, up
    to the messages of \<open>proto/WorkItem.proto\<close>. The recursion of the traversal is a stack of pending calls.
  \<^item> \<open>Client_Config\<close>, \<open>Pipeline\<close>, \<open>Pipeline_Samples\<close>: the options of the client, the composition of
    all passes as the client runs them, and sample queries that are run through it.
  \<^item> \<open>Runnable\<close>, \<open>Complete_Plans\<close>: the plan trees for which the composition is correct under every
    materialization strategy, and those for which early materialization finds every column, both decided on
    the tree alone.
  \<^item> \<open>Plan_Dot\<close>, \<open>Dot_Reader\<close>: \<open>src/ir/plan_node_to_dot.cpp\<close>, the plan as a graph file for Graphviz, and a reader
    for the statements it uses: whatever the names of a plan contain, the file is read back as the graph.
  \<^item> \<open>Plan_Print\<close>, \<open>Print_Reader\<close>: \<open>src/ir/plan_node_printing.cpp\<close>, the text of a node in each of its stages and the
    drawing of a plan as a tree, which is read back as the tree of the plan, on cyclic plans too.
  \<^item> \<open>Ast_Output\<close>: \<open>src/parser/generate_dot.cpp\<close> and \<open>printAST\<close>, the syntax tree as a graph and as text.
  \<^item> \<open>Client_Input\<close>, \<open>Thread_Pool\<close>: the line editor and main loop of the client, and the pool as steps of
    its threads between acquisitions of the mutex.
  \<^item> \<open>Tcp_Frames\<close>, \<open>Server_Registry\<close>: the frames, the receive loops of both sides, the handshake, the two
    indexes of the server and its sending functions.
  \<^item> \<open>Server_Routing\<close>: \<open>examples/tcp_server_example.cpp\<close>, the server program: its callbacks, which relay the
    messages of the clients to units and monitors, and its menu. Composed with the frames, a stream sent to a
    unit arrives there unchanged.
  \<^item> \<open>Client_Session\<close>: the callbacks of the client, its wait for the server, the loop that sends the work items,
    and the callbacks of \<open>src/server/DBServer.cpp\<close>. Composed with the pipeline and the frames: the items of a
    plan arrive in the order in which they can be executed.
  \<^item> \<open>Unit_Programs\<close>: \<open>examples/ComputeUnit.cpp\<close> and \<open>examples/tcp_client_example.cpp\<close>, the other programs that
    connect to the server; what it gets from them.
  \<^item> \<open>Query_Run\<close>: one query in the client from its text to its work items: which front end makes the plan, how the
    file of a JSON plan is opened, and that of several queries only the first takes the JSON plan; the texts of
    \<open>-help\<close> and \<open>-debug\<close>. The queries run one after the other here.
  \<^item> \<open>Example_Programs\<close>: \<open>examples/main.cpp\<close>, \<open>examples/all_ssbs_both_paths.cpp\<close>, \<open>examples/query_parse_test.cpp\<close> and
    the file reader; all but one of their strategies are the client's pipeline under fixed flags.

  \<^bold>\<open>Correspondence.\<close> A struct is a record, a variant a datatype, \<open>std::optional\<close> an option. A
  \<open>std::shared_ptr<PlanNode>\<close> is the node itself as long as the plan is a tree and an index into the heap
  afterwards. A thrown exception, a null dereference and a read past the end of a container are \<open>None\<close>. An
  ordered map whose order is observed is a sorted association list, any other map a partial function.

  \<^bold>\<open>Bounds and fuel.\<close> The name counter and the ids of work items have 32 bits, plan ids and uuids 64, payload
  sizes 32; the theorems that need it state the bound as a hypothesis. Loops are total functions with
  their measures, with two exceptions: the loop over a copied vector in \<open>sendToAllOfType\<close>, which reads
  freed clients and is a partial function, and the loop over random clients, which takes the random
  values as a list; one more value than there are clients is enough. The capacity of the receive buffers
  is a parameter, its values in the code are \<open>client_buffer\<close> and \<open>server_buffer\<close>.

  \<^bold>\<open>Parameters.\<close> The accessors of the SQL parser (with a bound on its chains of \<open>AND\<close> and nested tables: one
  more than the number of conditions is enough), the accessors of the JSON library (with a bound on the nesting of the value,
  which the library does not show; a bound above its depth is enough, \<open>parse_plan_total\<close>), the conversion
  of strings to floating point numbers and back, the text of an address, which sockets still accept data and how much of it, the encoding of messages by the protocol library, the
  network's choice of chunks, and which message types have a callback are arguments of the definitions.

  \<^bold>\<open>Not modelled.\<close> The SQL parser is a third-party library. Other messages on the console, sockets, terminal modes, the random
  number generators, the graph files that the client writes between the passes, \<open>examples/item_builder_example.cpp\<close> and \<open>examples/DBServer.cpp\<close> are not modelled. In the server's menu the three
  parts of a stream are sent without other messages between them. In \<open>extractItemsModifyBuffer\<close> the rest of
  the buffer is moved as \<open>memmove\<close> would; the code calls \<open>memcpy\<close> on regions that can overlap.
\<close>

end
